(* ===== verification/Prelude.thy ===== *)
theory Prelude
  imports Main "HOL-Library.Word" "HOL-Library.Char_ord" "HOL-Library.Monad_Syntax" "HOL-Library.Sublist"
begin

text \<open>
  Shared vocabulary of the development.

  \<^item> A byte of memory is a \<open>char\<close>, so that C string literals stay readable; a C string is the
    list of the bytes before its terminator (\<open>NUL\<close> does not occur in it).
  \<^item> A computation that can touch memory it does not own returns an \<open>option\<close>: \<open>None\<close> is
    undefined behaviour of the C code (an access out of bounds, a null or stale pointer, an
    uninitialised variable), never an ordinary error return.  A C pointer that may be \<open>NULL\<close>
    is an inner \<open>option\<close>.
  \<^item> C \<open>int\<close> is a 32-bit word read with \<open>sint\<close>; \<open>size_t\<close> and \<open>uint64_t\<close> are 64-bit words or
    natural numbers where the code cannot wrap.
  \<^item> The C library functions the program calls (\<open>strchr\<close>, \<open>strlcpy\<close>, \<open>isalnum\<close>, \<open>snprintf\<close> of
    a few conversions) are written here once.
\<close>

unbundle bit_operations_syntax

named_theorems cstr_simps \<open>computation rules for C strings and character classes\<close>
named_theorems mem_simps \<open>computation rules for checked memory access\<close>

type_synonym u8 = "8 word"
type_synonym u16 = "16 word"
type_synonym u32 = "32 word"
type_synonym u64 = "64 word"
type_synonym cint = "32 word"

section \<open>Checked memory\<close>

text \<open>Reading and writing one cell of a buffer; \<open>None\<close> is an access out of bounds.\<close>

definition rd :: "'a list \<Rightarrow> nat \<Rightarrow> 'a option" where
  "rd m i = (if i < length m then Some (m ! i) else None)"

definition wr :: "'a list \<Rightarrow> nat \<Rightarrow> 'a \<Rightarrow> 'a list option" where
  "wr m i x = (if i < length m then Some (m[i := x]) else None)"

lemma rd_Some_iff [mem_simps]: "rd m i = Some x \<longleftrightarrow> i < length m \<and> m ! i = x"
  by (simp add: rd_def)

lemma wr_Some_iff [mem_simps]: "wr m i x = Some m' \<longleftrightarrow> i < length m \<and> m' = m[i := x]"
  by (auto simp: wr_def)

lemma rd_in [simp]: "i < length m \<Longrightarrow> rd m i = Some (m ! i)"
  by (simp add: rd_def)

lemma wr_in [simp]: "i < length m \<Longrightarrow> wr m i x = Some (m[i := x])"
  by (simp add: wr_def)

lemma rd_None_iff: "rd m i = None \<longleftrightarrow> length m \<le> i"
  by (auto simp: rd_def)

section \<open>Computations that do not fault\<close>

text \<open>\<open>run f Q\<close>: the computation \<open>f\<close> does not fault and its result satisfies \<open>Q\<close>.  The
  collection \<open>run_simps\<close> pushes \<open>run\<close> through the do-notation, so that a total-correctness proof is
  \<open>auto\<close> with the specifications of the callees as \<open>run_mono\<close> introductions.\<close>

definition run :: "'a option \<Rightarrow> ('a \<Rightarrow> bool) \<Rightarrow> bool" where
  "run f Q \<longleftrightarrow> (\<exists>x. f = Some x \<and> Q x)"

named_theorems run_simps \<open>weakest preconditions of the do-notation\<close>

lemma run_Some [run_simps]: "run (Some x) Q \<longleftrightarrow> Q x"
  by (simp add: run_def)

lemma run_None [run_simps]: "\<not> run None Q"
  by (simp add: run_def)

lemma run_bind [run_simps]: "run (Option.bind f g) Q \<longleftrightarrow> run f (\<lambda>x. run (g x) Q)"
  by (cases f) (simp_all add: run_def)

lemma run_rd [run_simps]: "run (rd m i) Q \<longleftrightarrow> i < length m \<and> Q (m ! i)"
  by (auto simp: run_def rd_def)

lemma run_wr [run_simps]: "run (wr m i x) Q \<longleftrightarrow> i < length m \<and> Q (m[i := x])"
  by (auto simp: run_def wr_def)

lemma run_if [run_simps]: "run (if b then f else g) Q \<longleftrightarrow> (if b then run f Q else run g Q)"
  by simp

lemma run_case_option [run_simps]:
  "run (case r of None \<Rightarrow> f | Some x \<Rightarrow> g x) Q \<longleftrightarrow> (r = None \<longrightarrow> run f Q) \<and> (\<forall>x. r = Some x \<longrightarrow> run (g x) Q)"
  by (cases r) simp_all

lemma run_case_prod [run_simps]:
  "run (case p of (x, y) \<Rightarrow> f x y) Q \<longleftrightarrow> (\<forall>x y. p = (x, y) \<longrightarrow> run (f x y) Q)"
  by (cases p) simp

lemma run_mono: "run f P \<Longrightarrow> (\<And>x. P x \<Longrightarrow> Q x) \<Longrightarrow> run f Q"
  by (auto simp: run_def)

lemma runD: "run f Q \<Longrightarrow> f \<noteq> None"
  by (auto simp: run_def)

lemma run_Some_D: "run f Q \<Longrightarrow> f = Some x \<Longrightarrow> Q x"
  by (simp add: run_def)

section \<open>C strings\<close>

abbreviation NUL :: char where
  "NUL \<equiv> CHR 0x00"

definition cstring :: "string \<Rightarrow> bool" where
  "cstring s \<longleftrightarrow> NUL \<notin> set s"

text \<open>The C string that starts at offset \<open>i\<close> of a buffer: \<open>None\<close> when the scan for the
  terminator runs off the end of the buffer.\<close>

definition cstr_at :: "char list \<Rightarrow> nat \<Rightarrow> string option" where
  "cstr_at m i =
     (if NUL \<in> set (drop i m) then Some (takeWhile (\<lambda>c. c \<noteq> NUL) (drop i m)) else None)"

lemma cstr_at_cstring: "cstr_at m i = Some s \<Longrightarrow> cstring s"
  by (auto simp: cstr_at_def cstring_def dest: set_takeWhileD split: if_splits)

lemma cstr_at_terminated:
  assumes "i < length m" and "last m = NUL"
  shows "cstr_at m i \<noteq> None"
proof -
  from assms(1) have "drop i m \<noteq> []" by simp
  then have "last (drop i m) \<in> set (drop i m)" by (rule last_in_set)
  with assms show ?thesis by (auto simp: cstr_at_def last_drop)
qed

lemma cstr_at_append:
  assumes "cstring s"
  shows "cstr_at (pre @ s @ NUL # post) (length pre) = Some s"
proof -
  from assms have "takeWhile (\<lambda>c. c \<noteq> NUL) (s @ NUL # post) = s"
    by (subst takeWhile_append2) (auto simp: cstring_def)
  then show ?thesis by (simp add: cstr_at_def)
qed

text \<open>A buffer that ends in a terminator: no scan for it runs off the end.\<close>

definition nulterm :: "char list \<Rightarrow> bool" where
  "nulterm m \<longleftrightarrow> m \<noteq> [] \<and> last m = NUL"

lemma nulterm_next: "nulterm m \<Longrightarrow> i < length m \<Longrightarrow> m ! i \<noteq> NUL \<Longrightarrow> Suc i < length m"
  by (cases "i = length m - 1") (auto simp: nulterm_def last_conv_nth)

lemma nulterm_update: "nulterm m \<Longrightarrow> Suc i < length m \<Longrightarrow> nulterm (m[i := x])"
  by (auto simp: nulterm_def last_list_update)

lemma nulterm_update_NUL [simp]: "nulterm m \<Longrightarrow> nulterm (m[i := NUL])"
  by (cases "i < length m") (auto simp: nulterm_def last_list_update list_update_beyond)

lemma nulterm_cstr_at: "nulterm m \<Longrightarrow> i < length m \<Longrightarrow> cstr_at m i \<noteq> None"
  by (simp add: nulterm_def cstr_at_terminated)

text \<open>\<open>strlcpy\<close> and \<open>snprintf\<close> keep at most \<open>size - 1\<close> bytes.\<close>

definition trunc_cpy :: "nat \<Rightarrow> string \<Rightarrow> string" where
  "trunc_cpy sz src = take (sz - 1) src"

lemma length_trunc_cpy: "0 < sz \<Longrightarrow> length (trunc_cpy sz s) < sz"
  by (simp add: trunc_cpy_def)

lemma trunc_cpy_id [cstr_simps]: "length s < sz \<Longrightarrow> trunc_cpy sz s = s"
  by (simp add: trunc_cpy_def)

lemma trunc_cpy_cstring: "cstring s \<Longrightarrow> cstring (trunc_cpy sz s)"
  by (auto simp: trunc_cpy_def cstring_def dest: in_set_takeD)

text \<open>\<open>strchr\<close> and \<open>strrchr\<close>: the index of the first and of the last occurrence.\<close>

fun strchr :: "string \<Rightarrow> char \<Rightarrow> nat option" where
  "strchr [] c = None"
| "strchr (x # xs) c = (if x = c then Some 0 else map_option Suc (strchr xs c))"

fun strrchr :: "string \<Rightarrow> char \<Rightarrow> nat option" where
  "strrchr [] c = None"
| "strrchr (x # xs) c =
     (case strrchr xs c of Some i \<Rightarrow> Some (Suc i) | None \<Rightarrow> if x = c then Some 0 else None)"

lemma strchr_None_iff: "strchr s c = None \<longleftrightarrow> c \<notin> set s"
  by (induction s) auto

lemma strchr_SomeD:
  "strchr s c = Some i \<Longrightarrow> i < length s \<and> s ! i = c \<and> c \<notin> set (take i s)"
proof (induction s arbitrary: i)
  case (Cons x xs)
  then show ?case by (cases i) (auto split: if_splits)
qed simp

lemma strchr_SomeI: "i < length s \<Longrightarrow> s ! i = c \<Longrightarrow> c \<notin> set (take i s) \<Longrightarrow> strchr s c = Some i"
proof (induction s arbitrary: i)
  case (Cons x xs)
  then show ?case by (cases i) auto
qed simp

lemma strrchr_None_iff: "strrchr s c = None \<longleftrightarrow> c \<notin> set s"
  by (induction s) (auto split: option.splits)

lemma strrchr_SomeD:
  "strrchr s c = Some i \<Longrightarrow> i < length s \<and> s ! i = c \<and> c \<notin> set (drop (Suc i) s)"
proof (induction s arbitrary: i)
  case (Cons x xs)
  then show ?case by (auto simp: strrchr_None_iff split: option.splits if_splits)
qed simp

text \<open>\<open>strstr(h, n)\<close>: the index of the first occurrence of \<open>n\<close>.\<close>

fun strstr :: "string \<Rightarrow> string \<Rightarrow> nat option" where
  "strstr [] n = (if n = [] then Some 0 else None)"
| "strstr (x # xs) n = (if prefix n (x # xs) then Some 0 else map_option Suc (strstr xs n))"

lemma strstr_0_iff: "strstr h n = Some 0 \<longleftrightarrow> prefix n h"
  by (cases h) auto

lemma strstr_None_iff: "strstr h n = None \<longleftrightarrow> \<not> sublist n h"
  by (induction h) (auto simp: sublist_Cons_right)

text \<open>\<open>strcmp(a, b) < 0\<close>: bytes compare unsigned.\<close>

fun strcmp_less :: "string \<Rightarrow> string \<Rightarrow> bool" where
  "strcmp_less a [] = False"
| "strcmp_less [] (y # ys) = True"
| "strcmp_less (x # xs) (y # ys) =
     (if x = y then strcmp_less xs ys else (of_char x :: nat) < of_char y)"

text \<open>\<open>strspn\<close> and \<open>strcspn\<close> measure the leading run inside or outside a set of bytes.\<close>

definition strspn :: "string \<Rightarrow> string \<Rightarrow> nat" where
  "strspn s acc = length (takeWhile (\<lambda>c. c \<in> set acc) s)"

definition strcspn :: "string \<Rightarrow> string \<Rightarrow> nat" where
  "strcspn s rej = length (takeWhile (\<lambda>c. c \<notin> set rej) s)"

section \<open>Character classes (C locale)\<close>

definition chr_code :: "char \<Rightarrow> nat" where
  "chr_code c = of_char c"

lemma chr_code_less [simp]: "chr_code c < 256"
  by (simp add: chr_code_def)

lemma chr_code_inject [simp]: "chr_code c = chr_code d \<longleftrightarrow> c = d"
  by (simp add: chr_code_def)

definition isdigit :: "char \<Rightarrow> bool" where
  "isdigit c \<longleftrightarrow> 48 \<le> chr_code c \<and> chr_code c \<le> 57"

definition isupper :: "char \<Rightarrow> bool" where
  "isupper c \<longleftrightarrow> 65 \<le> chr_code c \<and> chr_code c \<le> 90"

definition islower :: "char \<Rightarrow> bool" where
  "islower c \<longleftrightarrow> 97 \<le> chr_code c \<and> chr_code c \<le> 122"

definition isalpha :: "char \<Rightarrow> bool" where
  "isalpha c \<longleftrightarrow> isupper c \<or> islower c"

definition isalnum :: "char \<Rightarrow> bool" where
  "isalnum c \<longleftrightarrow> isalpha c \<or> isdigit c"

definition isxdigit :: "char \<Rightarrow> bool" where
  "isxdigit c \<longleftrightarrow> isdigit c \<or> (65 \<le> chr_code c \<and> chr_code c \<le> 70)
                    \<or> (97 \<le> chr_code c \<and> chr_code c \<le> 102)"

definition isspace :: "char \<Rightarrow> bool" where
  "isspace c \<longleftrightarrow> chr_code c = 32 \<or> (9 \<le> chr_code c \<and> chr_code c \<le> 13)"

definition tolower :: "char \<Rightarrow> char" where
  "tolower c = (if isupper c then char_of (chr_code c + 32) else c)"

lemmas ctype_defs = isdigit_def isupper_def islower_def isalpha_def isalnum_def isxdigit_def
  isspace_def chr_code_def

lemma NUL_class [simp]: "\<not> isdigit NUL" "\<not> isxdigit NUL" "\<not> isalnum NUL" "\<not> isspace NUL"
  by (simp_all add: ctype_defs)

definition strcasecmp_eq :: "string \<Rightarrow> string \<Rightarrow> bool" where
  "strcasecmp_eq a b \<longleftrightarrow> map tolower a = map tolower b"

section \<open>Printing numbers\<close>

definition digit_char :: "nat \<Rightarrow> char" where
  "digit_char d = (if d < 10 then char_of (48 + d) else char_of (87 + d))"

definition digit_char_upper :: "nat \<Rightarrow> char" where
  "digit_char_upper d = (if d < 10 then char_of (48 + d) else char_of (55 + d))"

text \<open>\<open>%u\<close>, \<open>%x\<close>, \<open>%X\<close>: the digits of a natural number in a base of at least two.\<close>

fun show_base :: "(nat \<Rightarrow> char) \<Rightarrow> nat \<Rightarrow> nat \<Rightarrow> string" where
  "show_base dig b n =
     (if b < 2 \<or> n < b then [dig n] else show_base dig b (n div b) @ [dig (n mod b)])"

declare show_base.simps [simp del]

definition show_dec :: "nat \<Rightarrow> string" where
  "show_dec n = show_base digit_char 10 n"

definition show_hex :: "nat \<Rightarrow> string" where
  "show_hex n = show_base digit_char 16 n"

definition show_HEX :: "nat \<Rightarrow> string" where
  "show_HEX n = show_base digit_char_upper 16 n"

definition show_int :: "int \<Rightarrow> string" where
  "show_int i = (if i < 0 then CHR ''-'' # show_dec (nat (- i)) else show_dec (nat i))"

definition pad_left :: "char \<Rightarrow> nat \<Rightarrow> string \<Rightarrow> string" where
  "pad_left c w s = replicate (w - length s) c @ s"

lemma show_base_nonempty: "show_base dig b n \<noteq> []"
  by (subst show_base.simps) simp

lemma show_dec_digits: "\<forall>c \<in> set (show_dec n). isdigit c"
  unfolding show_dec_def
proof (induction digit_char "10::nat" n rule: show_base.induct)
  case (1 n)
  have d: "isdigit (digit_char k)" if "k < 10" for k
    using that by (simp add: digit_char_def ctype_defs)
  from 1 show ?case
    by (subst show_base.simps) (auto simp: d)
qed

section \<open>Little-endian loads\<close>

text \<open>The value of an unsigned field of a packed struct: the console is little-endian.\<close>

fun le_word :: "char list \<Rightarrow> 'a::len word" where
  "le_word [] = 0"
| "le_word (b # bs) = of_char b OR push_bit 8 (le_word bs)"

lemma bit_of_char_nat: "bit (of_char c :: nat) n \<Longrightarrow> n < 8"
proof -
  assume b: "bit (of_char c :: nat) n"
  have "(of_char c :: nat) = take_bit 8 (of_char c)"
    by (simp add: take_bit_eq_mod)
  with b have "bit (take_bit 8 (of_char c :: nat)) n" by simp
  then show ?thesis by (simp only: bit_take_bit_iff)
qed

lemma bit_of_char_word:
  "bit (of_char c :: 'a::len word) n \<longleftrightarrow> n < LENGTH('a) \<and> bit (of_char c :: nat) n"
proof -
  have "(of_char c :: 'a word) = word_of_nat (of_char c)" by (rule of_nat_of_char [symmetric])
  then show ?thesis by (simp only: bit_of_nat_iff possible_bit_word)
qed

lemma bit_le_word:
  "bit (le_word bs :: 'a::len word) n \<longleftrightarrow>
     n < LENGTH('a) \<and> n < 8 * length bs \<and> bit (of_char (bs ! (n div 8)) :: nat) (n mod 8)"
proof (induction bs arbitrary: n)
  case Nil
  then show ?case by simp
next
  case (Cons b bs)
  show ?case
  proof (cases "n < 8")
    case True
    then show ?thesis by (auto simp: bit_or_iff bit_push_bit_iff bit_of_char_word)
  next
    case False
    then have "n div 8 = Suc ((n - 8) div 8)" and "n mod 8 = (n - 8) mod 8"
      by (simp_all add: le_div_geq le_mod_geq)
    with False show ?thesis
      by (auto simp: bit_or_iff bit_push_bit_iff bit_of_char_word Cons.IH dest: bit_of_char_nat)
  qed
qed

lemma upt_32: "[0..<32] = [0, 1, 2, 3, 4, 5, 6, 7, 8, 9, 10, 11, 12, 13, 14, 15, 16, 17, 18, 19, 20, 21, 22, 23, 24, 25,
   26, 27, 28, 29, 30, 31]"
  by code_simp

lemma upt_64: "[0..<64] = [0, 1, 2, 3, 4, 5, 6, 7, 8, 9, 10, 11, 12, 13, 14, 15, 16, 17, 18, 19, 20, 21, 22, 23, 24, 25,
   26, 27, 28, 29, 30, 31, 32, 33, 34, 35, 36, 37, 38, 39, 40, 41, 42, 43, 44, 45, 46, 47, 48, 49,
   50, 51, 52, 53, 54, 55, 56, 57, 58, 59, 60, 61, 62, 63]"
  by code_simp

text \<open>Naturals that fit their word.\<close>

lemma unat_u16: "n < 0x10000 \<Longrightarrow> unat (word_of_nat n :: u16) = n"
  by (simp add: unat_of_nat)

lemma unat_u32: "n < 0x100000000 \<Longrightarrow> unat (word_of_nat n :: u32) = n"
  by (simp add: unat_of_nat)

end
