(* ===== verification/Common.thy ===== *)
theory Common
  imports Prelude
begin

text \<open>
  The byte-order macros of common.h.  The console is little-endian, so \<open>LE16\<close>, \<open>LE32\<close> and
  \<open>LE64\<close> are the identity and \<open>BE16\<close>, \<open>BE32\<close>, \<open>BE64\<close> swap bytes.  The package header and its
  entry table are big-endian, \<open>param.sfo\<close> is little-endian.  The lemmas say that swapping is an
  involution and that \<open>BE32\<close> of a loaded field reads the stored bytes most significant first.
\<close>

definition SWAP16 :: "u16 \<Rightarrow> u16" where
  "SWAP16 x = push_bit 8 (x AND 0x00FF) OR drop_bit 8 (x AND 0xFF00)"

definition SWAP32 :: "u32 \<Rightarrow> u32" where
  "SWAP32 x =
     push_bit 24 (x AND 0x000000FF) OR
     push_bit  8 (x AND 0x0000FF00) OR
     drop_bit  8 (x AND 0x00FF0000) OR
     drop_bit 24 (x AND 0xFF000000)"

definition SWAP64 :: "u64 \<Rightarrow> u64" where
  "SWAP64 x =
     push_bit 56 (x AND 0x00000000000000FF) OR
     push_bit 40 (x AND 0x000000000000FF00) OR
     push_bit 24 (x AND 0x0000000000FF0000) OR
     push_bit  8 (x AND 0x00000000FF000000) OR
     drop_bit  8 (x AND 0x000000FF00000000) OR
     drop_bit 24 (x AND 0x0000FF0000000000) OR
     drop_bit 40 (x AND 0x00FF000000000000) OR
     drop_bit 56 (x AND 0xFF00000000000000)"

definition BE32 :: "u32 \<Rightarrow> u32" where
  "BE32 x = SWAP32 x"

definition BE64 :: "u64 \<Rightarrow> u64" where
  "BE64 x = SWAP64 x"

definition LE16 :: "'a \<Rightarrow> 'a" where
  "LE16 x = x"

definition LE32 :: "'a \<Rightarrow> 'a" where
  "LE32 x = x"

lemmas bit_swap_simps = bit_or_iff bit_and_iff bit_push_bit_iff bit_drop_bit_eq o_def

lemma bit_SWAP32:
  assumes "n < 32"
  shows "bit (SWAP32 x) n = bit x (8 * (3 - n div 8) + n mod 8)"
proof -
  from assms have "n \<in> set [0..<32]" by simp
  then show ?thesis unfolding upt_32
    by (simp only: list.set insert_iff empty_iff, elim disjE FalseE)
       (simp_all only: SWAP32_def bit_swap_simps, simp_all, simp_all add: eval_nat_numeral)
qed

lemma bit_SWAP64:
  assumes "n < 64"
  shows "bit (SWAP64 x) n = bit x (8 * (7 - n div 8) + n mod 8)"
proof -
  from assms have "n \<in> set [0..<64]" by simp
  then show ?thesis unfolding upt_64
    by (simp only: list.set insert_iff empty_iff, elim disjE FalseE)
       (simp_all only: SWAP64_def bit_swap_simps, simp_all, simp_all add: eval_nat_numeral)
qed

text \<open>The byte index \<open>k - 1 - n div 8\<close> is its own mirror image.\<close>

lemma mirror_byte:
  fixes n k :: nat
  assumes "n < 8 * k"
  defines "m \<equiv> 8 * (k - Suc (n div 8)) + n mod 8"
  shows "m < 8 * k" and "8 * (k - Suc (m div 8)) + m mod 8 = n" and "m div 8 = k - Suc (n div 8)"
    and "m mod 8 = n mod 8"
proof -
  show d: "m div 8 = k - Suc (n div 8)" and r: "m mod 8 = n mod 8"
    by (simp_all add: m_def)
  from assms(1) have q: "n div 8 < k" by auto
  then have "k - Suc (k - Suc (n div 8)) = n div 8" by arith
  then show "8 * (k - Suc (m div 8)) + m mod 8 = n" by (simp add: d r)
  from q obtain j where "k = Suc (n div 8) + j" by (metis less_iff_Suc_add add_Suc)
  moreover have "n mod 8 < 8" by simp
  ultimately show "m < 8 * k" by (simp add: m_def)
qed

lemma SWAP32_involution [simp]: "SWAP32 (SWAP32 x) = x"
proof (rule bit_word_eqI)
  fix n assume "n < LENGTH(32)"
  then show "bit (SWAP32 (SWAP32 x)) n = bit x n"
    using mirror_byte [of n 4] by (simp add: bit_SWAP32)
qed

lemma SWAP64_involution [simp]: "SWAP64 (SWAP64 x) = x"
proof (rule bit_word_eqI)
  fix n assume "n < LENGTH(64)"
  then show "bit (SWAP64 (SWAP64 x)) n = bit x n"
    using mirror_byte [of n 8] by (simp add: bit_SWAP64)
qed

lemma SWAP32_reads_big_endian:
  assumes "length bs = 4"
  shows "SWAP32 (le_word bs) = le_word (rev bs)"
proof (rule bit_word_eqI)
  fix n assume "n < LENGTH(32)"
  then show "bit (SWAP32 (le_word bs)) n = bit (le_word (rev bs) :: u32) n"
    using mirror_byte [of n 4] assms by (simp add: bit_SWAP32 bit_le_word rev_nth)
qed

lemma SWAP64_reads_big_endian:
  assumes "length bs = 8"
  shows "SWAP64 (le_word bs) = le_word (rev bs)"
proof (rule bit_word_eqI)
  fix n assume "n < LENGTH(64)"
  then show "bit (SWAP64 (le_word bs)) n = bit (le_word (rev bs) :: u64) n"
    using mirror_byte [of n 8] assms by (simp add: bit_SWAP64 bit_le_word rev_nth)
qed

text \<open>\<open>BE32\<close> and \<open>BE64\<close> of a field loaded from four or eight bytes of the image read these
  bytes most significant first, and each swap undoes itself.\<close>

theorem big_endian_fields:
  fixes a b :: "char list"
  assumes "length a = 4" and "length b = 8"
  shows "BE32 (le_word a) = le_word (rev a) \<and> BE64 (le_word b) = le_word (rev b)
    \<and> BE32 (BE32 x) = x \<and> BE64 (BE64 y) = y"
  using assms by (simp add: BE32_def BE64_def SWAP32_reads_big_endian SWAP64_reads_big_endian)

theorem big_endian_fields_witness:
  "BE32 (le_word [CHR 0x7F, CHR ''C'', CHR ''N'', CHR ''T'']) = 0x7F434E54"
  using big_endian_fields [of "[CHR 0x7F, CHR ''C'', CHR ''N'', CHR ''T'']" "replicate 8 CHR 0x00"]
  by simp

end
