(* ===== verification/Util.thy ===== *)
theory Util
  imports Common
begin

text \<open>
  Model of util.c: percent-encoding of URLs, hexadecimal digests, string prefix and suffix
  tests, right trimming, file reading and writing through POSIX descriptors, and \<open>timespec\<close>
  arithmetic.  The operating system is the record \<open>posix\<close> of functions on an opaque world
  \<open>'w\<close>: what it returns is unconstrained, so an allocation, an \<open>open\<close>, a \<open>read\<close> or a \<open>write\<close>
  may fail or be short on any call.  A \<open>read\<close> or \<open>write\<close> that claims more bytes than were asked
  for would leave the buffer; that outcome is \<open>None\<close>.
\<close>

section \<open>The operating system\<close>

text \<open>\<open>px_open\<close> gets the path, the creation mode if the call may create the file, and the
  truncation flag.  \<open>px_read\<close> returns the result of the call and the bytes it stored.\<close>

record 'w posix =
  px_malloc :: "nat \<Rightarrow> 'w \<Rightarrow> bool \<times> 'w"
  px_open :: "string \<Rightarrow> nat option \<Rightarrow> u32 \<Rightarrow> 'w \<Rightarrow> cint \<times> 'w"
  px_fstat :: "cint \<Rightarrow> 'w \<Rightarrow> nat option \<times> 'w"
  px_read :: "cint \<Rightarrow> nat \<Rightarrow> 'w \<Rightarrow> (int \<times> string) \<times> 'w"
  px_write :: "cint \<Rightarrow> string \<Rightarrow> 'w \<Rightarrow> int \<times> 'w"
  px_close :: "cint \<Rightarrow> 'w \<Rightarrow> 'w"
  px_unlink :: "string \<Rightarrow> 'w \<Rightarrow> 'w"
  px_stat :: "string \<Rightarrow> 'w \<Rightarrow> (cint \<times> bool) \<times> 'w"

text \<open>The error codes of the SDK headers.\<close>

record sdk_errors =
  ORBIS_EINVAL :: cint
  ORBIS_ENOSPC :: cint
  ORBIS_ENXIO :: cint

section \<open>Percent-encoding and digests\<close>

definition to_hex :: "u8 \<Rightarrow> char" where
  "to_hex code = ''0123456789abcdef'' ! unat (code AND 15)"

definition url_safe_char :: "char \<Rightarrow> bool" where
  "url_safe_char c \<longleftrightarrow> isalnum c \<or> c \<in> set ''-_.~+:/@''"

fun url_encode_loop :: "string \<Rightarrow> string" where
  "url_encode_loop [] = []"
| "url_encode_loop (c # cs) =
     (if url_safe_char c then c # url_encode_loop cs
      else CHR ''%'' # to_hex (drop_bit 4 (of_char c)) # to_hex (of_char c AND 15)
             # url_encode_loop cs)"

definition url_encode :: "'w posix \<Rightarrow> string \<Rightarrow> 'w \<Rightarrow> string option \<times> 'w" where
  "url_encode P src w =
     (let (ok, w) = px_malloc P (length src * 3 + 1) w
      in (if ok then Some (url_encode_loop src) else None, w))"

fun hex_loop :: "char list \<Rightarrow> string" where
  "hex_loop [] = []"
| "hex_loop (c # cs) =
     ''0123456789ABCDEF'' ! unat (drop_bit 4 (of_char c :: u8))
     # ''0123456789ABCDEF'' ! unat ((of_char c :: u8) AND 0xF) # hex_loop cs"

text \<open>\<open>bytes_to_hex\<close> returns its error code and the string left in the buffer, if it wrote one.
  A null pointer is \<open>None\<close>; the buffer is given by its size.\<close>

definition bytes_to_hex ::
    "sdk_errors \<Rightarrow> nat option \<Rightarrow> char list option \<Rightarrow> cint \<times> string option" where
  "bytes_to_hex K buf data =
     (case (buf, data) of
        (Some buf_size, Some bytes) \<Rightarrow>
          if buf_size = 0 \<or> buf_size < length bytes * 2 + 1 then (ORBIS_ENOSPC K, None)
          else if length bytes = 0 then (0, Some [])
          else (0, Some (hex_loop bytes))
      | _ \<Rightarrow> (ORBIS_EINVAL K, None))"

section \<open>Prefixes, suffixes and trimming\<close>

fun starts_with :: "string \<Rightarrow> string \<Rightarrow> bool" where
  "starts_with [] needle = (needle = [])"
| "starts_with (h # hs) [] = True"
| "starts_with (h # hs) (n # ns) = (if h \<noteq> n then False else starts_with hs ns)"

fun starts_with_nocase :: "string \<Rightarrow> string \<Rightarrow> bool" where
  "starts_with_nocase [] needle = (needle = [])"
| "starts_with_nocase (h # hs) [] = True"
| "starts_with_nocase (h # hs) (n # ns) =
     (if tolower h \<noteq> tolower n then False else starts_with_nocase hs ns)"

text \<open>The comparison loop of \<open>ends_with\<close>, on the needle and the last bytes of the haystack.\<close>

fun ends_loop :: "(char \<Rightarrow> char) \<Rightarrow> string \<Rightarrow> string \<Rightarrow> bool" where
  "ends_loop norm [] hs = True"
| "ends_loop norm (n # ns) [] = False"
| "ends_loop norm (n # ns) (h # hs) = (if norm n \<noteq> norm h then False else ends_loop norm ns hs)"

definition ends_with :: "string \<Rightarrow> string \<Rightarrow> bool" where
  "ends_with haystack needle =
     (let diff = int (length haystack) - int (length needle)
      in if diff < 0 then False else ends_loop (\<lambda>c. c) needle (drop (nat diff) haystack))"

definition ends_with_nocase :: "string \<Rightarrow> string \<Rightarrow> bool" where
  "ends_with_nocase haystack needle =
     (let diff = int (length haystack) - int (length needle)
      in if diff < 0 then False else ends_loop tolower needle (drop (nat diff) haystack))"

text \<open>The backward scan: the argument is the number of bytes still in front of the cursor.\<close>

fun rtrim_scan :: "(char \<Rightarrow> bool) \<Rightarrow> string \<Rightarrow> nat \<Rightarrow> nat" where
  "rtrim_scan chk s 0 = 0"
| "rtrim_scan chk s (Suc k) = (if chk (s ! k) then rtrim_scan chk s k else Suc k)"

text \<open>The trimmed string and the returned pointer, as an index (\<open>None\<close> is \<open>NULL\<close>).\<close>

definition rtrim_ex :: "(char \<Rightarrow> bool) \<Rightarrow> string \<Rightarrow> string \<times> nat option" where
  "rtrim_ex chk s =
     (if s = [] then (s, Some 0)
      else let k = rtrim_scan chk s (length s)
           in (take k s, if 0 < k then Some (k - 1) else None))"

definition rtrim :: "string \<Rightarrow> string \<times> nat option" where
  "rtrim s = rtrim_ex isspace s"

section \<open>Files\<close>

function read_loop :: "'w posix \<Rightarrow> cint \<Rightarrow> nat \<Rightarrow> string \<Rightarrow> 'w \<Rightarrow> (string \<times> 'w) option" where
  "read_loop P fd left acc w =
     (if left = 0 then Some (acc, w)
      else case px_read P fd left w of ((n, bs), w') \<Rightarrow>
        if n \<le> 0 then Some (acc, w')
        else if int left < n \<or> length bs \<noteq> nat n then None
        else read_loop P fd (left - nat n) (acc @ bs) w')"
  by pat_completeness auto
termination
  by (relation "measure (\<lambda>(P, fd, left, acc, w). left)") auto

declare read_loop.simps [simp del]

text \<open>\<open>read_file\<close>: the success flag with \<open>*data\<close>, \<open>*size\<close> and \<open>*nread\<close> at the end.  The user
  buffer is present or not; \<open>size\<close> and \<open>max_size\<close> are the input values.\<close>

definition read_file ::
    "'w posix \<Rightarrow> string \<Rightarrow> bool \<Rightarrow> u64 \<Rightarrow> u64 \<Rightarrow> 'w
      \<Rightarrow> ((bool \<times> string option \<times> u64 \<times> nat) \<times> 'w) option" where
  "read_file P path user_buf sz max_size w =
     (case px_open P path None 0 w of (fd, w) \<Rightarrow>
      if sint fd < 0 then Some ((False, None, 0, 0), w)
      else case px_fstat P fd w of
        (None, w) \<Rightarrow> Some ((False, None, 0, 0), px_close P fd w)
      | (Some st_size, w) \<Rightarrow>
          let file_size = (word_of_nat st_size :: u64);
              user_size = (if sz = -1 then file_size
                           else if file_size < sz then file_size else sz);
              limited = 0 < max_size \<and> max_size \<noteq> -1;
              user_size = (if limited then min user_size max_size else user_size)
          in if \<not> limited \<and> user_buf then Some ((False, None, 0, 0), px_close P fd w)
             else case (if user_buf then (True, w) else px_malloc P (unat user_size) w) of
               (False, w) \<Rightarrow> Some ((False, None, 0, 0), px_close P fd w)
             | (True, w) \<Rightarrow>
                 (case read_loop P fd (unat user_size) [] w of
                    None \<Rightarrow> None
                  | Some (bs, w) \<Rightarrow>
                      Some ((True, Some bs, user_size, length bs), px_close P fd w)))"

definition read_text_file ::
    "'w posix \<Rightarrow> string \<Rightarrow> nat \<Rightarrow> 'w \<Rightarrow> (string option \<times> 'w) option" where
  "read_text_file P path max_size w =
     (case px_open P path None 0 w of (fd, w) \<Rightarrow>
      if sint fd < 0 then Some (None, w)
      else case px_fstat P fd w of
        (None, w) \<Rightarrow> Some (None, px_close P fd w)
      | (Some file_size, w) \<Rightarrow>
          if 0 < max_size \<and> max_size < file_size then Some (None, px_close P fd w)
          else case px_malloc P (file_size + 1) w of
            (False, w) \<Rightarrow> Some (None, px_close P fd w)
          | (True, w) \<Rightarrow>
              (case read_loop P fd file_size [] w of
                 None \<Rightarrow> None
               | Some (bs, w) \<Rightarrow> Some (Some bs, px_close P fd w)))"

function write_loop :: "'w posix \<Rightarrow> cint \<Rightarrow> string \<Rightarrow> nat \<Rightarrow> 'w \<Rightarrow> (nat \<times> 'w) option" where
  "write_loop P fd buf tot w =
     (if buf = [] then Some (tot, w)
      else case px_write P fd buf w of (n, w') \<Rightarrow>
        if n \<le> 0 then Some (tot, w')
        else if int (length buf) < n then None
        else write_loop P fd (drop (nat n) buf) (tot + nat n) w')"
  by pat_completeness auto
termination
  by (relation "measure (\<lambda>(P, fd, buf, tot, w). length buf)") auto

declare write_loop.simps [simp del]

text \<open>The success flag and \<open>*nwritten\<close>.\<close>

definition write_file ::
    "'w posix \<Rightarrow> string \<Rightarrow> string \<Rightarrow> nat \<Rightarrow> u32 \<Rightarrow> 'w \<Rightarrow> ((bool \<times> nat) \<times> 'w) option" where
  "write_file P path data mode flags w =
     (case px_open P path (Some mode) flags w of (fd, w) \<Rightarrow>
      if sint fd < 0 then Some ((False, 0), w)
      else case write_loop P fd data 0 w of
        None \<Rightarrow> None
      | Some (tot, w) \<Rightarrow> Some ((tot = length data, tot), px_close P fd w))"

text \<open>\<open>O_TRUNC\<close> is the flag of the C library.\<close>

definition write_file_trunc ::
    "'w posix \<Rightarrow> u32 \<Rightarrow> string \<Rightarrow> string \<Rightarrow> nat \<Rightarrow> 'w \<Rightarrow> ((bool \<times> nat) \<times> 'w) option" where
  "write_file_trunc P O_TRUNC path data mode w = write_file P path data mode O_TRUNC w"

definition is_file_exists :: "'w posix \<Rightarrow> string \<Rightarrow> 'w \<Rightarrow> bool \<times> 'w" where
  "is_file_exists P path w =
     (case px_stat P path w of ((ret, is_reg), w) \<Rightarrow>
        if ret \<noteq> 0 then (False, w) else (is_reg, w))"

section \<open>Time\<close>

record timespec =
  tv_sec :: int
  tv_nsec :: int

definition NSEC_PER_SEC :: int where
  "NSEC_PER_SEC = 1000000000"

definition usec_to_nsec :: "int \<Rightarrow> int" where
  "usec_to_nsec x = 1000 * x"

text \<open>\<open>timespec_now\<close> from the result of \<open>sceKernelGettimeofday\<close> (its code, seconds and
  microseconds); \<open>None\<close> is the \<open>NULL\<close> return.\<close>

definition timespec_now :: "cint \<times> int \<times> int \<Rightarrow> timespec option" where
  "timespec_now tod =
     (case tod of (ret, sec, usec) \<Rightarrow>
        if ret \<noteq> 0 then None else Some \<lparr>tv_sec = sec, tv_nsec = usec_to_nsec usec\<rparr>)"

definition timespec_sub :: "timespec \<Rightarrow> timespec \<Rightarrow> timespec" where
  "timespec_sub a b =
     (if tv_sec a < tv_sec b \<or> (tv_sec a = tv_sec b \<and> tv_nsec a \<le> tv_nsec b)
      then \<lparr>tv_sec = 0, tv_nsec = 0\<rparr>
      else if tv_nsec a < tv_nsec b
      then \<lparr>tv_sec = tv_sec a - tv_sec b - 1, tv_nsec = tv_nsec a + NSEC_PER_SEC - tv_nsec b\<rparr>
      else \<lparr>tv_sec = tv_sec a - tv_sec b, tv_nsec = tv_nsec a - tv_nsec b\<rparr>)"

text \<open>The nanosecond difference is a \<open>long\<close> returned as an \<open>int\<close>.\<close>

definition timespec_compare :: "timespec \<Rightarrow> timespec \<Rightarrow> cint" where
  "timespec_compare a b =
     (if tv_sec a < tv_sec b then -1
      else if tv_sec a > tv_sec b then 1
      else word_of_int (tv_nsec a - tv_nsec b))"

text \<open>\<open>get_language_id\<close> from the result of the system call (its code and the value).\<close>

definition get_language_id :: "cint \<times> cint \<Rightarrow> cint option" where
  "get_language_id r = (if fst r \<noteq> 0 then None else Some (snd r))"

section \<open>Lemmas: strings\<close>

lemma starts_with_iff: "starts_with h n \<longleftrightarrow> prefix n h"
  by (induction h n rule: starts_with.induct) auto

lemma ends_loop_map:
  "length ns = length hs \<Longrightarrow> ends_loop f ns hs \<longleftrightarrow> map f ns = map f hs"
  by (induction f ns hs rule: ends_loop.induct) auto

lemma suffix_iff_drop: "length n \<le> length h \<Longrightarrow> suffix n h \<longleftrightarrow> n = drop (length h - length n) h"
  by (metis suffix_take suffix_drop append_same_eq append_take_drop_id suffix_def
      diff_diff_cancel length_drop append_eq_append_conv)

lemma ends_with_iff: "ends_with h n \<longleftrightarrow> suffix n h"
proof (cases "length n \<le> length h")
  case True
  then show ?thesis
    by (simp add: ends_with_def ends_loop_map suffix_iff_drop nat_diff_distrib' flip: of_nat_diff)
next
  case False
  then show ?thesis by (auto simp: ends_with_def dest: suffix_length_le)
qed

lemma ends_with_nocase_iff: "ends_with_nocase h n \<longleftrightarrow> suffix (map tolower n) (map tolower h)"
proof (cases "length n \<le> length h")
  case True
  then show ?thesis
    by (simp add: ends_with_nocase_def ends_loop_map suffix_iff_drop drop_map flip: of_nat_diff)
next
  case False
  then show ?thesis by (auto simp: ends_with_nocase_def dest: suffix_length_le)
qed

lemma rtrim_scan_eq:
  "k \<le> length s \<Longrightarrow> rtrim_scan chk s k = length (dropWhile chk (rev (take k s)))"
  by (induction k) (auto simp: take_Suc_conv_app_nth)

lemma rtrim_ex_eq: "fst (rtrim_ex chk s) = rev (dropWhile chk (rev s))"
proof -
  have t: "take (length (dropWhile P (rev xs))) xs = rev (dropWhile P (rev xs))"
    for P and xs :: string
    by (induction xs rule: rev_induct)
       (auto intro: order_trans [OF length_dropWhile_le])
  show ?thesis
    by (cases "s = []") (simp_all add: rtrim_ex_def Let_def rtrim_scan_eq t)
qed

section \<open>Lemmas: encoding\<close>

text \<open>Reading a percent-encoded string back, with the usual rule for \<open>%XY\<close>.\<close>

definition hex_val :: "char \<Rightarrow> nat" where
  "hex_val c = (if isdigit c then chr_code c - 48 else chr_code (tolower c) - 87)"

fun percent_decode :: "string \<Rightarrow> string" where
  "percent_decode (c # a # b # cs) =
     (if c = CHR ''%'' then char_of (16 * hex_val a + hex_val b) # percent_decode cs
      else c # percent_decode (a # b # cs))"
| "percent_decode s = s"

lemma upt_16: "[0..<16] = [0, 1, 2, 3, 4, 5, 6, 7, 8, 9, 10, 11, 12, 13, 14, 15]"
  by code_simp

lemma to_hex_nibble:
  assumes "k < 16"
  shows "hex_val (''0123456789abcdef'' ! k) = k" and "isxdigit (''0123456789abcdef'' ! k)"
proof -
  from assms have "k \<in> set [0..<16]" by simp
  then show "hex_val (''0123456789abcdef'' ! k) = k" unfolding upt_16
    by (simp only: list.set insert_iff empty_iff, elim disjE FalseE)
       (simp_all add: hex_val_def tolower_def ctype_defs)
  from assms have "k \<in> set [0..<16]" by simp
  then show "isxdigit (''0123456789abcdef'' ! k)" unfolding upt_16
    by (simp only: list.set insert_iff empty_iff, elim disjE FalseE) (simp_all add: ctype_defs)
qed

lemma u8_low_nibble: "unat ((x :: u8) AND 15) = unat x mod 16"
proof -
  have "x AND 15 = take_bit 4 x" by (simp add: take_bit_eq_mask mask_eq_exp_minus_1)
  then show ?thesis by (simp only: unsigned_take_bit_eq) (simp add: take_bit_eq_mod)
qed

lemma u8_high_nibble: "unat (drop_bit 4 (x :: u8)) = unat x div 16"
  by (simp add: drop_bit_eq_div unat_div)

lemma unat_of_char [simp]: "unat (of_char c :: u8) = of_char c"
proof -
  have "(of_char c :: u8) = word_of_nat (of_char c)" by (rule of_nat_of_char [symmetric])
  then show ?thesis by (simp only: unsigned_of_nat) (simp add: take_bit_eq_mod)
qed

lemma hex_pair:
  "hex_val (to_hex (drop_bit 4 (of_char c))) * 16 + hex_val (to_hex (of_char c AND 15)) = chr_code c"
proof -
  have "(of_char c :: nat) div 16 < 16" by (simp add: less_mult_imp_div_less)
  then show ?thesis
    by (simp add: to_hex_def u8_low_nibble u8_high_nibble to_hex_nibble chr_code_def)
qed

lemma percent_decode_plain:
  "c \<noteq> CHR ''%'' \<Longrightarrow> percent_decode (c # cs) = c # percent_decode cs"
  by (cases "c # cs" rule: percent_decode.cases) auto

lemma percent_decode_url_encode: "percent_decode (url_encode_loop s) = s"
proof (induction s)
  case (Cons c cs)
  show ?case
  proof (cases "url_safe_char c")
    case True
    then have "c \<noteq> CHR ''%''" by (auto simp: url_safe_char_def ctype_defs)
    with True Cons.IH show ?thesis by (simp add: percent_decode_plain)
  next
    case False
    have "char_of (hex_val (to_hex (drop_bit 4 (of_char c))) * 16
             + hex_val (to_hex (of_char c AND 15))) = c"
      unfolding hex_pair by (simp add: chr_code_def)
    with False Cons.IH show ?thesis by (simp add: mult.commute)
  qed
qed simp

lemma length_url_encode_loop: "length (url_encode_loop s) \<le> 3 * length s"
  by (induction s) auto

lemma to_hex_xdigit: "isxdigit (to_hex x)"
proof -
  have "unat (x AND 15) < 16" by (simp add: u8_low_nibble)
  then show ?thesis unfolding to_hex_def using to_hex_nibble by blast
qed

lemma isxdigit_url_safe: "isxdigit c \<Longrightarrow> url_safe_char c"
  by (auto simp: url_safe_char_def ctype_defs)

lemma url_encode_loop_chars: "c \<in> set (url_encode_loop s) \<Longrightarrow> url_safe_char c \<or> c = CHR ''%''"
  by (induction s) (auto simp: to_hex_xdigit isxdigit_url_safe split: if_splits)

lemma length_hex_loop: "length (hex_loop bs) = 2 * length bs"
  by (induction bs) auto

section \<open>Lemmas: files\<close>

text \<open>What POSIX promises of \<open>read\<close> and \<open>write\<close>: a call never reports more bytes than it was
  asked to transfer, and \<open>read\<close> stores as many bytes as it reports.\<close>

definition posix_ok :: "'w posix \<Rightarrow> bool" where
  "posix_ok P \<longleftrightarrow>
     (\<forall>fd k w n bs w'. px_read P fd k w = ((n, bs), w') \<longrightarrow> n \<le> int k \<and> (0 < n \<longrightarrow> length bs = nat n)) \<and>
     (\<forall>fd d w n w'. px_write P fd d w = (n, w') \<longrightarrow> n \<le> int (length d))"

lemma posix_ok_read:
  "posix_ok P \<Longrightarrow> px_read P fd k w = ((n, bs), w') \<Longrightarrow> 0 < n \<Longrightarrow> nat n \<le> k \<and> length bs = nat n"
  unfolding posix_ok_def by fastforce

lemma posix_ok_write:
  "posix_ok P \<Longrightarrow> px_write P fd d w = (n, w') \<Longrightarrow> n \<le> int (length d)"
  unfolding posix_ok_def by blast

lemma read_loop_total:
  assumes "posix_ok P"
  shows "\<exists>bs w'. read_loop P fd left acc w = Some (acc @ bs, w') \<and> length bs \<le> left"
proof (induction left arbitrary: acc w rule: less_induct)
  case (less left)
  obtain n bs w' where r: "px_read P fd left w = ((n, bs), w')" by (metis prod.collapse)
  show ?case
  proof (cases "left = 0 \<or> n \<le> 0")
    case True
    then show ?thesis by (subst read_loop.simps) (auto simp: r)
  next
    case False
    with posix_ok_read [OF assms r] have k: "nat n \<le> left" "length bs = nat n" by auto
    with False have "left - nat n < left" by simp
    from less [OF this, of "acc @ bs" w'] obtain bs' w2 where
      "read_loop P fd (left - nat n) (acc @ bs) w' = Some ((acc @ bs) @ bs', w2)"
      "length bs' \<le> left - nat n" by blast
    with False k show ?thesis by (subst read_loop.simps) (auto simp: r)
  qed
qed

text \<open>\<open>accepted\<close> observes what a descriptor has been given so far; each write appends the bytes
  it reports.\<close>

definition write_appends :: "'w posix \<Rightarrow> (cint \<Rightarrow> 'w \<Rightarrow> string) \<Rightarrow> bool" where
  "write_appends P accepted \<longleftrightarrow>
     (\<forall>fd d w n w'. px_write P fd d w = (n, w') \<longrightarrow>
        accepted fd w' = accepted fd w @ take (nat n) d)"

lemma write_loop_spec:
  assumes "posix_ok P" and "write_appends P accepted"
  shows "\<exists>k w'. write_loop P fd buf t w = Some (t + k, w') \<and> k \<le> length buf
            \<and> accepted fd w' = accepted fd w @ take k buf"
proof (induction "length buf" arbitrary: buf t w rule: less_induct)
  case less
  obtain n w' where r: "px_write P fd buf w = (n, w')" by (metis prod.collapse)
  have acc: "accepted fd w' = accepted fd w @ take (nat n) buf"
    using assms(2) r unfolding write_appends_def by blast
  show ?case
  proof (cases "buf = [] \<or> n \<le> 0")
    case True
    with acc show ?thesis by (subst write_loop.simps) (auto simp: r intro!: exI [of _ 0])
  next
    case False
    then have "length (drop (nat n) buf) < length buf" by simp
    from less [OF this, of "t + nat n" w'] obtain k w2 where
      k: "write_loop P fd (drop (nat n) buf) (t + nat n) w' = Some (t + nat n + k, w2)"
      "k \<le> length (drop (nat n) buf)"
      "accepted fd w2 = accepted fd w' @ take k (drop (nat n) buf)" by blast
    from posix_ok_write [OF assms(1) r] have "\<not> int (length buf) < n" by simp
    with False k acc show ?thesis
      by (subst write_loop.simps)
         (auto simp: r take_add add.assoc intro!: exI [of _ "nat n + k"])
  qed
qed

text \<open>Descriptors: \<open>live\<close> observes the open ones.\<close>

definition fd_discipline :: "'w posix \<Rightarrow> ('w \<Rightarrow> cint set) \<Rightarrow> bool" where
  "fd_discipline P live \<longleftrightarrow>
     (\<forall>p m fl w fd w'. px_open P p m fl w = (fd, w') \<longrightarrow>
        (if sint fd < 0 then live w' = live w else fd \<notin> live w \<and> live w' = insert fd (live w))) \<and>
     (\<forall>fd w. live (px_close P fd w) = live w - {fd}) \<and>
     (\<forall>fd w. live (snd (px_fstat P fd w)) = live w) \<and>
     (\<forall>n w. live (snd (px_malloc P n w)) = live w) \<and>
     (\<forall>fd n w. live (snd (px_read P fd n w)) = live w) \<and>
     (\<forall>fd d w. live (snd (px_write P fd d w)) = live w)"

lemma fd_disciplineD:
  assumes "fd_discipline P live"
  shows "px_open P p m fl w = (fd, w') \<Longrightarrow> sint fd < 0 \<Longrightarrow> live w' = live w"
    and "px_open P p m fl w = (fd, w') \<Longrightarrow> \<not> sint fd < 0 \<Longrightarrow>
           fd \<notin> live w \<and> live w' = insert fd (live w)"
    and "live (px_close P fd w) = live w - {fd}"
    and "px_fstat P fd w = (st, w') \<Longrightarrow> live w' = live w"
    and "px_malloc P n w = (b, w') \<Longrightarrow> live w' = live w"
    and "px_read P fd n w = (r, w') \<Longrightarrow> live w' = live w"
    and "px_write P fd d w = (k, w') \<Longrightarrow> live w' = live w"
  using assms unfolding fd_discipline_def
  by (metis snd_conv)+

lemma read_loop_live:
  assumes "fd_discipline P live"
  shows "read_loop P fd left acc w = Some (bs, w') \<Longrightarrow> live w' = live w"
proof (induction left arbitrary: acc w rule: less_induct)
  case (less left)
  obtain n bs0 w1 where r: "px_read P fd left w = ((n, bs0), w1)" by (metis prod.collapse)
  note l = fd_disciplineD(6) [OF assms r]
  from less.prems less.IH [of "left - nat n" "acc @ bs0" w1] l show ?case
    by (subst (asm) read_loop.simps) (auto simp: r split: if_splits)
qed

lemma write_loop_live:
  assumes "fd_discipline P live"
  shows "write_loop P fd buf t w = Some (k, w') \<Longrightarrow> live w' = live w"
proof (induction "length buf" arbitrary: buf t w rule: less_induct)
  case less
  obtain n w1 where r: "px_write P fd buf w = (n, w1)" by (metis prod.collapse)
  note l = fd_disciplineD(7) [OF assms r]
  from less.prems less.hyps [of "drop (nat n) buf" "t + nat n" w1] l show ?case
    by (subst (asm) write_loop.simps) (auto simp: r split: if_splits)
qed

lemma read_text_file_live:
  assumes "fd_discipline P live" and "read_text_file P path mx w = Some (r, w')"
  shows "live w' = live w"
  using assms(2) unfolding read_text_file_def
  by (auto simp: fd_disciplineD [OF assms(1)] split: prod.splits option.splits if_splits bool.splits
      dest!: fd_disciplineD(1,2,4,5) [OF assms(1)] read_loop_live [OF assms(1)])

lemma write_file_live:
  assumes "fd_discipline P live" and "write_file P path d m fl w = Some (r, w')"
  shows "live w' = live w"
  using assms(2) unfolding write_file_def
  by (auto simp: fd_disciplineD [OF assms(1)] split: prod.splits option.splits if_splits
      dest!: fd_disciplineD(1,2) [OF assms(1)] write_loop_live [OF assms(1)])

lemma read_loop_no_fault: "posix_ok P \<Longrightarrow> read_loop P fd left acc w \<noteq> None"
  using read_loop_total [of P fd left acc w] by auto

lemma write_loop_no_fault:
  assumes "posix_ok P"
  shows "write_loop P fd buf t w \<noteq> None"
proof (induction "length buf" arbitrary: buf t w rule: less_induct)
  case less
  obtain n w1 where r: "px_write P fd buf w = (n, w1)" by (metis prod.collapse)
  from posix_ok_write [OF assms r] less [of "drop (nat n) buf" "t + nat n" w1] show ?case
    by (subst write_loop.simps) (auto simp: r)
qed

lemma read_text_file_total: "posix_ok P \<Longrightarrow> read_text_file P path mx w \<noteq> None"
  unfolding read_text_file_def
  by (auto simp: read_loop_no_fault split: prod.splits option.splits bool.splits)

lemma write_file_total: "posix_ok P \<Longrightarrow> write_file P path d m fl w \<noteq> None"
  unfolding write_file_def
  by (auto simp: write_loop_no_fault split: prod.splits option.splits)

lemma write_file_spec:
  assumes "posix_ok P" and "write_appends P accepted"
    and "px_open P path (Some mode) fl w = (fd, w1)" and "\<not> sint fd < 0"
  shows "\<exists>k w2. write_file P path data mode fl w = Some ((k = length data, k), px_close P fd w2)
            \<and> k \<le> length data \<and> accepted fd w2 = accepted fd w1 @ take k data"
proof -
  from write_loop_spec [OF assms(1,2), of fd data 0 w1] obtain k w2 where
    "write_loop P fd data 0 w1 = Some (k, w2)" "k \<le> length data"
    "accepted fd w2 = accepted fd w1 @ take k data" by auto
  with assms(3,4) show ?thesis by (auto simp: write_file_def)
qed

section \<open>Lemmas: time\<close>

definition ts_normal :: "timespec \<Rightarrow> bool" where
  "ts_normal t \<longleftrightarrow> 0 \<le> tv_nsec t \<and> tv_nsec t < NSEC_PER_SEC"

definition ts_value :: "timespec \<Rightarrow> int" where
  "ts_value t = tv_sec t * NSEC_PER_SEC + tv_nsec t"

lemma timespec_sub_value:
  assumes "ts_normal a" "ts_normal b"
  shows "ts_value (timespec_sub a b) = max 0 (ts_value a - ts_value b)"
    and "ts_normal (timespec_sub a b)"
  using assms by (auto simp: timespec_sub_def ts_normal_def ts_value_def NSEC_PER_SEC_def)

lemma sint_word_of_int_small:
  "- (2 ^ 31) \<le> i \<Longrightarrow> i < 2 ^ 31 \<Longrightarrow> sint (word_of_int i :: cint) = i"
  by (simp add: signed_of_int signed_take_bit_int_eq_self)

lemma timespec_compare_sign:
  assumes "ts_normal a" "ts_normal b"
  shows "sgn (sint (timespec_compare a b)) = sgn (ts_value a - ts_value b)"
proof -
  have n: "sint (word_of_int (tv_nsec a - tv_nsec b) :: cint) = tv_nsec a - tv_nsec b"
    by (rule sint_word_of_int_small)
       (use assms in \<open>auto simp: ts_normal_def NSEC_PER_SEC_def\<close>)
  consider "tv_sec a < tv_sec b" | "tv_sec a > tv_sec b" | "tv_sec a = tv_sec b" by linarith
  then show ?thesis
  proof cases
    case 1
    then show ?thesis using assms
      by (auto simp: timespec_compare_def ts_value_def ts_normal_def NSEC_PER_SEC_def sgn_if)
  next
    case 2
    then show ?thesis using assms
      by (auto simp: timespec_compare_def ts_value_def ts_normal_def NSEC_PER_SEC_def sgn_if)
  next
    case 3
    then show ?thesis by (simp add: timespec_compare_def ts_value_def n del: of_int_diff)
  qed
qed

section \<open>A small machine\<close>

text \<open>A concrete operating system for evaluating the definitions: one descriptor at a time, at
  most two bytes per write, files of four bytes.  Its world is the list of open descriptors with
  what they have been given.\<close>

definition tiny_posix :: "(cint \<times> string) list posix" where
  "tiny_posix =
     \<lparr>px_malloc = (\<lambda>n w. (True, w)),
      px_open = (\<lambda>p m fl w. if w = [] then (3, [(3, [])]) else (-1, w)),
      px_fstat = (\<lambda>fd w. (Some 4, w)),
      px_read = (\<lambda>fd n w. ((int (min n 3), replicate (min n 3) CHR ''A''), w)),
      px_write = (\<lambda>fd d w. if fd \<in> fst ` set w
                   then (int (min 2 (length d)),
                         map (\<lambda>(f, s). (f, if f = fd then s @ take 2 d else s)) w)
                   else (-1, w)),
      px_close = (\<lambda>fd w. filter (\<lambda>x. fst x \<noteq> fd) w),
      px_unlink = (\<lambda>p w. w),
      px_stat = (\<lambda>p w. ((-1, False), w))\<rparr>"

definition tiny_accepted :: "cint \<Rightarrow> (cint \<times> string) list \<Rightarrow> string" where
  "tiny_accepted fd w = (case map_of w fd of Some s \<Rightarrow> s | None \<Rightarrow> [])"

definition tiny_live :: "(cint \<times> string) list \<Rightarrow> cint set" where
  "tiny_live w = fst ` set w"

lemma tiny_posix_ok: "posix_ok tiny_posix"
  by (auto simp: posix_ok_def tiny_posix_def)

lemma tiny_fd_discipline: "fd_discipline tiny_posix tiny_live"
  by (force simp: fd_discipline_def tiny_posix_def tiny_live_def split: if_splits)

lemma map_of_map_snd: "map_of (map (\<lambda>(f, s). (f, g f s)) w) k = map_option (g k) (map_of w k)"
  by (induction w) auto

lemma tiny_write_appends: "write_appends tiny_posix tiny_accepted"
  by (force simp: write_appends_def tiny_posix_def tiny_accepted_def map_of_map_snd min_def
      map_of_eq_None_iff split: if_splits option.splits)

section \<open>Properties\<close>

text \<open>C31: When \<open>url_encode\<close> gets its buffer, the percent-decoding of its result is the source
  string, the result consists of characters that are safe in a URL and of percent signs, and
  with its terminator it fits the \<open>3 * strlen(src) + 1\<close> bytes that were allocated.\<close>

theorem url_encode_correct:
  assumes "url_encode P src w = (Some e, w')"
  shows "percent_decode e = src \<and> (\<forall>c \<in> set e. url_safe_char c \<or> c = CHR ''%'')
    \<and> length e + 1 \<le> length src * 3 + 1"
  using assms url_encode_loop_chars [of _ src] length_url_encode_loop [of src]
  by (auto simp: url_encode_def percent_decode_url_encode split: prod.splits if_splits)

theorem url_encode_correct_witness:
  "percent_decode ''a%20b'' = ''a b'' \<and> length ''a%20b'' + 1 \<le> length ''a b'' * 3 + 1"
proof -
  have "url_encode tiny_posix ''a b'' [] = (Some ''a%20b'', [])"
    by (simp add: url_encode_def tiny_posix_def url_safe_char_def ctype_defs to_hex_def)
  from url_encode_correct [OF this] show ?thesis by simp
qed

text \<open>\<open>write_file\<close> always returns, leaves the set of open descriptors as it was, reports
  failure with zero bytes when the file cannot be opened, and otherwise reports the number
  \<open>k\<close> of bytes that reached the file: they are the first \<open>k\<close> bytes of the data, in order,
  whatever short or failing writes occurred, and success means that \<open>k\<close> is all of them.\<close>

theorem write_file_exact:
  assumes "posix_ok P" "write_appends P accepted" "fd_discipline P live"
    and "px_open P path (Some mode) fl w = (fd, w1)"
  shows "\<exists>k w'. write_file P path data mode fl w = Some ((0 \<le> sint fd \<and> k = length data, k), w')
           \<and> live w' = live w \<and> (sint fd < 0 \<longrightarrow> k = 0)
           \<and> (0 \<le> sint fd \<longrightarrow> (\<exists>w2. w' = px_close P fd w2 \<and> k \<le> length data
                 \<and> accepted fd w2 = accepted fd w1 @ take k data))"
proof (cases "sint fd < 0")
  case True
  with assms(4) fd_disciplineD(1) [OF assms(3,4)] show ?thesis by (auto simp: write_file_def)
next
  case False
  from write_file_spec [OF assms(1,2,4) this] obtain k w2 where
    "write_file P path data mode fl w = Some ((k = length data, k), px_close P fd w2)"
    "k \<le> length data" "accepted fd w2 = accepted fd w1 @ take k data" by blast
  with False write_file_live [OF assms(3)] show ?thesis by fastforce
qed

theorem write_file_exact_witness:
  "\<exists>k w'. write_file tiny_posix ''f'' ''hello'' 0 0 [] = Some ((k = length ''hello'', k), w')
      \<and> tiny_live w' = tiny_live []"
  using write_file_exact [OF tiny_posix_ok tiny_write_appends tiny_fd_discipline,
      of "''f''" 0 0 "[]" 3 "[(3, [])]" "''hello''"]
  by (simp add: tiny_posix_def) blast

text \<open>For normalised times, \<open>timespec_sub\<close> is subtraction of the times in nanoseconds, cut
  off at zero, with a normalised result, and \<open>timespec_compare\<close> has the sign of the
  difference.\<close>

theorem timespec_ops_correct:
  assumes "ts_normal a" "ts_normal b"
  shows "ts_value (timespec_sub a b) = max 0 (ts_value a - ts_value b)
    \<and> ts_normal (timespec_sub a b)
    \<and> sgn (sint (timespec_compare a b)) = sgn (ts_value a - ts_value b)"
  using timespec_sub_value [OF assms] timespec_compare_sign [OF assms] by blast

theorem timespec_ops_correct_witness:
  "ts_value (timespec_sub \<lparr>tv_sec = 5, tv_nsec = 1\<rparr> \<lparr>tv_sec = 3, tv_nsec = 2\<rparr>) = 1999999999"
proof -
  have "ts_normal \<lparr>tv_sec = 5, tv_nsec = 1\<rparr>" "ts_normal \<lparr>tv_sec = 3, tv_nsec = 2\<rparr>"
    by (simp_all add: ts_normal_def NSEC_PER_SEC_def)
  from timespec_ops_correct [OF this] show ?thesis
    by (simp add: ts_value_def NSEC_PER_SEC_def)
qed

end
