(* ===== verification/Sandbird.thy ===== *)
theory Sandbird
  imports Util
begin

text \<open>
  Model of sandbird.c: the HTTP server that accepts connections, collects a request, hands it to
  an event handler and sends the response.  A pointer into a terminated buffer is the rest of
  its text.  Growing buffers, sockets and files go through the record \<open>sb_env\<close>; a step that
  would leave its buffer, or a loop that never ends, is \<open>None\<close>.  Sizes are \<open>nat\<close>: a buffer of
  \<open>2 ^ 63\<close> bytes cannot be allocated, so the doubling of a capacity does not wrap.
\<close>

section \<open>Codes and states\<close>

definition SB_ESUCCESS :: cint where "SB_ESUCCESS = 0"
definition SB_EFAILURE :: cint where "SB_EFAILURE = -1"
definition SB_EOUTOFMEM :: cint where "SB_EOUTOFMEM = -2"
definition SB_ETRUNCATED :: cint where "SB_ETRUNCATED = -3"
definition SB_EBADSTATE :: cint where "SB_EBADSTATE = -4"
definition SB_EBADRESULT :: cint where "SB_EBADRESULT = -5"
definition SB_ECANTOPEN :: cint where "SB_ECANTOPEN = -6"
definition SB_ENOTFOUND :: cint where "SB_ENOTFOUND = -7"

lemmas sb_codes = SB_ESUCCESS_def SB_EFAILURE_def SB_EOUTOFMEM_def SB_ETRUNCATED_def
  SB_EBADSTATE_def SB_EBADRESULT_def SB_ECANTOPEN_def SB_ENOTFOUND_def

definition SB_RES_OK :: cint where "SB_RES_OK = 0"
definition SB_RES_CLOSE :: cint where "SB_RES_CLOSE = 1"

definition sb_error_str :: "cint \<Rightarrow> string" where
  "sb_error_str code =
     (if code = SB_ESUCCESS then ''success'' else if code = SB_EFAILURE then ''failure''
      else if code = SB_EOUTOFMEM then ''out of memory''
      else if code = SB_ETRUNCATED then ''result truncated''
      else if code = SB_EBADSTATE then ''bad stream state for this operation''
      else if code = SB_EBADRESULT then ''bad result code from event handler''
      else if code = SB_ECANTOPEN then ''cannot open file''
      else if code = SB_ENOTFOUND then ''not found'' else ''unknown'')"

text \<open>The code compares states with \<open><\<close>: they are ordered as the enumeration lists them.\<close>

datatype stream_state =
  RECEIVING_HEADER | RECEIVING_REQUEST | SENDING_STATUS | SENDING_HEADER | SENDING_DATA
| SENDING_FILE | CLOSING

fun state_number :: "stream_state \<Rightarrow> nat" where
  "state_number RECEIVING_HEADER = 0"
| "state_number RECEIVING_REQUEST = 1"
| "state_number SENDING_STATUS = 2"
| "state_number SENDING_HEADER = 3"
| "state_number SENDING_DATA = 4"
| "state_number SENDING_FILE = 5"
| "state_number CLOSING = 6"

lemma state_number_inject: "state_number a = state_number b \<Longrightarrow> a = b"
  by (cases a; cases b) simp_all

instantiation stream_state :: linorder
begin

definition less_eq_stream_state :: "stream_state \<Rightarrow> stream_state \<Rightarrow> bool" where
  "less_eq_stream_state a b \<longleftrightarrow> state_number a \<le> state_number b"

definition less_stream_state :: "stream_state \<Rightarrow> stream_state \<Rightarrow> bool" where
  "less_stream_state a b \<longleftrightarrow> state_number a < state_number b"

instance
  by standard (auto simp: less_eq_stream_state_def less_stream_state_def dest: state_number_inject)

end

lemmas state_order [simp] = less_eq_stream_state_def less_stream_state_def

section \<open>Text\<close>

text \<open>Characters that an array holds up to its first terminator.\<close>

definition cstr_of :: "char list \<Rightarrow> string" where
  "cstr_of m = takeWhile (\<lambda>c. c \<noteq> NUL) m"

fun digits_value :: "nat \<Rightarrow> string \<Rightarrow> nat" where
  "digits_value n [] = n"
| "digits_value n (c # cs) = (if isdigit c then digits_value (n * 10 + (chr_code c - 48)) cs else n)"

text \<open>\<open>sscanf\<close> with \<open>%u\<close>: white space, an optional sign, digits; the value is computed as an
  \<open>unsigned long\<close> that saturates, and cut to 32 bits.\<close>

definition str_to_uint :: "string option \<Rightarrow> nat" where
  "str_to_uint str =
     (case str of None \<Rightarrow> 0
      | Some s \<Rightarrow>
          let s = dropWhile isspace s;
              neg = (s \<noteq> [] \<and> hd s = CHR ''-'');
              s = (if s \<noteq> [] \<and> (hd s = CHR ''-'' \<or> hd s = CHR ''+'') then tl s else s);
              n = min (digits_value 0 s) (2 ^ 64 - 1)
          in if s = [] \<or> \<not> isdigit (hd s) then 0
             else unat (if neg \<and> n < 2 ^ 64 - 1 then - (word_of_nat n) else (word_of_nat n :: u32)))"

definition hex_to_int :: "char \<Rightarrow> int" where
  "hex_to_int c = (if isdigit c then int (chr_code c) - 48 else int (chr_code (tolower c)) - 97 + 10)"

definition char_of_int :: "int \<Rightarrow> char" where
  "char_of_int i = char_of (nat (i mod 256))"

text \<open>\<open>url_decode\<close> stops at the end of a path or parameter, or when \<open>len - 1\<close> characters have
  been stored.\<close>

definition url_stop :: string where
  "url_stop = ''?& '' @ [CHR 0x09, CHR 0x0D, CHR 0x0A]"

function url_decode_loop :: "string \<Rightarrow> nat \<Rightarrow> string \<times> nat" where
  "url_decode_loop src len =
     (case src of [] \<Rightarrow> ([], len)
      | c # cs \<Rightarrow>
          if c \<in> set url_stop \<or> len = 0 then ([], len)
          else if c = CHR ''%'' \<and> 2 \<le> length cs then
            let (d, l) = url_decode_loop (drop 2 cs) (len - 1)
            in (char_of_int (hex_to_int (cs ! 0) * 16 OR hex_to_int (cs ! 1)) # d, l)
          else let (d, l) = url_decode_loop cs (len - 1)
               in ((if c = CHR ''+'' then CHR '' '' else c) # d, l))"
  by pat_completeness auto
termination by (relation "measure (\<lambda>(s, n). length s)") auto

declare url_decode_loop.simps [simp del]

definition url_decode :: "string \<Rightarrow> nat \<Rightarrow> string \<times> cint" where
  "url_decode src len =
     (let (d, l) = url_decode_loop src (len - 1)
      in (d, if l = 0 then SB_ETRUNCATED else SB_ESUCCESS))"

definition mem_case_prefix :: "string \<Rightarrow> string \<Rightarrow> bool" where
  "mem_case_prefix field str \<longleftrightarrow> prefix (map tolower field) (map tolower str)"

definition CRLF :: string where "CRLF = [CHR 0x0D, CHR 0x0A]"

definition header_value :: "string \<Rightarrow> string \<Rightarrow> string" where
  "header_value str field =
     (let s = drop (length field + 1) str in drop (strspn s ('' '' @ [CHR 0x09])) s)"

text \<open>The search moves to the next carriage return and skips a line end; a carriage return that
  is not part of a line end is never passed.\<close>

partial_function (option) find_header_value :: "string \<Rightarrow> string \<Rightarrow> string option option" where
  "find_header_value str field =
     (if str = [] \<or> prefix CRLF str then Some None
      else if mem_case_prefix field str \<and> length field < length str \<and> str ! length field = CHR '':''
      then Some (Some (header_value str field))
      else let s = drop (strcspn str [CHR 0x0D]) str;
               s = (if prefix CRLF s then drop 2 s else s)
           in find_header_value s field)"

definition var_stop :: string where
  "var_stop = ''& '' @ [CHR 0x09, CHR 0x0D, CHR 0x0A]"

lemma drop_Cons_length: "drop n s = c # t \<Longrightarrow> length t < length s"
  by (metis length_drop length_Cons diff_le_self le_imp_less_Suc less_Suc_eq_le Suc_le_lessD)

function find_var_value :: "string \<Rightarrow> string \<Rightarrow> string option" where
  "find_var_value str name =
     (if prefix name str \<and> length name < length str \<and> str ! length name = CHR ''=''
      then Some (drop (length name + 1) str)
      else case drop (strcspn str var_stop) str of
        [] \<Rightarrow> None
      | c # s \<Rightarrow> if c \<noteq> CHR ''&'' then None else find_var_value s name)"
  by pat_completeness auto

termination by (relation "measure (\<lambda>(s, n). length s)") (auto dest: drop_Cons_length)

declare find_var_value.simps [simp del]

section \<open>Buffers\<close>

text \<open>\<open>sb_s\<close> is the allocated memory, so its length is the capacity; \<open>sb_len\<close> is the part in use.\<close>

record sb_Buffer =
  sb_s :: "char list"
  sb_len :: nat

definition sb_buffer_init :: sb_Buffer where
  "sb_buffer_init = \<lparr>sb_s = [], sb_len = 0\<rparr>"

text \<open>\<open>se_junk\<close> is the content of freshly allocated memory.  A read or send returns its status,
  the bytes, and whether \<open>errno\<close> is \<open>EWOULDBLOCK\<close>.  \<open>se_now\<close> is the clock value of the server's
  last poll.\<close>

record 'w sb_env =
  se_malloc :: "'w \<Rightarrow> bool \<times> 'w"
  se_realloc :: "nat \<Rightarrow> 'w \<Rightarrow> bool \<times> 'w"
  se_junk :: "nat \<Rightarrow> 'w \<Rightarrow> char"
  se_recv :: "cint \<Rightarrow> nat \<Rightarrow> 'w \<Rightarrow> (int \<times> string \<times> bool) \<times> 'w"
  se_send :: "cint \<Rightarrow> string \<Rightarrow> 'w \<Rightarrow> (int \<times> bool) \<times> 'w"
  se_read :: "cint \<Rightarrow> nat \<Rightarrow> 'w \<Rightarrow> (int \<times> string) \<times> 'w"
  se_open :: "string \<Rightarrow> 'w \<Rightarrow> cint \<times> 'w"
  se_fstat :: "cint \<Rightarrow> 'w \<Rightarrow> (cint \<times> nat) \<times> 'w"
  se_shutdown :: "cint \<Rightarrow> 'w \<Rightarrow> 'w"
  se_close :: "cint \<Rightarrow> 'w \<Rightarrow> 'w"
  se_time :: "'w \<Rightarrow> u64"
  se_now :: "'w \<Rightarrow> u64"
  se_address :: "cint \<Rightarrow> 'w \<Rightarrow> string"

definition sb_buffer_shift :: "nat \<Rightarrow> sb_Buffer \<Rightarrow> sb_Buffer" where
  "sb_buffer_shift n b =
     (let len = sb_len b - n
      in b\<lparr>sb_len := len, sb_s := take len (drop n (sb_s b)) @ drop len (sb_s b)\<rparr>)"

definition sb_buffer_reserve :: "'w sb_env \<Rightarrow> nat \<Rightarrow> sb_Buffer \<Rightarrow> 'w \<Rightarrow> cint \<times> sb_Buffer \<times> 'w" where
  "sb_buffer_reserve E n b w =
     (if n \<le> length (sb_s b) then (SB_ESUCCESS, b, w)
      else case se_realloc E n w of
        (False, w) \<Rightarrow> (SB_EOUTOFMEM, b, w)
      | (True, w) \<Rightarrow>
          (SB_ESUCCESS, b\<lparr>sb_s := sb_s b @ map (\<lambda>i. se_junk E i w) [length (sb_s b)..<n]\<rparr>, w))"

definition sb_buffer_push_char ::
    "'w sb_env \<Rightarrow> char \<Rightarrow> sb_Buffer \<Rightarrow> 'w \<Rightarrow> (cint \<times> sb_Buffer \<times> 'w) option" where
  "sb_buffer_push_char E c b w =
     (case (if sb_len b = length (sb_s b)
            then sb_buffer_reserve E (if sb_s b = [] then 1 else 2 * length (sb_s b)) b w
            else (SB_ESUCCESS, b, w)) of
        (err, b, w) \<Rightarrow>
          if err \<noteq> 0 then Some (err, b, w)
          else do {
            m \<leftarrow> wr (sb_s b) (sb_len b) c;
            Some (SB_ESUCCESS, b\<lparr>sb_s := m, sb_len := sb_len b + 1\<rparr>, w) })"

text \<open>\<open>orig_len\<close> is the length to go back to when memory runs out.\<close>

fun push_str_loop ::
    "'w sb_env \<Rightarrow> string \<Rightarrow> nat \<Rightarrow> sb_Buffer \<Rightarrow> 'w \<Rightarrow> (cint \<times> sb_Buffer \<times> 'w) option" where
  "push_str_loop E [] orig_len b w = Some (SB_ESUCCESS, b, w)"
| "push_str_loop E (c # cs) orig_len b w = do {
     (err, b, w) \<leftarrow> sb_buffer_push_char E c b w;
     if err \<noteq> 0 then Some (err, b\<lparr>sb_len := orig_len\<rparr>, w) else push_str_loop E cs orig_len b w }"

definition sb_buffer_push_str ::
    "'w sb_env \<Rightarrow> string \<Rightarrow> sb_Buffer \<Rightarrow> 'w \<Rightarrow> (cint \<times> sb_Buffer \<times> 'w) option" where
  "sb_buffer_push_str E p b w = push_str_loop E p (sb_len b) b w"

definition sb_buffer_null_terminate ::
    "'w sb_env \<Rightarrow> sb_Buffer \<Rightarrow> 'w \<Rightarrow> (cint \<times> sb_Buffer \<times> 'w) option" where
  "sb_buffer_null_terminate E b w = do {
     (err, b, w) \<leftarrow> sb_buffer_push_char E NUL b w;
     if err \<noteq> 0 then Some (err, b, w) else Some (SB_ESUCCESS, b\<lparr>sb_len := sb_len b - 1\<rparr>, w) }"

section \<open>Formatted output\<close>

text \<open>The variable arguments.  The conversions that no caller uses (\<open>c\<close>, \<open>f\<close>, \<open>g\<close>, \<open>p\<close>, and flags
  other than a zero-padded width) are \<open>None\<close>, as are a wrong argument and an incomplete format.\<close>

datatype va_arg = VaStr "string option" | VaInt u32 | VaLong u64

definition pad_number :: "string \<Rightarrow> string \<Rightarrow> string option" where
  "pad_number flags txt =
     (if flags = [] then Some txt
      else if hd flags = CHR ''0'' \<and> (\<forall>c \<in> set flags. isdigit c)
      then Some (pad_left CHR ''0'' (digits_value 0 flags) txt) else None)"

definition show_number :: "char \<Rightarrow> string \<Rightarrow> int \<Rightarrow> nat \<Rightarrow> string option" where
  "show_number conv flags sv uv =
     (if conv \<in> {CHR ''d'', CHR ''i''} then (if flags = [] then Some (show_int sv) else None)
      else pad_number flags (if conv = CHR ''u'' then show_dec uv
                             else if conv = CHR ''x'' then show_hex uv else show_HEX uv))"

definition format_conv :: "string \<Rightarrow> bool \<Rightarrow> char \<Rightarrow> va_arg list \<Rightarrow> (string \<times> va_arg list) option" where
  "format_conv flags long_mode conv args =
     (if conv \<in> {CHR ''d'', CHR ''i'', CHR ''u'', CHR ''x'', CHR ''X''} then
        (case args of
           VaInt v # as \<Rightarrow>
             if long_mode then None
             else map_option (\<lambda>t. (t, as)) (show_number conv flags (sint v) (unat v))
         | VaLong v # as \<Rightarrow>
             if \<not> long_mode then None
             else map_option (\<lambda>t. (t, as)) (show_number conv flags (sint v) (unat v))
         | _ \<Rightarrow> None)
      else if conv \<in> {CHR ''c'', CHR ''f'', CHR ''g'', CHR ''p''} then None
      else Some ([conv], args))"

definition format_spec :: "string \<Rightarrow> va_arg list \<Rightarrow> (string \<times> string \<times> va_arg list) option" where
  "format_spec fmt args =
     (let flags = takeWhile (\<lambda>c. \<not> isalpha c \<and> c \<noteq> CHR ''%'') fmt;
          r = drop (length flags) fmt;
          ls = takeWhile (\<lambda>c. c = CHR ''l'') r
      in if 64 < length flags + length ls + 3 then None
         else case drop (length ls) r of
           [] \<Rightarrow> None
         | conv # rest \<Rightarrow> do {
             (txt, args) \<leftarrow> format_conv flags (ls \<noteq> []) conv args;
             if 512 \<le> length txt then None else Some (txt, rest, args) })"

lemma format_spec_shorter: "format_spec fmt args = Some (txt, rest, args') \<Longrightarrow> length rest < length fmt"
  by (auto simp: format_spec_def Let_def bind_eq_Some_conv split: if_splits list.splits
      dest!: drop_Cons_length)

text \<open>\<open>Break\<close> with an error restores the length the buffer had at the start.\<close>

function vwritef_loop ::
    "'w sb_env \<Rightarrow> nat \<Rightarrow> string \<Rightarrow> va_arg list \<Rightarrow> sb_Buffer \<Rightarrow> 'w \<Rightarrow> (cint \<times> sb_Buffer \<times> 'w) option" where
  "vwritef_loop E orig_len fmt args b w =
     (case fmt of
        [] \<Rightarrow> Some (SB_ESUCCESS, b, w)
      | c # cs \<Rightarrow>
          if c \<noteq> CHR ''%'' then do {
            (err, b, w) \<leftarrow> sb_buffer_push_char E c b w;
            if err \<noteq> 0 then Some (err, b\<lparr>sb_len := orig_len\<rparr>, w)
            else vwritef_loop E orig_len cs args b w }
          else if cs \<noteq> [] \<and> hd cs = CHR ''s'' then
            (case args of
               VaStr s # as \<Rightarrow> do {
                 (err, b, w) \<leftarrow> sb_buffer_push_str E (case s of None \<Rightarrow> ''(null)'' | Some s \<Rightarrow> s) b w;
                 if err \<noteq> 0 then Some (err, b\<lparr>sb_len := orig_len\<rparr>, w)
                 else vwritef_loop E orig_len (tl cs) as b w }
             | _ \<Rightarrow> None)
          else
            (case format_spec cs args of
               None \<Rightarrow> None
             | Some (txt, rest, as) \<Rightarrow> do {
                 (err, b, w) \<leftarrow> sb_buffer_push_str E txt b w;
                 if err \<noteq> 0 then Some (err, b\<lparr>sb_len := orig_len\<rparr>, w)
                 else vwritef_loop E orig_len rest as b w }))"
  by pat_completeness auto
termination
  by (relation "measure (\<lambda>(E, n, fmt, a, b, w). length fmt)")
    (auto dest: format_spec_shorter simp: less_Suc_eq intro: less_SucI)

declare vwritef_loop.simps [simp del]

definition sb_buffer_vwritef ::
    "'w sb_env \<Rightarrow> string \<Rightarrow> va_arg list \<Rightarrow> sb_Buffer \<Rightarrow> 'w \<Rightarrow> (cint \<times> sb_Buffer \<times> 'w) option" where
  "sb_buffer_vwritef E fmt args b w = vwritef_loop E (sb_len b) fmt args b w"

section \<open>Streams\<close>

record sb_Stream =
  st_state :: stream_state
  st_address :: string
  st_init_time :: u64
  st_last_activity :: u64
  st_expected_recv_len :: nat
  st_data_idx :: nat
  st_sockfd :: cint
  st_recv_buf :: sb_Buffer
  st_send_buf :: sb_Buffer
  st_send_fd :: cint

definition sb_stream_close :: "sb_Stream \<Rightarrow> sb_Stream" where
  "sb_stream_close st = st\<lparr>st_state := CLOSING\<rparr>"

text \<open>A response function changes the stream and returns a code.\<close>

type_synonym 'w stream_op = "sb_Stream \<Rightarrow> 'w \<Rightarrow> (cint \<times> sb_Stream \<times> 'w) option"

definition send_writef :: "'w sb_env \<Rightarrow> string \<Rightarrow> va_arg list \<Rightarrow> 'w stream_op" where
  "send_writef E fmt args st w = do {
     (err, b, w) \<leftarrow> sb_buffer_vwritef E fmt args (st_send_buf st) w;
     Some (err, st\<lparr>st_send_buf := b\<rparr>, w) }"

definition send_push :: "'w sb_env \<Rightarrow> string \<Rightarrow> 'w stream_op" where
  "send_push E p st w = do {
     (err, b, w) \<leftarrow> sb_buffer_push_str E p (st_send_buf st) w;
     Some (err, st\<lparr>st_send_buf := b\<rparr>, w) }"

definition sb_send_status :: "'w sb_env \<Rightarrow> cint \<Rightarrow> string \<Rightarrow> 'w stream_op" where
  "sb_send_status E code msg st w =
     (if st_state st \<noteq> SENDING_STATUS then Some (SB_EBADSTATE, st, w)
      else do {
        (err, st, w) \<leftarrow> send_writef E (''HTTP/1.1 %d %s'' @ CRLF) [VaInt code, VaStr (Some msg)] st w;
        if err \<noteq> 0 then Some (err, st, w)
        else Some (SB_ESUCCESS, st\<lparr>st_state := SENDING_HEADER\<rparr>, w) })"

definition sb_stream_finalize_header :: "'w sb_env \<Rightarrow> 'w stream_op" where
  "sb_stream_finalize_header E st w = do {
     (err, st, w) \<leftarrow> (if st_state st < SENDING_HEADER then sb_send_status E 200 ''OK'' st w
                     else Some (SB_ESUCCESS, st, w));
     if err \<noteq> 0 then Some (err, st, w)
     else do {
       (err, st, w) \<leftarrow> send_push E CRLF st w;
       if err \<noteq> 0 then Some (err, st, w)
       else Some (SB_ESUCCESS, st\<lparr>st_state := SENDING_DATA\<rparr>, w) } }"

definition sb_send_header :: "'w sb_env \<Rightarrow> string \<Rightarrow> string \<Rightarrow> 'w stream_op" where
  "sb_send_header E field val st w =
     (if SENDING_HEADER < st_state st then Some (SB_EBADSTATE, st, w)
      else do {
        (err, st, w) \<leftarrow> (if st_state st < SENDING_HEADER then sb_send_status E 200 ''OK'' st w
                        else Some (SB_ESUCCESS, st, w));
        if err \<noteq> 0 then Some (err, st, w)
        else send_writef E (''%s: %s'' @ CRLF) [VaStr (Some field), VaStr (Some val)] st w })"

definition sb_send_file :: "'w sb_env \<Rightarrow> string \<Rightarrow> 'w stream_op" where
  "sb_send_file E filename st w =
     (if SENDING_HEADER < st_state st then Some (SB_EBADSTATE, st, w)
      else case se_open E filename w of (fd, w) \<Rightarrow>
        if sint fd \<le> 0 then Some (SB_ECANTOPEN, st, w)
        else case se_fstat E fd w of ((r, fsz), w) \<Rightarrow>
          if sint r < 0 then Some (SB_EBADRESULT, st, se_close E fd w)
          else do {
            (err, st, w) \<leftarrow> sb_send_header E ''Content-Length'' (trunc_cpy 32 (show_dec fsz)) st w;
            if err \<noteq> 0 then Some (err, st, se_close E fd w)
            else do {
              (err, st, w) \<leftarrow> sb_stream_finalize_header E st w;
              if err \<noteq> 0 then Some (err, st, se_close E fd w)
              else Some (SB_ESUCCESS, st\<lparr>st_send_fd := fd, st_state := SENDING_FILE\<rparr>, w) } })"

definition sb_write :: "'w sb_env \<Rightarrow> string \<Rightarrow> 'w stream_op" where
  "sb_write E data st w = do {
     (err, st, w) \<leftarrow> (if st_state st < SENDING_DATA then sb_stream_finalize_header E st w
                     else Some (SB_ESUCCESS, st, w));
     if err \<noteq> 0 then Some (err, st, w)
     else if st_state st \<noteq> SENDING_DATA then Some (SB_EBADSTATE, st, w)
     else send_push E data st w }"

definition sb_writef :: "'w sb_env \<Rightarrow> string \<Rightarrow> va_arg list \<Rightarrow> 'w stream_op" where
  "sb_writef E fmt args st w = do {
     (err, st, w) \<leftarrow> (if st_state st < SENDING_DATA then sb_stream_finalize_header E st w
                     else Some (SB_ESUCCESS, st, w));
     if err \<noteq> 0 then Some (err, st, w)
     else if st_state st \<noteq> SENDING_DATA then Some (SB_EBADSTATE, st, w)
     else send_writef E fmt args st w }"

section \<open>Reading a request\<close>

text \<open>The text of the request; \<open>None\<close> if no terminator was stored.\<close>

definition recv_text :: "sb_Stream \<Rightarrow> nat \<Rightarrow> string option" where
  "recv_text st i = cstr_at (sb_s (st_recv_buf st)) i"

text \<open>Without a carriage return after the value the length is the difference of a null pointer.\<close>

definition sb_get_header :: "sb_Stream \<Rightarrow> string \<Rightarrow> nat \<Rightarrow> (string \<times> cint) option" where
  "sb_get_header st field len = do {
     str \<leftarrow> recv_text st 0;
     v \<leftarrow> find_header_value str field;
     case v of
       None \<Rightarrow> Some ([], SB_ENOTFOUND)
     | Some s \<Rightarrow>
         (case strchr s CHR 0x0D of
            None \<Rightarrow> None
          | Some n \<Rightarrow>
              let trail = takeWhile (\<lambda>c. c = CHR '' '' \<or> c = CHR 0x09) (rev (drop 1 (take n s)));
                  n = n - length trail
              in if len - 1 < n then Some (take (len - 1) s, SB_ETRUNCATED)
                 else Some (take n s, SB_ESUCCESS)) }"

definition sb_get_var_ex :: "sb_Stream \<Rightarrow> string \<Rightarrow> nat \<Rightarrow> bool \<Rightarrow> (string \<times> cint) option" where
  "sb_get_var_ex st name len from_data_only = do {
     str \<leftarrow> recv_text st 0;
     let q = (if from_data_only then None
              else case drop (strcspn str (''?'' @ [CHR 0x0D])) str of
                [] \<Rightarrow> None | c # q \<Rightarrow> if c = CHR ''?'' then Some q else None);
     let s = (case q of None \<Rightarrow> None | Some q \<Rightarrow> find_var_value q name);
     s \<leftarrow> (if s = None \<and> st_data_idx st \<noteq> 0
          then map_option (\<lambda>d. find_var_value d name) (recv_text st (st_data_idx st))
          else Some s);
     case s of None \<Rightarrow> Some ([], SB_ENOTFOUND) | Some s \<Rightarrow> Some (url_decode s len) }"

definition sb_get_var :: "sb_Stream \<Rightarrow> string \<Rightarrow> nat \<Rightarrow> (string \<times> cint) option" where
  "sb_get_var st name len = sb_get_var_ex st name len False"

section \<open>Receiving\<close>

datatype sb_event = EV_CONNECT | EV_CLOSE | EV_REQUEST string string

type_synonym 'w sb_handler = "sb_event \<Rightarrow> 'w stream_op"

definition sb_stream_emit :: "'w sb_handler \<Rightarrow> sb_event \<Rightarrow> 'w stream_op" where
  "sb_stream_emit h e st w = do {
     (res, st, w) \<leftarrow> h e st w;
     if sint res < 0 then Some (res, st, w)
     else if res = SB_RES_CLOSE then Some (SB_ESUCCESS, sb_stream_close st, w)
     else if res = SB_RES_OK then Some (SB_ESUCCESS, st, w)
     else Some (SB_EBADRESULT, st, w) }"

text \<open>\<open>sscanf\<close> with \<open>%15s %n%*s %15s\<close>: the method, the position of the target and the version, if
  both strings were read.\<close>

definition word_of_text :: "string \<Rightarrow> string" where
  "word_of_text s = takeWhile (\<lambda>c. \<not> isspace c) s"

definition scan_request :: "string \<Rightarrow> (string \<times> nat \<times> string) option" where
  "scan_request s =
     (let s1 = dropWhile isspace s;
          meth = take 15 (word_of_text s1);
          s2 = dropWhile isspace (drop (length meth) s1);
          target = word_of_text s2;
          ver = take 15 (word_of_text (dropWhile isspace (drop (length target) s2)))
      in if meth = [] \<or> target = [] \<or> ver = [] then None
         else Some (meth, length s - length s2, ver))"

definition PATH_SIZE :: nat where "PATH_SIZE = 512"

definition handle_request :: "'w sb_env \<Rightarrow> 'w sb_handler \<Rightarrow> 'w stream_op" where
  "handle_request E h st w = do {
     let st = st\<lparr>st_state := SENDING_STATUS\<rparr>;
     (err, b, w) \<leftarrow> sb_buffer_null_terminate E (st_recv_buf st) w;
     let st = st\<lparr>st_recv_buf := b\<rparr>;
     if err \<noteq> 0 then Some (err, st, w)
     else do {
       text \<leftarrow> recv_text st 0;
       case scan_request text of
         None \<Rightarrow> Some (SB_ESUCCESS, sb_stream_close st, w)
       | Some (meth, path_idx, ver) \<Rightarrow>
           if \<not> prefix ''HTTP'' ver then Some (SB_ESUCCESS, sb_stream_close st, w)
           else do {
             let path = cstr_of (fst (url_decode (drop path_idx text) PATH_SIZE));
             (err, st, w) \<leftarrow> sb_stream_emit h (EV_REQUEST meth path) st w;
             if err \<noteq> 0 then Some (err, sb_stream_close st, w) else Some (SB_ESUCCESS, st, w) } } }"

text \<open>A received byte either leaves the loop going or makes the function return.\<close>

datatype recv_step = RGo | RRet cint

definition header_complete :: "sb_Stream \<Rightarrow> bool" where
  "header_complete st \<longleftrightarrow>
     (let b = st_recv_buf st in
      st_state st = RECEIVING_HEADER \<and> 4 \<le> sb_len b
        \<and> take 4 (drop (sb_len b - 4) (sb_s b)) = CRLF @ CRLF)"

definition recv_byte ::
    "'w sb_env \<Rightarrow> 'w sb_handler \<Rightarrow> char \<Rightarrow> sb_Stream \<Rightarrow> 'w \<Rightarrow> (recv_step \<times> sb_Stream \<times> 'w) option" where
  "recv_byte E h c st w = do {
     (err, b, w) \<leftarrow> sb_buffer_push_char E c (st_recv_buf st) w;
     let st = st\<lparr>st_recv_buf := b\<rparr>;
     if err \<noteq> 0 then Some (RRet err, sb_stream_close st, w)
     else do {
       (now, err, st, w) \<leftarrow>
         (if \<not> header_complete st then Some (False, SB_ESUCCESS, st, w)
          else do {
            let st = st\<lparr>st_state := RECEIVING_REQUEST\<rparr>;
            (err, b, w) \<leftarrow> sb_buffer_null_terminate E (st_recv_buf st) w;
            let st = st\<lparr>st_recv_buf := b\<rparr>;
            if err \<noteq> 0 then Some (False, err, sb_stream_close st, w)
            else do {
              text \<leftarrow> recv_text st 0;
              s \<leftarrow> find_header_value text ''Content-Length'';
              if s = None then Some (True, SB_ESUCCESS, st, w)
              else Some (False, SB_ESUCCESS,
                         st\<lparr>st_expected_recv_len := sb_len b + str_to_uint s, st_data_idx := sb_len b\<rparr>, w) } });
       if err \<noteq> 0 then Some (RRet err, st, w)
       else if now \<or> st_expected_recv_len st = sb_len (st_recv_buf st) then do {
         (err, st, w) \<leftarrow> handle_request E h st w;
         Some (RRet err, st, w) }
       else Some (RGo, st, w) } }"

fun recv_bytes ::
    "'w sb_env \<Rightarrow> 'w sb_handler \<Rightarrow> string \<Rightarrow> sb_Stream \<Rightarrow> 'w \<Rightarrow> (recv_step \<times> sb_Stream \<times> 'w) option" where
  "recv_bytes E h [] st w = Some (RGo, st, w)"
| "recv_bytes E h (c # cs) st w = do {
     (r, st, w) \<leftarrow> recv_byte E h c st w;
     case r of RGo \<Rightarrow> recv_bytes E h cs st w | RRet err \<Rightarrow> Some (RRet err, st, w) }"

definition RECV_SIZE :: nat where "RECV_SIZE = 4096 - 1"

partial_function (option) sb_stream_recv ::
    "'w sb_env \<Rightarrow> 'w sb_handler \<Rightarrow> sb_Stream \<Rightarrow> 'w \<Rightarrow> (cint \<times> sb_Stream \<times> 'w) option" where
  "sb_stream_recv E h st w =
     (case se_recv E (st_sockfd st) RECV_SIZE w of ((sz, bs, wouldblock), w) \<Rightarrow>
        if sz \<le> 0 then
          Some (SB_ESUCCESS, if sz = 0 \<or> \<not> wouldblock then sb_stream_close st else st, w)
        else if int (length bs) \<noteq> sz \<or> RECV_SIZE < length bs then None
        else do {
          let st = st\<lparr>st_last_activity := se_now E w\<rparr>;
          (r, st, w) \<leftarrow> recv_bytes E h bs st w;
          case r of RGo \<Rightarrow> sb_stream_recv E h st w | RRet err \<Rightarrow> Some (err, st, w) })"

section \<open>Sending\<close>

text \<open>Sending more than the allocated bytes reads outside the buffer.\<close>

definition send_data :: "'w sb_env \<Rightarrow> 'w stream_op" where
  "send_data E st w =
     (let b = st_send_buf st in
      if length (sb_s b) < sb_len b then None
      else case se_send E (st_sockfd st) (take (sb_len b) (sb_s b)) w of ((sz, wouldblock), w) \<Rightarrow>
        if sz \<le> 0 then
          Some (SB_ESUCCESS, if \<not> wouldblock then sb_stream_close st else st, w)
        else if int (sb_len b) < sz then None
        else Some (SB_ESUCCESS, st\<lparr>st_send_buf := sb_buffer_shift (nat sz) b,
                                   st_last_activity := se_now E w\<rparr>, w))"

text \<open>The result of \<open>read\<close> is stored in a \<open>size_t\<close>: a failure becomes the largest size.\<close>

definition sb_stream_send :: "'w sb_env \<Rightarrow> 'w stream_op" where
  "sb_stream_send E st w =
     (if 0 < sb_len (st_send_buf st) then send_data E st w
      else if 0 < sint (st_send_fd st) then
        (case sb_buffer_reserve E 8192 (st_send_buf st) w of (err, b, w) \<Rightarrow>
           if err \<noteq> 0 then Some (err, st\<lparr>st_send_buf := b\<rparr>, w)
           else case se_read E (st_send_fd st) (length (sb_s b)) w of ((n, bs), w) \<Rightarrow>
             if 0 \<le> n \<and> (int (length bs) \<noteq> n \<or> length (sb_s b) < length bs) then None
             else
               let len = (if n < 0 then 2 ^ 64 - 1 else nat n);
                   b = b\<lparr>sb_len := len, sb_s := (if n < 0 then sb_s b else bs @ drop (length bs) (sb_s b))\<rparr>;
                   st = st\<lparr>st_send_buf := b\<rparr>
               in if 0 < len then send_data E st w
                  else Some (SB_ESUCCESS, st\<lparr>st_send_fd := -1\<rparr>, se_close E (st_send_fd st) w))
      else Some (SB_ESUCCESS, sb_stream_close st, w))"

text \<open>The thread of a connection, up to the point where the stream is unlinked.\<close>

partial_function (option) send_loop ::
    "'w sb_env \<Rightarrow> sb_Stream \<Rightarrow> 'w \<Rightarrow> (sb_Stream \<times> 'w) option" where
  "send_loop E st w =
     (if st_state st = CLOSING then Some (st, w)
      else do {
        (err, st, w) \<leftarrow> sb_stream_send E st w;
        if err \<noteq> 0 then Some (st, w) else send_loop E st w })"

definition sb_stream_destroy :: "'w sb_env \<Rightarrow> 'w sb_handler \<Rightarrow> sb_Stream \<Rightarrow> 'w \<Rightarrow> 'w option" where
  "sb_stream_destroy E h st w = do {
     (res, st, w) \<leftarrow> sb_stream_emit h EV_CLOSE st w;
     let w = se_close E (st_sockfd st) (se_shutdown E (st_sockfd st) w);
     Some (if 0 < sint (st_send_fd st)
           then se_close E (st_send_fd st) (se_shutdown E (st_send_fd st) w) else w) }"

definition conn_thread :: "'w sb_env \<Rightarrow> 'w sb_handler \<Rightarrow> sb_Stream \<Rightarrow> 'w \<Rightarrow> 'w option" where
  "conn_thread E h st w = do {
     (err, st, w) \<leftarrow> sb_stream_emit h EV_CONNECT st w;
     (st, w) \<leftarrow> (if err \<noteq> 0 then Some (st, w)
       else do {
         (err, st, w) \<leftarrow> sb_stream_recv E h st w;
         if err \<noteq> 0 then Some (st, w) else send_loop E st w });
     sb_stream_destroy E h st w }"

definition sb_stream_new :: "'w sb_env \<Rightarrow> cint \<Rightarrow> 'w \<Rightarrow> sb_Stream option \<times> 'w" where
  "sb_stream_new E sockfd w =
     (case se_malloc E w of
        (False, w) \<Rightarrow> (None, w)
      | (True, w) \<Rightarrow>
          (Some \<lparr>st_state = RECEIVING_HEADER, st_address = se_address E sockfd w, st_init_time = se_time E w,
                 st_last_activity = se_now E w, st_expected_recv_len = 0, st_data_idx = 0,
                 st_sockfd = sockfd, st_recv_buf = sb_buffer_init, st_send_buf = sb_buffer_init,
                 st_send_fd = 0\<rparr>, w))"

end
