(* ===== verification/Response.thy ===== *)
theory Response
  imports Sandbird
begin

text \<open>
  Buffers and responses of sandbird.c.  What a buffer holds is the abstract value of the
  growing array: pushing appends to it or leaves it alone.  The response functions are a step
  relation on streams; over every sequence of them the bytes to be sent stay one well-formed
  response.
\<close>

section \<open>What a buffer holds\<close>

definition sb_content :: "sb_Buffer \<Rightarrow> string" where
  "sb_content b = take (sb_len b) (sb_s b)"

definition sb_wf :: "sb_Buffer \<Rightarrow> bool" where
  "sb_wf b \<longleftrightarrow> sb_len b \<le> length (sb_s b)"

lemma sb_wf_init [simp]: "sb_wf sb_buffer_init" "sb_content sb_buffer_init = []"
  by (simp_all add: sb_wf_def sb_content_def sb_buffer_init_def)

lemma length_sb_content: "sb_wf b \<Longrightarrow> length (sb_content b) = sb_len b"
  by (simp add: sb_wf_def sb_content_def)

text \<open>The result of a push: appended, or out of memory and unchanged.\<close>

definition appended :: "string \<Rightarrow> string \<Rightarrow> cint \<times> sb_Buffer \<times> 'w \<Rightarrow> bool" where
  "appended old new r \<longleftrightarrow> (case r of (err, b, w) \<Rightarrow>
     sb_wf b \<and> (if err = 0 then sb_content b = new else err = SB_EOUTOFMEM \<and> sb_content b = old))"

lemma appended_simp [run_simps]:
  "appended old new (err, b, w) \<longleftrightarrow>
     sb_wf b \<and> (if err = 0 then sb_content b = new else err = SB_EOUTOFMEM \<and> sb_content b = old)"
  by (simp add: appended_def)

lemma cut_content:
  assumes "sb_wf b'" and "n \<le> sb_len b" and "sb_len b' = sb_len b" and "sb_content b' = sb_content b"
  shows "sb_wf (b'\<lparr>sb_len := n\<rparr>)" "sb_content (b'\<lparr>sb_len := n\<rparr>) = take n (sb_content b)"
proof -
  show "sb_wf (b'\<lparr>sb_len := n\<rparr>)" using assms by (simp add: sb_wf_def)
  have "take n (sb_content b) = take n (sb_content b')" using assms by simp
  then show "sb_content (b'\<lparr>sb_len := n\<rparr>) = take n (sb_content b)"
    using assms(2,3) by (simp add: sb_content_def min_absorb1)
qed

lemma reserve_keeps:
  assumes "sb_wf b" and "sb_buffer_reserve E n b w = (err, b', w')"
  shows "appended (sb_content b) (sb_content b) (err, b', w') \<and> (err = 0 \<longrightarrow> n \<le> length (sb_s b'))
    \<and> sb_len b' = sb_len b"
  using assms by (auto simp: sb_buffer_reserve_def appended_def sb_wf_def sb_content_def sb_codes
      split: if_splits bool.splits prod.splits)

lemma push_char_run:
  assumes "sb_wf b"
  shows "run (sb_buffer_push_char E c b w) (appended (sb_content b) (sb_content b @ [c]))"
proof -
  let ?n = "if sb_s b = [] then 1 else 2 * length (sb_s b)"
  obtain err b1 w1 where r: "(if sb_len b = length (sb_s b) then sb_buffer_reserve E ?n b w
      else (SB_ESUCCESS, b, w)) = (err, b1, w1)" by (metis prod_cases3)
  have keep: "appended (sb_content b) (sb_content b) (err, b1, w1)" "sb_len b1 = sb_len b"
    using r reserve_keeps [OF assms, of E ?n w err b1 w1] assms
    by (auto simp: appended_def sb_codes split: if_splits)
  have room: "err = 0 \<Longrightarrow> sb_len b1 < length (sb_s b1)"
    using r reserve_keeps [OF assms, of E ?n w err b1 w1] assms length_greater_0_conv [of "sb_s b"]
    by (auto simp: sb_wf_def simp del: length_greater_0_conv split: if_splits)
  have store: "take (Suc n) (m[n := c]) = take n m @ [c]" if "n < length m" for n and m :: string
    using that by (simp add: take_Suc_conv_app_nth)
  show ?thesis unfolding sb_buffer_push_char_def r prod.case using keep room
    by (auto simp: run_simps sb_codes sb_content_def sb_wf_def store)
qed

lemma push_str_loop_run:
  assumes "sb_wf b" and "n \<le> sb_len b"
  shows "run (push_str_loop E p n b w) (appended (take n (sb_content b)) (sb_content b @ p))"
  using assms
proof (induction p arbitrary: b w)
  case Nil
  then show ?case by (simp add: run_simps sb_codes)
next
  case (Cons c cs)
  show ?case unfolding push_str_loop.simps run_bind
  proof (rule run_mono [OF push_char_run [OF Cons.prems(1)]], clarify)
    fix err b' w'
    assume a: "appended (sb_content b) (sb_content b @ [c]) (err, b', w' :: 'a)"
    show "run (if err \<noteq> 0 then Some (err, b'\<lparr>sb_len := n\<rparr>, w') else push_str_loop E cs n b' w')
        (appended (take n (sb_content b)) (sb_content b @ c # cs))"
    proof (cases "err = 0")
      case False
      with a Cons.prems have "sb_len b' = sb_len b"
        using length_sb_content [of b] length_sb_content [of b'] by (auto simp: appended_def)
      with False a Cons.prems show ?thesis
        by (auto simp: run_simps cut_content)
    next
      case True
      with a Cons.prems have l: "sb_len b' = Suc (sb_len b)" "sb_wf b'"
        using length_sb_content [of b] length_sb_content [of b'] by (auto simp: appended_def)
      from a True have c: "sb_content b' = sb_content b @ [c]" by (simp add: appended_def)
      from Cons.IH [of b' w'] l Cons.prems show ?thesis
        by (simp add: True c length_sb_content)
    qed
  qed
qed

lemma push_str_run:
  "sb_wf b \<Longrightarrow> run (sb_buffer_push_str E p b w) (appended (sb_content b) (sb_content b @ p))"
  using push_str_loop_run [of b "sb_len b" E p w] by (simp add: sb_buffer_push_str_def sb_content_def)

section \<open>What a format renders\<close>

function render :: "string \<Rightarrow> va_arg list \<Rightarrow> string option" where
  "render fmt args =
     (case fmt of
        [] \<Rightarrow> Some []
      | c # cs \<Rightarrow>
          if c \<noteq> CHR ''%'' then map_option ((#) c) (render cs args)
          else if cs \<noteq> [] \<and> hd cs = CHR ''s'' then
            (case args of
               VaStr s # as \<Rightarrow>
                 map_option ((@) (case s of None \<Rightarrow> ''(null)'' | Some s \<Rightarrow> s)) (render (tl cs) as)
             | _ \<Rightarrow> None)
          else (case format_spec cs args of
                  None \<Rightarrow> None
                | Some (txt, rest, as) \<Rightarrow> map_option ((@) txt) (render rest as)))"
  by pat_completeness auto
termination
  by (relation "measure (\<lambda>(fmt, a). length fmt)")
    (auto dest: format_spec_shorter simp: less_Suc_eq intro: less_SucI)

declare render.simps [simp del]

text \<open>One piece of the output after another.\<close>

lemma vwritef_piece:
  assumes p: "run p (appended (sb_content b) (sb_content b @ x))"
    and b: "sb_wf b" "n \<le> sb_len b" "take n (sb_content b) = old"
    and k: "\<And>b' w'. sb_wf b' \<Longrightarrow> n \<le> sb_len b' \<Longrightarrow> take n (sb_content b') = old
        \<Longrightarrow> run (f b' w') (appended old (sb_content b' @ y))"
  shows "run (p \<bind> (\<lambda>(err, b, w). if err \<noteq> 0 then Some (err, b\<lparr>sb_len := n\<rparr>, w) else f b w))
    (appended old (sb_content b @ x @ y))"
  unfolding run_bind
proof (rule run_mono [OF p], clarify)
  fix err b' and w' :: 'a
  assume a: "appended (sb_content b) (sb_content b @ x) (err, b', w')"
  show "run (if err \<noteq> 0 then Some (err, b'\<lparr>sb_len := n\<rparr>, w') else f b' w')
    (appended old (sb_content b @ x @ y))"
  proof (cases "err = 0")
    case False
    with a b have "sb_len b' = sb_len b"
      using length_sb_content [of b] length_sb_content [of b'] by (auto simp: appended_def)
    with False a b show ?thesis
      by (auto simp: run_simps cut_content)
  next
    case True
    with a have w: "sb_wf b'" and c: "sb_content b' = sb_content b @ x" by (auto simp: appended_def)
    have "sb_len b' = sb_len b + length x"
      using c length_sb_content [OF w] length_sb_content [OF b(1)] by (metis length_append)
    moreover have "take n (sb_content b') = old"
      using c b by (auto simp: length_sb_content)
    ultimately show ?thesis using k [of b' w'] w b(2) True by (simp add: c)
  qed
qed

lemma vwritef_loop_run:
  assumes "render fmt args = Some out" and "sb_wf b" and "n \<le> sb_len b"
    and "take n (sb_content b) = old"
  shows "run (vwritef_loop E n fmt args b w) (appended old (sb_content b @ out))"
  using assms
proof (induction "length fmt" arbitrary: fmt args out b w rule: less_induct)
  case less
  note r = less.prems(1) [unfolded render.simps [of fmt]] and P = less.prems(2-4)
  show ?case
  proof (cases fmt)
    case Nil
    with r less.prems(2-4) show ?thesis
      by (subst vwritef_loop.simps) (simp add: run_simps sb_codes)
  next
    case (Cons c cs)
    consider (plain) "c \<noteq> CHR ''%''" | (str) "c = CHR ''%''" "cs \<noteq> [] \<and> hd cs = CHR ''s''"
      | (spec) "c = CHR ''%''" "\<not> (cs \<noteq> [] \<and> hd cs = CHR ''s'')" by blast
    then show ?thesis
    proof cases
      case plain
      with r Cons obtain t where t: "render cs args = Some t" "out = [c] @ t" by auto
      show ?thesis unfolding t(2) Cons vwritef_loop.simps [of E n "c # cs"] list.case if_P [OF plain]
        by (rule vwritef_piece [OF push_char_run [OF P(1)] P less.hyps])
          (use t Cons in simp_all)
    next
      case str
      note r' = r [unfolded Cons list.case if_not_P [OF not_not [THEN iffD2, OF str(1)]] if_P [OF str(2)]]
      then obtain s rs where a: "args = VaStr s # rs" by (auto split: list.splits va_arg.splits)
      with r' obtain t where t: "render (tl cs) rs = Some t"
        "out = (case s of None \<Rightarrow> ''(null)'' | Some s \<Rightarrow> s) @ t" by auto
      have l: "length (tl cs) < length fmt" using Cons by (cases cs) auto
      show ?thesis
        unfolding t(2) Cons vwritef_loop.simps [of E n "c # cs"] list.case a va_arg.case
          if_not_P [OF not_not [THEN iffD2, OF str(1)]] if_P [OF str(2)]
        by (rule vwritef_piece [OF push_str_run [OF P(1)] P less.hyps [OF l t(1)]])
    next
      case spec
      note r' = r [unfolded Cons list.case if_not_P [OF not_not [THEN iffD2, OF spec(1)]] if_not_P [OF spec(2)]]
      then obtain x rest rs where f: "format_spec cs args = Some (x, rest, rs)"
        by (auto split: option.splits)
      with r' obtain t where t: "render rest rs = Some t" "out = x @ t" by auto
      have l: "length rest < length fmt" using format_spec_shorter [OF f] Cons by simp
      show ?thesis
        unfolding t(2) Cons vwritef_loop.simps [of E n "c # cs"] list.case f option.case prod.case
          if_not_P [OF not_not [THEN iffD2, OF spec(1)]] if_not_P [OF spec(2)]
        by (rule vwritef_piece [OF push_str_run [OF P(1)] P less.hyps [OF l t(1)]])
    qed
  qed
qed

lemma vwritef_run:
  assumes "render fmt args = Some out" and "sb_wf b"
  shows "run (sb_buffer_vwritef E fmt args b w) (appended (sb_content b) (sb_content b @ out))"
  using vwritef_loop_run [OF assms, of "sb_len b" "sb_content b" E w] assms(2)
  by (simp add: sb_buffer_vwritef_def sb_content_def)

section \<open>Responses\<close>

text \<open>The abstract value of what has been sent to a client.\<close>

datatype reply =
  Unsent
| Heading cint string "(string \<times> string) list"
| Body cint string "(string \<times> string) list" string
| Attached cint string "(string \<times> string) list"

definition status_line :: "cint \<Rightarrow> string \<Rightarrow> string" where
  "status_line code msg = ''HTTP/1.1 '' @ show_int (sint code) @ '' '' @ msg @ CRLF"

definition header_lines :: "(string \<times> string) list \<Rightarrow> string" where
  "header_lines hs = concat (map (\<lambda>(f, v). f @ '': '' @ v @ CRLF) hs)"

fun reply_text :: "reply \<Rightarrow> string" where
  "reply_text Unsent = []"
| "reply_text (Heading code msg hs) = status_line code msg @ header_lines hs"
| "reply_text (Body code msg hs body) = status_line code msg @ header_lines hs @ CRLF @ body"
| "reply_text (Attached code msg hs) = status_line code msg @ header_lines hs @ CRLF"

text \<open>A response is written front to back: one status line, headers, the empty line, and the
  body, which is text or the content of a file.\<close>

inductive advances :: "reply \<Rightarrow> reply \<Rightarrow> bool" where
  status: "advances Unsent (Heading code msg [])"
| header: "advances (Heading code msg hs) (Heading code msg (hs @ [(f, v)]))"
| finish: "advances (Heading code msg hs) (Body code msg hs [])"
| attach: "advances (Heading code msg hs) (Attached code msg hs)"
| body: "advances (Body code msg hs b) (Body code msg hs (b @ t))"

inductive_cases advances_bodyE: "advances (Body code msg hs b) r"
inductive_cases advances_headingE: "advances (Heading code msg hs) r"

abbreviation follows :: "reply \<Rightarrow> reply \<Rightarrow> bool" where
  "follows r r' \<equiv> advances\<^sup>*\<^sup>* r r'"

lemma follows_step [intro]: "follows a b \<Longrightarrow> advances b c \<Longrightarrow> follows a c"
  by (rule rtranclp.rtrancl_into_rtrancl)

lemma follows_trans: "follows a b \<Longrightarrow> follows b c \<Longrightarrow> follows a c"
  by (rule rtranclp_trans)

lemma follows_prefix: "follows r r' \<Longrightarrow> prefix (reply_text r) (reply_text r')"
proof (induction rule: rtranclp_induct)
  case (step y z)
  from step.hyps(2) have "prefix (reply_text y) (reply_text z)"
    by (cases rule: advances.cases) (simp_all add: header_lines_def)
  with step.IH show ?case by (rule prefix_order.trans)
qed simp

text \<open>The status line that was sent first stays.\<close>

fun sent_status :: "reply \<Rightarrow> (cint \<times> string) option" where
  "sent_status Unsent = None"
| "sent_status (Heading code msg hs) = Some (code, msg)"
| "sent_status (Body code msg hs b) = Some (code, msg)"
| "sent_status (Attached code msg hs) = Some (code, msg)"

lemma follows_status: "follows r r' \<Longrightarrow> sent_status r = Some s \<Longrightarrow> sent_status r' = Some s"
proof (induction rule: rtranclp_induct)
  case (step y z)
  from step.hyps(2) step.IH step.prems show ?case by (cases rule: advances.cases) auto
qed

fun reply_status :: "cint \<Rightarrow> string \<Rightarrow> reply \<Rightarrow> reply" where
  "reply_status code msg Unsent = Heading code msg []"
| "reply_status code msg r = r"

fun reply_header :: "string \<Rightarrow> string \<Rightarrow> reply \<Rightarrow> reply" where
  "reply_header f v Unsent = Heading 200 ''OK'' [(f, v)]"
| "reply_header f v (Heading code msg hs) = Heading code msg (hs @ [(f, v)])"
| "reply_header f v r = r"

fun reply_body :: "string \<Rightarrow> reply \<Rightarrow> reply" where
  "reply_body t Unsent = Body 200 ''OK'' [] t"
| "reply_body t (Heading code msg hs) = Body code msg hs t"
| "reply_body t (Body code msg hs b) = Body code msg hs (b @ t)"
| "reply_body t (Attached code msg hs) = Attached code msg hs"

lemma follows_ops:
  "follows r (reply_status code msg r)" "follows r (reply_header f v r)" "follows r (reply_body t r)"
proof -
  have h: "follows (Heading c m hs) (Body c m hs t)" for c m hs
    using advances.finish [of c m hs] advances.body [of c m hs "[]" t]
    by (auto intro: rtranclp.rtrancl_into_rtrancl)
  have u: "follows Unsent (Heading c m [])" for c m
    using advances.status by (rule r_into_rtranclp)
  show "follows r (reply_status code msg r)" by (cases r) (simp_all add: u)
  show "follows r (reply_header f v r)"
    using follows_step [OF u advances.header [of 200 "''OK''" "[]" f v]]
    by (cases r) (auto intro: advances.header)
  show "follows r (reply_body t r)"
    by (cases r) (auto intro: advances.body h follows_trans [OF u h])
qed

section \<open>The stream functions refine the reply\<close>

definition represents :: "sb_Stream \<Rightarrow> reply \<Rightarrow> bool" where
  "represents st r \<longleftrightarrow> sb_wf (st_send_buf st) \<and> sb_content (st_send_buf st) = reply_text r \<and>
     (case r of Unsent \<Rightarrow> st_state st = SENDING_STATUS
      | Heading _ _ _ \<Rightarrow> st_state st = SENDING_HEADER
      | Body _ _ _ _ \<Rightarrow> st_state st = SENDING_DATA
      | Attached _ _ _ \<Rightarrow> st_state st = SENDING_FILE)"

text \<open>What a response function may do to the reply: the whole operation with code 0, or an
  error after a part of it, only ever for lack of memory or in the wrong state.\<close>

definition refines_to :: "reply \<Rightarrow> reply \<Rightarrow> cint \<times> sb_Stream \<times> 'w \<Rightarrow> bool" where
  "refines_to r new res \<longleftrightarrow> (case res of (err, st, w) \<Rightarrow>
     if err = 0 then represents st new
     else err \<in> {SB_EOUTOFMEM, SB_EBADSTATE} \<and> (\<exists>r'. follows r r' \<and> represents st r'))"

lemma length_show_base: "2 \<le> b \<Longrightarrow> n < b ^ k \<Longrightarrow> 0 < k \<Longrightarrow> length (show_base d b n) \<le> k"
proof (induction k arbitrary: n)
  case (Suc k)
  show ?case
  proof (cases "n < b")
    case True
    then show ?thesis by (subst show_base.simps) simp
  next
    case False
    have "n div b < b ^ k" using Suc.prems by (auto simp: less_mult_imp_div_less mult.commute)
    moreover have "k \<noteq> 0" using Suc.prems False by (cases k) auto
    ultimately have "n div b < b ^ k" "0 < k" by simp_all
    with Suc.IH [of "n div b"] Suc.prems False show ?thesis by (subst show_base.simps) auto
  qed
qed simp

lemma length_show_dec: "n < 10 ^ k \<Longrightarrow> 0 < k \<Longrightarrow> length (show_dec n) \<le> k"
  unfolding show_dec_def by (rule length_show_base) simp_all

lemma length_show_int32: "length (show_int (sint (c :: cint))) \<le> 11"
proof -
  have "- (2 ^ 31) \<le> sint c" "sint c < 2 ^ 31"
    using sint_greater_eq [of c] sint_less [of c] by simp_all
  then have "nat (- sint c) < 10 ^ 10" "nat (sint c) < 10 ^ 10" by auto
  then show ?thesis using length_show_dec [of _ 10] by (fastforce simp: show_int_def)
qed

lemma status_render: "render (''HTTP/1.1 %d %s'' @ CRLF) [VaInt code, VaStr (Some msg)] = Some (status_line code msg)"
proof -
  have l: "\<not> 512 \<le> length (show_int (sint code))" using length_show_int32 [of code] by simp
  show ?thesis
    by (simp add: render.simps CRLF_def format_spec_def format_conv_def show_number_def
        ctype_defs chr_code_def l status_line_def)
qed

lemma header_render:
  "render (''%s: %s'' @ CRLF) [VaStr (Some f), VaStr (Some v)] = Some (header_lines [(f, v)])"
  by (simp add: render.simps CRLF_def header_lines_def)

text \<open>Appending to the send buffer of a stream.\<close>

lemma send_writef_run:
  assumes "render fmt args = Some out" and "sb_wf (st_send_buf st)"
  shows "run (send_writef E fmt args st w) (\<lambda>(err, st', w'). st' = st\<lparr>st_send_buf := st_send_buf st'\<rparr>
     \<and> appended (sb_content (st_send_buf st)) (sb_content (st_send_buf st) @ out) (err, st_send_buf st', w'))"
  unfolding send_writef_def run_bind
  by (rule run_mono [OF vwritef_run [OF assms]]) (auto simp: run_simps)

lemma send_push_run:
  assumes "sb_wf (st_send_buf st)"
  shows "run (send_push E p st w) (\<lambda>(err, st', w'). st' = st\<lparr>st_send_buf := st_send_buf st'\<rparr>
     \<and> appended (sb_content (st_send_buf st)) (sb_content (st_send_buf st) @ p) (err, st_send_buf st', w'))"
  unfolding send_push_def run_bind
  by (rule run_mono [OF push_str_run [OF assms]]) (auto simp: run_simps)

lemma same_state: "st' = st\<lparr>st_send_buf := b\<rparr> \<Longrightarrow> st_state st' = st_state st"
  by simp

lemma refines_same: "represents st r \<Longrightarrow> refines_to r new (SB_EBADSTATE, st, w)"
  by (auto simp: refines_to_def sb_codes)

lemma send_status_refines:
  assumes "represents st r"
  shows "run (sb_send_status E code msg st w) (refines_to r (reply_status code msg r))"
proof (cases r)
  case Unsent
  with assms have st: "st_state st = SENDING_STATUS" "sb_wf (st_send_buf st)" "sb_content (st_send_buf st) = []"
    by (auto simp: represents_def)
  show ?thesis
    unfolding sb_send_status_def st(1) simp_thms if_False run_bind
  proof (rule run_mono [OF send_writef_run [OF status_render st(2)]], clarify)
    fix err st' and w' :: 'a
    assume s: "st' = st\<lparr>st_send_buf := st_send_buf st'\<rparr>"
      and a: "appended (sb_content (st_send_buf st)) (sb_content (st_send_buf st) @ status_line code msg)
        (err, st_send_buf st', w')"
    from same_state [OF s] st(1) have "st_state st' = SENDING_STATUS" by simp
    with a st(3) Unsent show "run (if err \<noteq> 0 then Some (err, st', w')
        else Some (SB_ESUCCESS, st'\<lparr>st_state := SENDING_HEADER\<rparr>, w')) (refines_to r (reply_status code msg r))"
      by (auto simp: run_simps refines_to_def represents_def sb_codes header_lines_def split: if_splits)
  qed
next
  case (Heading c m hs)
  with assms show ?thesis
    by (auto simp: sb_send_status_def run_simps represents_def intro!: refines_same)
next
  case (Body c m hs b)
  with assms show ?thesis
    by (auto simp: sb_send_status_def run_simps represents_def intro!: refines_same)
next
  case (Attached c m hs)
  with assms show ?thesis
    by (auto simp: sb_send_status_def run_simps represents_def intro!: refines_same)
qed

text \<open>Operations in sequence: the first brings the reply to a point from which the second goes on.\<close>

lemma refines_then:
  assumes p: "run p (refines_to r mid)" and f: "follows r mid"
    and k: "\<And>st w. represents st mid \<Longrightarrow> run (g st w) (refines_to mid new)"
  shows "run (p \<bind> (\<lambda>(err, st, w). if err \<noteq> 0 then Some (err, st, w) else g st w)) (refines_to r new)"
  unfolding run_bind
proof (rule run_mono [OF p], clarify)
  fix err st and w :: 'a
  assume a: "refines_to r mid (err, st, w)"
  show "run (if err \<noteq> 0 then Some (err, st, w) else g st w) (refines_to r new)"
  proof (cases "err = 0")
    case False
    with a show ?thesis by (auto simp: run_simps refines_to_def)
  next
    case True
    with a have "represents st mid" by (simp add: refines_to_def)
    have "run (g st w) (refines_to r new)"
    proof (rule run_mono [OF k [OF \<open>represents st mid\<close>]], clarify)
      fix err' st' and w' :: 'a
      assume "refines_to mid new (err', st', w')"
      then show "refines_to r new (err', st', w')"
        using f by (auto simp: refines_to_def intro: follows_trans split: if_splits)
    qed
    with True show ?thesis by simp
  qed
qed

text \<open>Appending text within one state.\<close>

lemma send_push_refines:
  assumes "represents st (Body c m hs b)"
  shows "run (send_push E p st w) (refines_to (Body c m hs b) (Body c m hs (b @ p)))"
proof -
  from assms have st: "sb_wf (st_send_buf st)" "st_state st = SENDING_DATA"
    "sb_content (st_send_buf st) = reply_text (Body c m hs b)" by (auto simp: represents_def)
  show ?thesis
  proof (rule run_mono [OF send_push_run [OF st(1)]], clarify)
    fix err st' and w' :: 'a
    assume s: "st' = st\<lparr>st_send_buf := st_send_buf st'\<rparr>"
      and a: "appended (sb_content (st_send_buf st)) (sb_content (st_send_buf st) @ p) (err, st_send_buf st', w')"
    with st same_state [OF s] show "refines_to (Body c m hs b) (Body c m hs (b @ p)) (err, st', w')"
      by (auto simp: refines_to_def represents_def appended_def split: if_splits)
  qed
qed

lemma send_writef_refines:
  assumes "represents st (Body c m hs b)" and "render fmt args = Some out"
  shows "run (send_writef E fmt args st w) (refines_to (Body c m hs b) (Body c m hs (b @ out)))"
proof -
  from assms have st: "sb_wf (st_send_buf st)" "st_state st = SENDING_DATA"
    "sb_content (st_send_buf st) = reply_text (Body c m hs b)" by (auto simp: represents_def)
  show ?thesis
  proof (rule run_mono [OF send_writef_run [OF assms(2) st(1)]], clarify)
    fix err st' and w' :: 'a
    assume s: "st' = st\<lparr>st_send_buf := st_send_buf st'\<rparr>"
      and a: "appended (sb_content (st_send_buf st)) (sb_content (st_send_buf st) @ out) (err, st_send_buf st', w')"
    with st same_state [OF s] show "refines_to (Body c m hs b) (Body c m hs (b @ out)) (err, st', w')"
      by (auto simp: refines_to_def represents_def appended_def split: if_splits)
  qed
qed

lemma add_header_refines:
  assumes "represents st (Heading c m hs)"
  shows "run (send_writef E (''%s: %s'' @ CRLF) [VaStr (Some f), VaStr (Some v)] st w)
    (refines_to (Heading c m hs) (Heading c m (hs @ [(f, v)])))"
proof -
  from assms have st: "sb_wf (st_send_buf st)" "st_state st = SENDING_HEADER"
    "sb_content (st_send_buf st) = reply_text (Heading c m hs)" by (auto simp: represents_def)
  show ?thesis
  proof (rule run_mono [OF send_writef_run [OF header_render st(1)]], clarify)
    fix err st' and w' :: 'a
    assume s: "st' = st\<lparr>st_send_buf := st_send_buf st'\<rparr>"
      and a: "appended (sb_content (st_send_buf st)) (sb_content (st_send_buf st) @ header_lines [(f, v)])
        (err, st_send_buf st', w')"
    with st same_state [OF s] show "refines_to (Heading c m hs) (Heading c m (hs @ [(f, v)])) (err, st', w')"
      by (auto simp: refines_to_def represents_def appended_def header_lines_def split: if_splits)
  qed
qed

lemma end_header_refines:
  assumes "represents st (Heading c m hs)"
  shows "run (send_push E CRLF st w \<bind> (\<lambda>(err, st, w). if err \<noteq> 0 then Some (err, st, w)
       else Some (SB_ESUCCESS, st\<lparr>st_state := SENDING_DATA\<rparr>, w)))
    (refines_to (Heading c m hs) (Body c m hs []))"
proof -
  from assms have st: "sb_wf (st_send_buf st)" "st_state st = SENDING_HEADER"
    "sb_content (st_send_buf st) = reply_text (Heading c m hs)" by (auto simp: represents_def)
  show ?thesis unfolding run_bind
  proof (rule run_mono [OF send_push_run [OF st(1)]], clarify)
    fix err st' and w' :: 'a
    assume s: "st' = st\<lparr>st_send_buf := st_send_buf st'\<rparr>"
      and a: "appended (sb_content (st_send_buf st)) (sb_content (st_send_buf st) @ CRLF) (err, st_send_buf st', w')"
    with st same_state [OF s] show "run (if err \<noteq> 0 then Some (err, st', w')
       else Some (SB_ESUCCESS, st'\<lparr>st_state := SENDING_DATA\<rparr>, w')) (refines_to (Heading c m hs) (Body c m hs []))"
      by (auto simp: run_simps refines_to_def represents_def appended_def sb_codes split: if_splits)
  qed
qed

text \<open>The default status, when nothing was sent.\<close>

definition with_status :: "reply \<Rightarrow> reply" where
  "with_status r = reply_status 200 ''OK'' r"

lemma follows_with_status: "follows r (with_status r)"
  unfolding with_status_def by (rule follows_ops)

lemma default_status_refines:
  assumes "represents st r"
  shows "run (if st_state st < SENDING_HEADER then sb_send_status E 200 ''OK'' st w else Some (SB_ESUCCESS, st, w))
    (refines_to r (with_status r))"
proof (cases r)
  case Unsent
  with assms send_status_refines [OF assms, of E 200 "''OK''" w] show ?thesis
    by (simp add: represents_def with_status_def)
qed (use assms in \<open>simp_all add: represents_def with_status_def run_simps refines_to_def sb_codes\<close>)

text \<open>The empty line after the headers is written once.\<close>

fun head_sent :: "reply \<Rightarrow> bool" where
  "head_sent Unsent = False"
| "head_sent (Heading code msg hs) = False"
| "head_sent r = True"

lemma head_sent_state: "represents st r \<Longrightarrow> head_sent r \<longleftrightarrow> SENDING_HEADER < st_state st"
  by (cases r) (auto simp: represents_def)

lemma finalize_refines:
  assumes "represents st r" and "\<not> head_sent r"
  shows "run (sb_stream_finalize_header E st w) (refines_to r (reply_body [] r))"
  unfolding sb_stream_finalize_header_def
proof (rule refines_then [OF default_status_refines [OF assms(1)] follows_with_status])
  fix st' and w' :: 'a
  assume a: "represents st' (with_status r)"
  obtain c m hs where r: "with_status r = Heading c m hs" "reply_body [] r = Body c m hs []"
    using assms(2) by (cases r) (auto simp: with_status_def)
  from end_header_refines [OF a [unfolded r], of E w']
  show "run (send_push E CRLF st' w' \<bind> (\<lambda>(err, st, w). if err \<noteq> 0 then Some (err, st, w)
       else Some (SB_ESUCCESS, st\<lparr>st_state := SENDING_DATA\<rparr>, w))) (refines_to (with_status r) (reply_body [] r))"
    unfolding r .
qed

lemma send_header_refines:
  assumes "represents st r"
  shows "run (sb_send_header E f v st w) (refines_to r (reply_header f v r))"
proof (cases "head_sent r")
  case True
  with assms head_sent_state [OF assms] show ?thesis
    by (auto simp: sb_send_header_def run_simps intro!: refines_same)
next
  case False
  then obtain c m hs where r: "with_status r = Heading c m hs" "reply_header f v r = Heading c m (hs @ [(f, v)])"
    by (cases r) (auto simp: with_status_def)
  have st: "\<not> SENDING_HEADER < st_state st" using head_sent_state [OF assms] False by simp
  show ?thesis unfolding sb_send_header_def if_not_P [OF st] r(2)
    by (rule refines_then [OF default_status_refines [OF assms] follows_with_status, unfolded r(1)])
      (rule add_header_refines)
qed

lemma body_first_refines:
  assumes "represents st r"
  shows "run (if st_state st < SENDING_DATA then sb_stream_finalize_header E st w else Some (SB_ESUCCESS, st, w))
    (refines_to r (reply_body [] r))"
proof (cases r)
  case (Body c m hs b)
  with assms show ?thesis by (simp add: represents_def run_simps refines_to_def sb_codes)
next
  case Unsent
  with assms finalize_refines [OF assms, of E w] show ?thesis by (simp add: represents_def)
next
  case (Heading c m hs)
  with assms finalize_refines [OF assms, of E w] show ?thesis by (simp add: represents_def)
next
  case (Attached c m hs)
  with assms show ?thesis by (simp add: represents_def run_simps refines_to_def sb_codes)
qed

text \<open>What follows once the head of the response is there.\<close>

lemma body_then_refines:
  assumes r: "represents st r"
    and g: "\<And>st w c m hs b. represents st (Body c m hs b) \<Longrightarrow> run (g st w) (refines_to (Body c m hs b) (Body c m hs (b @ p)))"
  shows "run ((if st_state st < SENDING_DATA then sb_stream_finalize_header E st w else Some (SB_ESUCCESS, st, w))
      \<bind> (\<lambda>(err, st, w). if err \<noteq> 0 then Some (err, st, w)
            else if st_state st \<noteq> SENDING_DATA then Some (SB_EBADSTATE, st, w) else g st w))
    (refines_to r (reply_body p r))"
proof (rule refines_then [OF body_first_refines [OF r] follows_ops(3)])
  fix st' and w' :: 'a
  assume a: "represents st' (reply_body [] r)"
  show "run (if st_state st' \<noteq> SENDING_DATA then Some (SB_EBADSTATE, st', w') else g st' w')
      (refines_to (reply_body [] r) (reply_body p r))"
  proof (cases "reply_body [] r")
    case (Body c m hs b)
    then have "reply_body p r = Body c m hs (b @ p)" by (cases r) auto
    moreover from a Body have "st_state st' = SENDING_DATA" by (simp add: represents_def)
    ultimately show ?thesis using g [OF a [unfolded Body], of w'] by (simp add: Body)
  next
    case (Attached c m hs)
    with a have "st_state st' \<noteq> SENDING_DATA" by (simp add: represents_def)
    then show ?thesis using refines_same [OF a] by (simp add: run_simps)
  qed (cases r; simp)+
qed

lemma writef_refines:
  assumes "represents st r" and "render fmt args = Some out"
  shows "run (sb_writef E fmt args st w) (refines_to r (reply_body out r))"
  unfolding sb_writef_def by (rule body_then_refines [OF assms(1)]) (rule send_writef_refines [OF _ assms(2)])

lemma write_refines:
  assumes "represents st r"
  shows "run (sb_write E p st w) (refines_to r (reply_body p r))"
  unfolding sb_write_def by (rule body_then_refines [OF assms]) (rule send_push_refines)

text \<open>Sending a file: a length header ends the head, and the stream turns to the file.\<close>

definition reply_file :: "nat \<Rightarrow> reply \<Rightarrow> reply" where
  "reply_file n r = (case reply_header ''Content-Length'' (trunc_cpy 32 (show_dec n)) r of
     Heading code msg hs \<Rightarrow> Attached code msg hs | r \<Rightarrow> r)"

definition keeps :: "reply \<Rightarrow> cint \<times> sb_Stream \<times> 'w \<Rightarrow> bool" where
  "keeps r res \<longleftrightarrow> (case res of (err, st, w) \<Rightarrow> \<exists>r'. follows r r' \<and> represents st r')"

lemma keepsI: "represents st r' \<Longrightarrow> follows r r' \<Longrightarrow> keeps r (err, st, w)"
  by (auto simp: keeps_def)

lemma refines_keeps: "refines_to r new res \<Longrightarrow> follows r new \<Longrightarrow> keeps r res"
  by (auto simp: refines_to_def keeps_def split: if_splits)

lemma attach_represents:
  assumes "represents st (Body c m hs [])"
  shows "represents (st\<lparr>st_send_fd := fd, st_state := SENDING_FILE\<rparr>) (Attached c m hs)"
  using assms by (simp add: represents_def)

lemma send_file_refines:
  assumes "represents st r"
  shows "run (sb_send_file E filename st w) (\<lambda>(err, st', w').
     if err = 0 then \<exists>n. represents st' (reply_file n r) \<and> follows r (reply_file n r) else keeps r (err, st', w'))"
proof (cases "head_sent r")
  case True
  with assms head_sent_state [OF assms] show ?thesis
    by (auto simp: sb_send_file_def run_simps sb_codes intro: keepsI)
next
  case False
  have st: "\<not> SENDING_HEADER < st_state st" using head_sent_state [OF assms] False by simp
  obtain fd w1 where o: "se_open E filename w = (fd, w1)" by (metis prod.exhaust)
  obtain ret n w2 where s: "se_fstat E fd w1 = ((ret, n), w2)" by (metis prod.exhaust)
  let ?l = "trunc_cpy 32 (show_dec n)" and ?rh = "reply_header ''Content-Length'' (trunc_cpy 32 (show_dec n)) r"
  obtain c m hs where rh: "?rh = Heading c m hs" using False by (cases r) auto
  have f: "follows r (Attached c m hs)"
    using follows_ops(2) [of r "''Content-Length''" ?l] advances.attach [of c m hs] by (auto simp: rh)
  have rf: "reply_file n r = Attached c m hs" by (simp add: reply_file_def rh)
  have head: "run (sb_send_header E ''Content-Length'' ?l st w2) (refines_to r (Heading c m hs))"
    using send_header_refines [OF assms] rh by metis
  have fh: "follows r (Heading c m hs)" using follows_ops(2) [of r "''Content-Length''" ?l] rh by simp
  have fin: "run (sb_stream_finalize_header E st' w') (\<lambda>(err, st', w').
      if err = 0 then represents (st'\<lparr>st_send_fd := fd, st_state := SENDING_FILE\<rparr>) (reply_file n r)
      else keeps r (err, st', w'))"
    if h: "represents st' (Heading c m hs)" for st' and w' :: 'a
  proof -
    from finalize_refines [OF h, of E w']
    have "run (sb_stream_finalize_header E st' w') (refines_to (Heading c m hs) (Body c m hs []))" by simp
    then show ?thesis
      by (rule run_mono) (use rf in \<open>auto simp: refines_to_def keeps_def attach_represents
          dest!: follows_trans [OF fh] split: if_splits\<close>)
  qed
  show ?thesis unfolding sb_send_file_def if_not_P [OF st] o s prod.case
    using assms f [folded rf] fh
    by (auto simp: run_simps sb_codes keepsI refines_to_def intro!: run_mono [OF head] run_mono [OF fin]
        split: if_splits)
      (auto simp: keeps_def)
qed

section \<open>Sequences of calls\<close>

text \<open>What an event handler does to its stream: a sequence of response calls whose results it
  does not look at.\<close>

datatype response_call =
  CallStatus cint string | CallHeader string string | CallWrite string
| CallWritef string "va_arg list" | CallFile string

fun respond :: "'w sb_env \<Rightarrow> response_call \<Rightarrow> 'w stream_op" where
  "respond E (CallStatus code msg) = sb_send_status E code msg"
| "respond E (CallHeader f v) = sb_send_header E f v"
| "respond E (CallWrite p) = sb_write E p"
| "respond E (CallWritef fmt args) = sb_writef E fmt args"
| "respond E (CallFile filename) = sb_send_file E filename"

fun printable :: "response_call \<Rightarrow> bool" where
  "printable (CallWritef fmt args) = (render fmt args \<noteq> None)"
| "printable c = True"

fun call_spec :: "response_call \<Rightarrow> reply \<Rightarrow> reply \<Rightarrow> bool" where
  "call_spec (CallStatus code msg) r r' = (r' = reply_status code msg r)"
| "call_spec (CallHeader f v) r r' = (r' = reply_header f v r)"
| "call_spec (CallWrite p) r r' = (r' = reply_body p r)"
| "call_spec (CallWritef fmt args) r r' = (r' = reply_body (the (render fmt args)) r)"
| "call_spec (CallFile filename) r r' = (\<exists>n. r' = reply_file n r \<and> follows r r')"

lemma call_spec_follows: "call_spec c r r' \<Longrightarrow> follows r r'"
  by (cases c) (auto intro: follows_ops)

fun responses :: "'w sb_env \<Rightarrow> response_call list \<Rightarrow> sb_Stream \<Rightarrow> 'w \<Rightarrow> (sb_Stream \<times> 'w) option" where
  "responses E [] st w = Some (st, w)"
| "responses E (c # cs) st w = do {
     (err, st, w) \<leftarrow> respond E c st w;
     responses E cs st w }"

definition call_result :: "response_call \<Rightarrow> reply \<Rightarrow> cint \<times> sb_Stream \<times> 'w \<Rightarrow> bool" where
  "call_result c r res \<longleftrightarrow> (case res of (err, st, w) \<Rightarrow>
     if err = 0 then \<exists>r'. call_spec c r r' \<and> represents st r' else keeps r res)"

lemma refines_call: "refines_to r new res \<Longrightarrow> call_spec c r new \<Longrightarrow> call_result c r res"
  by (auto simp: call_result_def refines_to_def keeps_def split: if_splits)

lemma respond_refines:
  assumes "represents st r" and "printable c"
  shows "run (respond E c st w) (call_result c r)"
proof (cases c)
  case (CallStatus code msg)
  show ?thesis unfolding CallStatus respond.simps
    by (rule run_mono [OF send_status_refines [OF assms(1)]]) (erule refines_call, simp)
next
  case (CallHeader f v)
  show ?thesis unfolding CallHeader respond.simps
    by (rule run_mono [OF send_header_refines [OF assms(1)]]) (erule refines_call, simp)
next
  case (CallWrite p)
  show ?thesis unfolding CallWrite respond.simps
    by (rule run_mono [OF write_refines [OF assms(1)]]) (erule refines_call, simp)
next
  case (CallWritef fmt args)
  with assms(2) obtain out where o: "render fmt args = Some out" by auto
  show ?thesis unfolding CallWritef respond.simps
    by (rule run_mono [OF writef_refines [OF assms(1) o]]) (erule refines_call, simp add: o)
next
  case (CallFile filename)
  show ?thesis unfolding CallFile respond.simps
    by (rule run_mono [OF send_file_refines [OF assms(1)]]) (fastforce simp: call_result_def split: if_splits)
qed

lemma call_result_keeps: "call_result c r res \<Longrightarrow> keeps r res"
  using call_spec_follows [of c r] by (fastforce simp: call_result_def keeps_def split: if_splits)

lemma responses_keep:
  assumes "represents st r" and "list_all printable cs"
  shows "run (responses E cs st w) (\<lambda>(st', w'). \<exists>r'. follows r r' \<and> represents st' r')"
  using assms
proof (induction cs arbitrary: st r w)
  case Nil
  then show ?case by (auto simp: run_simps)
next
  case (Cons c cs)
  from Cons.prems have p: "printable c" "list_all printable cs" by auto
  show ?case unfolding responses.simps run_bind
  proof (rule run_mono [OF respond_refines [OF Cons.prems(1) p(1)]], clarify)
    fix err st1 and w1 :: 'a
    assume "call_result c r (err, st1, w1)"
    from call_result_keeps [OF this] obtain r1 where f: "follows r r1" and "represents st1 r1"
      by (auto simp: keeps_def)
    from Cons.IH [OF this(2) p(2), of w1]
    show "run (responses E cs st1 w1) (\<lambda>(st', w'). \<exists>r'. follows r r' \<and> represents st' r')"
      by (rule run_mono) (auto dest: follows_trans [OF f])
  qed
qed

text \<open>An environment with memory to spare, whose world is what the client still sends.\<close>

definition ample_env :: "string sb_env" where
  "ample_env = \<lparr>
     se_malloc = \<lambda>w. (True, w), se_realloc = \<lambda>n w. (True, w), se_junk = \<lambda>i w. CHR ''?'',
     se_recv = \<lambda>fd n w. let bs = take n w in ((int (length bs), bs, False), drop n w),
     se_send = \<lambda>fd bs w. ((int (length bs), False), w),
     se_read = \<lambda>fd n w. ((0, []), w), se_open = \<lambda>p w. (-1, w), se_fstat = \<lambda>fd w. ((-1, 0), w),
     se_shutdown = \<lambda>fd w. w, se_close = \<lambda>fd w. w, se_time = \<lambda>w. 0, se_now = \<lambda>w. 0,
     se_address = \<lambda>fd w. ''127.0.0.1''\<rparr>"

definition fresh_stream :: sb_Stream where
  "fresh_stream = \<lparr>st_state = RECEIVING_HEADER, st_address = ''127.0.0.1'', st_init_time = 0,
     st_last_activity = 0, st_expected_recv_len = 0, st_data_idx = 0, st_sockfd = 3,
     st_recv_buf = sb_buffer_init, st_send_buf = sb_buffer_init, st_send_fd = 0\<rparr>"

lemma fresh_stream_new: "sb_stream_new ample_env 3 w = (Some fresh_stream, w)"
  by (simp add: sb_stream_new_def ample_env_def fresh_stream_def)

definition ready_stream :: sb_Stream where
  "ready_stream = fresh_stream\<lparr>st_state := SENDING_STATUS\<rparr>"

lemma ready_stream_represents: "represents ready_stream Unsent"
  by (simp add: ready_stream_def fresh_stream_def represents_def)

section \<open>Properties\<close>



text \<open>C27: over any sequence of response calls, also when memory runs out in the middle of one,
  the bytes to be sent only grow, they stay one response written front to back, and the status
  that was sent first is the one the client gets.\<close>

theorem responses_well_formed:
  assumes "represents st r" and "list_all printable cs"
  shows "\<exists>st' w' r'. responses E cs st w = Some (st', w') \<and> represents st' r'
    \<and> prefix (sb_content (st_send_buf st)) (sb_content (st_send_buf st'))
    \<and> (sent_status r = None \<or> sent_status r' = sent_status r)"
proof -
  obtain st' w' r' where s: "responses E cs st w = Some (st', w')" "follows r r'" "represents st' r'"
    using responses_keep [OF assms, of E w] by (auto simp: run_def)
  with follows_prefix [OF s(2)] assms(1)
  have "prefix (sb_content (st_send_buf st)) (sb_content (st_send_buf st'))" by (simp add: represents_def)
  moreover have "sent_status r = None \<or> sent_status r' = sent_status r"
    using follows_status [OF s(2)] by (cases "sent_status r") auto
  ultimately show ?thesis using s by blast
qed

theorem responses_well_formed_witness:
  "\<exists>st' w' r'. responses ample_env [CallHeader ''A'' ''b'', CallStatus 500 ''no'', CallWrite ''x''] ready_stream [] = Some (st', w')
     \<and> represents st' r' \<and> sb_content (st_send_buf st') = reply_text (Body 200 ''OK'' [(''A'', ''b'')] ''x'')"
proof -
  let ?cs = "[CallHeader ''A'' ''b'', CallStatus 500 ''no'', CallWrite ''x'']"
  have "map_option (\<lambda>(st', w'). sb_content (st_send_buf st')) (responses ample_env ?cs ready_stream [])
      = Some (reply_text (Body 200 ''OK'' [(''A'', ''b'')] ''x''))" by code_simp
  with responses_well_formed [OF ready_stream_represents, of ?cs ample_env "[]"] show ?thesis by auto
qed

end
