(* ===== verification/Request.thy ===== *)
theory Request
  imports Response
begin

text \<open>
  How sandbird.c reads requests: decoding of paths and parameters, the search for headers and
  variables, and the collection of a request, which hands a complete and terminated text to the
  event handler.
\<close>

section \<open>Decoding\<close>

lemma or_nibble: "0 \<le> l \<Longrightarrow> l < 16 \<Longrightarrow> (h * 16) OR l = h * 16 + (l :: int)"
proof -
  assume l: "0 \<le> l" "l < 16"
  have h: "h * 16 = push_bit 4 h" by (simp add: push_bit_eq_mult)
  have t: "l = take_bit 4 l" using l by (simp add: take_bit_eq_mod)
  have "push_bit 4 h OR take_bit 4 l = push_bit 4 h + take_bit 4 l"
    by (rule disjunctive_add [symmetric]) (auto simp: bit_simps)
  with h t show ?thesis by simp
qed

lemma hex_to_int_val: "isxdigit c \<Longrightarrow> hex_to_int c = int (hex_val c)"
  by (auto simp: hex_to_int_def hex_val_def ctype_defs tolower_def)

lemma hex_val_less: "isxdigit c \<Longrightarrow> hex_val c < 16"
  by (auto simp: hex_val_def ctype_defs tolower_def)

lemma hex_pair_decode:
  assumes "isxdigit a" and "isxdigit b"
  shows "char_of_int (hex_to_int a * 16 OR hex_to_int b) = char_of (16 * hex_val a + hex_val b)"
proof -
  have "hex_to_int a * 16 OR hex_to_int b = int (16 * hex_val a + hex_val b)"
    using assms hex_val_less [OF assms(2)] by (simp add: hex_to_int_val or_nibble)
  moreover have "16 * hex_val a + hex_val b < 256"
    using hex_val_less [OF assms(1)] hex_val_less [OF assms(2)] by simp
  ultimately show ?thesis by (simp add: char_of_int_def)
qed

lemma url_safe_not_stop: "url_safe_char c \<Longrightarrow> c \<notin> set url_stop \<and> c \<noteq> CHR ''%''"
  by (auto simp: url_safe_char_def url_stop_def ctype_defs chr_code_def)

lemma url_decode_loop_encode:
  assumes "CHR ''+'' \<notin> set s" and "length s \<le> n" and "t = [] \<or> hd t \<in> set url_stop"
  shows "url_decode_loop (url_encode_loop s @ t) n = (s, n - length s)"
  using assms
proof (induction s arbitrary: n)
  case Nil
  then show ?case by (cases t) (simp_all add: url_decode_loop.simps)
next
  case (Cons c cs)
  from Cons.prems have n: "n \<noteq> 0" "length cs \<le> n - 1" by auto
  have IH: "url_decode_loop (url_encode_loop cs @ t) (n - 1) = (cs, n - 1 - length cs)"
    using Cons n by simp
  show ?case
  proof (cases "url_safe_char c")
    case True
    with url_safe_not_stop Cons.prems n IH show ?thesis
      by (subst url_decode_loop.simps) auto
  next
    case False
    let ?a = "to_hex (drop_bit 4 (of_char c))" and ?b = "to_hex (of_char c AND 15)"
    have p: "CHR ''%'' \<notin> set url_stop" by (simp add: url_stop_def)
    have "char_of_int (hex_to_int ?a * 16 OR hex_to_int ?b) = char_of (16 * hex_val ?a + hex_val ?b)"
      by (rule hex_pair_decode) (rule to_hex_xdigit)+
    also have "\<dots> = c" using hex_pair [of c] by (simp add: chr_code_def mult.commute)
    finally have c: "char_of_int (hex_to_int ?a * 16 OR hex_to_int ?b) = c" .
    from False p n IH c show ?thesis
      by (subst url_decode_loop.simps) simp
  qed
qed

lemma url_decode_loop_length:
  "url_decode_loop s n = (d, l) \<Longrightarrow> length d + l = n"
proof (induction s n arbitrary: d l rule: url_decode_loop.induct)
  case (1 src len)
  from 1(3) show ?case
    by (subst (asm) url_decode_loop.simps)
       (auto simp: Let_def split: list.splits if_splits prod.splits dest: 1(1) 1(2))
qed



section \<open>Searching for a header\<close>

definition has_field :: "string \<Rightarrow> string \<Rightarrow> bool" where
  "has_field field str \<longleftrightarrow> mem_case_prefix field str \<and> length field < length str \<and> str ! length field = CHR '':''"

text \<open>The rest of the text after the current line.\<close>

definition next_line :: "string \<Rightarrow> string" where
  "next_line str = (let s = drop (strcspn str [CHR 0x0D]) str in if prefix CRLF s then drop 2 s else s)"

lemma find_header_step:
  "find_header_value str field =
     (if str = [] \<or> prefix CRLF str then Some None
      else if has_field field str then Some (Some (header_value str field))
      else find_header_value (next_line str) field)"
  by (subst find_header_value.simps) (simp add: has_field_def next_line_def Let_def)

text \<open>The lines of a header, and the text they make up.\<close>

definition header_line :: "string \<Rightarrow> bool" where
  "header_line l \<longleftrightarrow> l \<noteq> [] \<and> CHR 0x0D \<notin> set l"

definition lines_text :: "string list \<Rightarrow> string" where
  "lines_text ls = concat (map (\<lambda>l. l @ CRLF) ls)"

lemma lines_text_simps [simp]: "lines_text [] = []" "lines_text (l # ls) = l @ CRLF @ lines_text ls"
  by (simp_all add: lines_text_def)

lemma tolower_CR: "tolower c = CHR 0x0D \<longleftrightarrow> c = CHR 0x0D"
  by (auto simp: tolower_def isupper_def chr_code_def split: if_splits
      dest!: arg_cong [where f = "of_char :: char \<Rightarrow> nat"])

lemma tolower_CR_self [simp]: "tolower CHR 0x0D = CHR 0x0D"
  by (simp add: tolower_CR)

lemma prefix_iff_take: "prefix p s \<longleftrightarrow> take (length p) s = p"
  by (metis append_eq_conv_conj prefix_def take_is_prefix)

lemma has_field_line:
  assumes f: "CHR 0x0D \<notin> set field"
  shows "has_field field (l @ CHR 0x0D # t) \<longleftrightarrow> has_field field l"
proof (cases "length field < length l")
  case True
  then show ?thesis by (simp add: has_field_def mem_case_prefix_def nth_append prefix_iff_take take_map)
next
  case False
  show ?thesis
  proof (cases "length field = length l")
    case True
    then show ?thesis by (simp add: has_field_def nth_append)
  next
    case neq: False
    with False have l: "length l < length field" by simp
    have "\<not> prefix (map tolower field) (map tolower (l @ CHR 0x0D # t))"
    proof
      assume "prefix (map tolower field) (map tolower (l @ CHR 0x0D # t))"
      then have "map tolower field ! length l = map tolower (l @ CHR 0x0D # t) ! length l"
        using l by (auto simp: prefix_def nth_append dest!: arg_cong [where f = "\<lambda>x. x ! length l"])
      then have "tolower (field ! length l) = CHR 0x0D"
        using l by (simp add: nth_append tolower_CR)
      with f l show False by (simp add: tolower_CR) (metis nth_mem)
    qed
    with l show ?thesis by (simp add: has_field_def mem_case_prefix_def)
  qed
qed

lemma next_line_text: "CHR 0x0D \<notin> set l \<Longrightarrow> next_line (l @ CRLF @ t) = t"
proof -
  assume "CHR 0x0D \<notin> set l"
  then have "strcspn (l @ CRLF @ t) [CHR 0x0D] = length l"
    by (subst strcspn_def, subst takeWhile_append2) (auto simp: CRLF_def)
  then show ?thesis by (simp add: next_line_def CRLF_def)
qed

lemma not_CRLF_prefix: "header_line l \<Longrightarrow> \<not> prefix CRLF (l @ t)"
  by (cases l) (auto simp: header_line_def CRLF_def)

text \<open>Lines without the field are passed, and the first one with it is found.\<close>

lemma find_header_skip:
  assumes "\<forall>l \<in> set ls. header_line l \<and> \<not> has_field field l" and f: "CHR 0x0D \<notin> set field"
  shows "find_header_value (lines_text ls @ t) field = find_header_value t field"
  using assms(1)
proof (induction ls)
  case (Cons l ls)
  then have l: "header_line l" "\<not> has_field field (l @ CRLF @ lines_text ls @ t)"
    using has_field_line [OF f, of l] by (simp_all add: CRLF_def)
  have "find_header_value (l @ CRLF @ lines_text ls @ t) field = find_header_value (lines_text ls @ t) field"
    using l not_CRLF_prefix [OF l(1)] next_line_text [of l]
    by (subst find_header_step) (auto simp: header_line_def)
  with Cons show ?case by simp
qed simp

lemma header_value_line:
  assumes "has_field field l"
  shows "header_value (l @ CHR 0x0D # t) field
    = dropWhile (\<lambda>c. c = CHR '' '' \<or> c = CHR 0x09) (drop (length field + 1) l) @ CHR 0x0D # t"
proof -
  have d: "drop (strspn s a) s = dropWhile (\<lambda>c. c \<in> set a) s" for s a
    by (simp add: strspn_def dropWhile_eq_drop)
  have "drop (length field + 1) (l @ CHR 0x0D # t) = drop (length field + 1) l @ CHR 0x0D # t"
    using assms by (simp add: has_field_def)
  then show ?thesis
    by (simp add: header_value_def Let_def d dropWhile_append)
qed

text \<open>The value of a field in a list of lines: the first line that has it, without the blanks
  around the value.\<close>

abbreviation blank :: "char \<Rightarrow> bool" where
  "blank c \<equiv> c = CHR '' '' \<or> c = CHR 0x09"

definition trim_blanks :: "string \<Rightarrow> string" where
  "trim_blanks s = rev (dropWhile blank (rev (dropWhile blank s)))"

definition field_value :: "string \<Rightarrow> string list \<Rightarrow> string option" where
  "field_value field ls = map_option (\<lambda>l. trim_blanks (drop (length field + 1) l)) (find (has_field field) ls)"

lemma find_header_lines:
  assumes "\<forall>l \<in> set ls. header_line l" and f: "CHR 0x0D \<notin> set field"
  shows "case find (has_field field) ls of
      None \<Rightarrow> find_header_value (lines_text ls @ CRLF @ t) field = Some None
    | Some l \<Rightarrow> l \<in> set ls \<and> (\<exists>r. find_header_value (lines_text ls @ CRLF @ t) field
        = Some (Some (dropWhile blank (drop (length field + 1) l) @ CHR 0x0D # r)))"
  using assms(1)
proof (induction ls)
  case Nil
  then show ?case by (simp add: find_header_step)
next
  case (Cons l ls)
  let ?r = "CHR 0x0A # lines_text ls @ CRLF @ t"
  from Cons.prems have l: "header_line l" by simp
  have e: "lines_text (l # ls) @ CRLF @ t = l @ CHR 0x0D # ?r" by (simp add: CRLF_def)
  show ?case
  proof (cases "has_field field l")
    case True
    then have "find_header_value (l @ CHR 0x0D # ?r) field
        = Some (Some (dropWhile blank (drop (length field + 1) l) @ CHR 0x0D # ?r))"
      using not_CRLF_prefix [OF l] has_field_line [OF f, of l] l header_value_line [OF True, of ?r]
      by (subst find_header_step) (auto simp: header_line_def)
    with True show ?thesis unfolding e by auto
  next
    case False
    with find_header_skip [of "[l]" field "lines_text ls @ CRLF @ t"] l f
    have "find_header_value (lines_text (l # ls) @ CRLF @ t) field = find_header_value (lines_text ls @ CRLF @ t) field"
      by simp
    with Cons False show ?thesis by (auto split: option.splits)
  qed
qed

lemma strchr_first: "c \<notin> set v \<Longrightarrow> strchr (v @ c # r) c = Some (length v)"
  by (induction v) auto

text \<open>The code does not step back over the first character, which is never blank.\<close>

lemma takeWhile_rev_drop: "v = [] \<or> \<not> P (hd v) \<Longrightarrow> takeWhile P (rev (drop 1 v)) = takeWhile P (rev v)"
proof (cases v)
  case (Cons a as)
  assume "v = [] \<or> \<not> P (hd v)"
  with Cons show ?thesis
    by (simp only: drop_Suc list.sel takeWhile_append One_nat_def drop_0 rev.simps takeWhile.simps list.distinct simp_thms if_False)
      (auto simp: takeWhile_eq_all_conv [THEN iffD2])
qed simp

lemma rev_dropWhile_rev: "rev (dropWhile P (rev v)) = take (length v - length (takeWhile P (rev v))) v"
  by (simp add: dropWhile_eq_drop rev_drop)

lemma length_trim: "length v - length (takeWhile P (rev v)) = length (rev (dropWhile P (rev v)))"
  by (simp add: dropWhile_eq_drop)

lemma blank_trim:
  assumes "v = dropWhile blank s"
  shows "length v - length (takeWhile blank (rev (drop 1 v))) = length (trim_blanks s)"
    and "take (length (trim_blanks s)) v = trim_blanks s" and "length (trim_blanks s) \<le> length v"
proof -
  have v: "v = [] \<or> \<not> blank (hd v)" using hd_dropWhile [of blank s] assms by auto
  have t: "trim_blanks s = rev (dropWhile blank (rev v))" by (simp add: trim_blanks_def assms)
  show "length v - length (takeWhile blank (rev (drop 1 v))) = length (trim_blanks s)"
    unfolding takeWhile_rev_drop [of v blank, OF v] length_trim t ..
  show "take (length (trim_blanks s)) v = trim_blanks s"
    unfolding t rev_dropWhile_rev by simp
  then show "length (trim_blanks s) \<le> length v" by (metis length_take min.cobounded1)
qed



text \<open>A carriage return that is not a line end is never passed.\<close>

definition stuck :: "string \<Rightarrow> string \<Rightarrow> bool" where
  "stuck field s \<longleftrightarrow> s \<noteq> [] \<and> hd s = CHR 0x0D \<and> \<not> prefix CRLF s \<and> \<not> has_field field s"

lemma stuck_next: "stuck field s \<Longrightarrow> next_line s = s"
  by (cases s) (auto simp: stuck_def next_line_def strcspn_def)

lemma find_header_stuck: "stuck field s \<Longrightarrow> find_header_value s field = None"
proof -
  have "\<not> stuck field s" if r: "find_header_value s field = Some r" for s field r
  proof (rule find_header_value.raw_induct [of "\<lambda>s field r. \<not> stuck field s", OF _ r])
    fix f s field y
    assume IH: "\<And>s field y. f s field = Some y \<Longrightarrow> \<not> stuck field s"
      and e: "(if s = [] \<or> prefix CRLF s then Some None
        else if mem_case_prefix field s \<and> length field < length s \<and> s ! length field = CHR '':''
        then Some (Some (header_value s field))
        else let t = drop (strcspn s [CHR 0x0D]) s; t = (if prefix CRLF t then drop 2 t else t) in f t field) = Some y"
    show "\<not> stuck field s"
    proof
      assume st: "stuck field s"
      then have n: "\<not> (s = [] \<or> prefix CRLF s)" "\<not> has_field field s" by (auto simp: stuck_def)
      with e stuck_next [OF st] have "f s field = Some y"
        by (auto simp: has_field_def next_line_def Let_def split: if_splits)
      from IH [OF this] st show False by simp
    qed
  qed
  then show "stuck field s \<Longrightarrow> find_header_value s field = None" by (cases "find_header_value s field") auto
qed

text \<open>C37: a carriage return without a line feed, in a line before the field, makes
  \<open>find_header_value\<close> go round for ever: the search never returns.\<close>

theorem bare_cr_never_returns:
  assumes "\<forall>l \<in> set ls. header_line l \<and> \<not> has_field field l" and "CHR 0x0D \<notin> set field"
    and "header_line l" and "\<not> has_field field l" and "c \<noteq> CHR 0x0A" and "field \<noteq> []"
  shows "find_header_value (lines_text ls @ l @ CHR 0x0D # c # t) field = None"
proof -
  have "strcspn (l @ CHR 0x0D # c # t) [CHR 0x0D] = length l"
    using assms(3) by (subst strcspn_def, subst takeWhile_append2) (auto simp: header_line_def)
  then have n: "next_line (l @ CHR 0x0D # c # t) = CHR 0x0D # c # t"
    using assms(5) by (simp add: next_line_def CRLF_def)
  have "tolower (hd field) \<noteq> CHR 0x0D" using assms(2,6) by (cases field) (auto simp: tolower_CR)
  then have "stuck field (CHR 0x0D # c # t)"
    using assms(5,6) by (cases field) (auto simp: stuck_def CRLF_def has_field_def mem_case_prefix_def tolower_CR)
  then have "find_header_value (CHR 0x0D # c # t) field = None" by (rule find_header_stuck)
  with n assms(3,4) has_field_line [OF assms(2), of l "c # t"] not_CRLF_prefix [OF assms(3)]
  have "find_header_value (l @ CHR 0x0D # c # t) field = None"
    by (subst find_header_step) (auto simp: header_line_def)
  with find_header_skip [OF assms(1,2), of "l @ CHR 0x0D # c # t"] show ?thesis by simp
qed

theorem bare_cr_never_returns_witness:
  "find_header_value (''GET / HTTP/1.1'' @ CRLF @ ''A: b'' @ [CHR 0x0D] @ ''c'' @ CRLF @ CRLF) ''Content-Length'' = None"
  using bare_cr_never_returns [of "[''GET / HTTP/1.1'']" "''Content-Length''" "''A: b''" "CHR ''c''" "CRLF @ CRLF"]
  by (simp add: header_line_def has_field_def mem_case_prefix_def tolower_def ctype_defs chr_code_def CRLF_def)

section \<open>Collecting a request\<close>

text \<open>What holds while a request is being received, and what the event handler can rely on.\<close>

definition recv_inv :: "sb_Stream \<Rightarrow> bool" where
  "recv_inv st \<longleftrightarrow> sb_wf (st_recv_buf st) \<and> sb_wf (st_send_buf st) \<and> sb_content (st_send_buf st) = []
     \<and> (st_state st = RECEIVING_HEADER \<and> st_data_idx st = 0 \<and> st_expected_recv_len st = 0
        \<or> st_state st = RECEIVING_REQUEST \<and> st_data_idx st \<le> sb_len (st_recv_buf st)
          \<and> sb_len (st_recv_buf st) < st_expected_recv_len st)"

definition body_bounds :: "sb_Stream \<Rightarrow> bool" where
  "body_bounds st \<longleftrightarrow> st_data_idx st = 0
     \<or> st_data_idx st \<le> sb_len (st_recv_buf st) \<and> st_expected_recv_len st = sb_len (st_recv_buf st)"

definition terminated :: "sb_Buffer \<Rightarrow> bool" where
  "terminated b \<longleftrightarrow> sb_wf b \<and> sb_len b < length (sb_s b) \<and> sb_s b ! sb_len b = NUL"

definition request_ready :: "sb_Stream \<Rightarrow> bool" where
  "request_ready st \<longleftrightarrow> represents st Unsent \<and> terminated (st_recv_buf st) \<and> body_bounds st"

lemma null_terminate_run:
  assumes "sb_wf b"
  shows "run (sb_buffer_null_terminate E b w) (\<lambda>(err, b', w').
     if err = 0 then terminated b' \<and> sb_content b' = sb_content b else err = SB_EOUTOFMEM \<and> sb_wf b' \<and> sb_content b' = sb_content b)"
  unfolding sb_buffer_null_terminate_def run_bind
proof (rule run_mono [OF push_char_run [OF assms]], clarify)
  fix err b' and w' :: 'a
  assume a: "appended (sb_content b) (sb_content b @ [NUL]) (err, b', w')"
  have "terminated (b'\<lparr>sb_len := sb_len b' - 1\<rparr>) \<and> sb_content (b'\<lparr>sb_len := sb_len b' - 1\<rparr>) = sb_content b"
    if "sb_wf b'" "sb_content b' = sb_content b @ [NUL]"
  proof -
    have l: "sb_len b' = Suc (length (sb_content b))" using that length_sb_content [of b'] by simp
    have lt: "length (sb_content b) < length (sb_s b')" using l that(1) by (simp add: sb_wf_def)
    have "take (Suc (length (sb_content b))) (sb_s b') = sb_content b @ [NUL]"
      using that(2) l by (simp add: sb_content_def)
    then have "take (length (sb_content b)) (sb_s b') = sb_content b" "sb_s b' ! length (sb_content b) = NUL"
      using lt by (simp_all add: take_Suc_conv_app_nth)
    with l lt show ?thesis by (simp add: terminated_def sb_wf_def sb_content_def)
  qed
  with a show "run (if err \<noteq> 0 then Some (err, b', w') else Some (SB_ESUCCESS, b'\<lparr>sb_len := sb_len b' - 1\<rparr>, w'))
     (\<lambda>(err, b', w'). if err = 0 then terminated b' \<and> sb_content b' = sb_content b
        else err = SB_EOUTOFMEM \<and> sb_wf b' \<and> sb_content b' = sb_content b)"
    by (auto simp: run_simps appended_def sb_codes split: if_splits)
qed

text \<open>Two handlers that cannot be told apart on requests that are ready, with a method and a path
  that fit the arrays they are read into.\<close>

definition ready_event :: "sb_event \<Rightarrow> sb_Stream \<Rightarrow> bool" where
  "ready_event e st \<longleftrightarrow> (case e of EV_REQUEST meth path \<Rightarrow>
     request_ready st \<and> length meth < 16 \<and> length path < PATH_SIZE | _ \<Rightarrow> True)"

definition agree :: "'w sb_handler \<Rightarrow> 'w sb_handler \<Rightarrow> bool" where
  "agree h h' \<longleftrightarrow> (\<forall>e st w. ready_event e st \<longrightarrow> h e st w = h' e st w)"

lemma agree_sym: "agree h h' \<Longrightarrow> agree h' h"
  by (simp add: agree_def)

lemma scan_request_method: "scan_request tx = Some (m, i, v) \<Longrightarrow> length m < 16"
  by (auto simp: scan_request_def Let_def split: if_splits)

lemma path_length: "length (cstr_of (fst (url_decode s PATH_SIZE))) < PATH_SIZE"
proof -
  have "length (fst (url_decode s PATH_SIZE)) < PATH_SIZE"
    using url_decode_loop_length [of s 511]
    by (cases "url_decode_loop s 511") (simp add: url_decode_def PATH_SIZE_def less_Suc_eq_le)
  then show ?thesis
    unfolding cstr_of_def by (rule le_less_trans [OF length_takeWhile_le])
qed

lemma handle_request_agree:
  assumes h: "agree h h'" and wf: "sb_wf (st_recv_buf st)" and bb: "body_bounds st"
    and snd: "sb_wf (st_send_buf st)" "sb_content (st_send_buf st) = []"
  shows "handle_request E h st w = handle_request E h' st w"
proof -
  obtain err b w1 where n: "sb_buffer_null_terminate E (st_recv_buf st) w = Some (err, b, w1)"
    and t: "err = 0 \<Longrightarrow> terminated b \<and> sb_content b = sb_content (st_recv_buf st)"
    using null_terminate_run [OF wf, of E w] by (auto simp: run_def split: if_splits)
  show ?thesis
  proof (cases "err = 0")
    case False
    with n show ?thesis by (simp add: handle_request_def)
  next
    case True
    let ?st = "st\<lparr>st_state := SENDING_STATUS, st_recv_buf := b\<rparr>"
    have "sb_len b = sb_len (st_recv_buf st)"
      using t [OF True] wf length_sb_content [of b] length_sb_content [of "st_recv_buf st"]
      by (auto simp: terminated_def)
    with bb t [OF True] snd have "request_ready ?st"
      by (auto simp: request_ready_def body_bounds_def represents_def)
    with h have e: "sb_stream_emit h (EV_REQUEST m (cstr_of (fst (url_decode s PATH_SIZE)))) ?st w1
        = sb_stream_emit h' (EV_REQUEST m (cstr_of (fst (url_decode s PATH_SIZE)))) ?st w1"
      if "scan_request tx = Some (m, i, v)" for m i v s tx
      using scan_request_method [OF that] path_length [of s]
      by (simp add: agree_def ready_event_def sb_stream_emit_def)
    show ?thesis
    proof (cases "recv_text ?st 0")
      case None
      with n True show ?thesis by (simp add: handle_request_def Let_def)
    next
      case (Some tx)
      show ?thesis
      proof (cases "scan_request tx")
        case None
        with n True Some show ?thesis by (simp add: handle_request_def Let_def)
      next
        case (Some a)
        with \<open>recv_text ?st 0 = Some tx\<close> n True show ?thesis
          by (cases a) (simp add: handle_request_def Let_def e)
      qed
    qed
  qed
qed

lemma recv_byte_agree:
  assumes h: "agree h h'" and inv: "recv_inv st"
  shows "recv_byte E h c st w = recv_byte E h' c st w"
    and "recv_byte E h c st w = Some (RGo, st', w') \<Longrightarrow> recv_inv st'"
proof -
  have wf: "sb_wf (st_recv_buf st)" and snd: "sb_wf (st_send_buf st)" "sb_content (st_send_buf st) = []"
    using inv by (auto simp: recv_inv_def)
  obtain err b w1 where p: "sb_buffer_push_char E c (st_recv_buf st) w = Some (err, b, w1)"
    and a: "appended (sb_content (st_recv_buf st)) (sb_content (st_recv_buf st) @ [c]) (err, b, w1)"
    using push_char_run [OF wf, of E c w] by (auto simp: run_def)
  have "recv_byte E h c st w = recv_byte E h' c st w
    \<and> (recv_byte E h c st w = Some (RGo, st', w') \<longrightarrow> recv_inv st')"
  proof (cases "err = 0")
    case False
    with p show ?thesis by (simp add: recv_byte_def)
  next
    case err: True
    with a have b: "sb_wf b" "sb_len b = Suc (sb_len (st_recv_buf st))"
      using wf length_sb_content [of b] length_sb_content [of "st_recv_buf st"] by (auto simp: appended_def)
    let ?st = "st\<lparr>st_recv_buf := b\<rparr>"
    show ?thesis
    proof (cases "header_complete ?st")
      case False
      have bb: "body_bounds ?st" if "st_expected_recv_len st = sb_len b"
        using that inv b by (auto simp: recv_inv_def body_bounds_def)
      have eq: "handle_request E h ?st w1 = handle_request E h' ?st w1" if "st_expected_recv_len st = sb_len b"
        by (rule handle_request_agree [OF h _ bb [OF that]]) (use b snd in simp_all)
      have "recv_inv ?st" if "st_expected_recv_len st \<noteq> sb_len b"
        using that inv b by (auto simp: recv_inv_def)
      with False p err eq show ?thesis
        by (cases "st_expected_recv_len st = sb_len b")
          (auto simp: recv_byte_def sb_codes bind_eq_Some_conv Let_def)
    next
      case True
      let ?st2 = "st\<lparr>st_recv_buf := b, st_state := RECEIVING_REQUEST\<rparr>"
      have di: "st_data_idx st = 0" using True inv by (auto simp: recv_inv_def header_complete_def Let_def)
      obtain err2 b2 w2 where n: "sb_buffer_null_terminate E b w1 = Some (err2, b2, w2)"
        and t: "err2 = 0 \<Longrightarrow> terminated b2 \<and> sb_content b2 = sb_content b"
        using null_terminate_run [OF b(1), of E w1] by (auto simp: run_def split: if_splits)
      let ?st3 = "?st2\<lparr>st_recv_buf := b2\<rparr>"
      show ?thesis
      proof (cases "err2 = 0")
        case False
        with True p err n show ?thesis by (simp add: recv_byte_def)
      next
        case err2: True
        with t have b2: "sb_wf b2" by (simp add: terminated_def)
        let ?st4 = "\<lambda>k. ?st3\<lparr>st_expected_recv_len := sb_len b2 + k, st_data_idx := sb_len b2\<rparr>"
        have eq1: "handle_request E h ?st3 w2 = handle_request E h' ?st3 w2"
          by (rule handle_request_agree [OF h]) (use b2 snd di in \<open>simp_all add: body_bounds_def\<close>)
        have eq2: "handle_request E h (?st4 0) w2 = handle_request E h' (?st4 0) w2"
          by (rule handle_request_agree [OF h]) (use b2 snd in \<open>simp_all add: body_bounds_def\<close>)
        have inv2: "0 < k \<Longrightarrow> recv_inv (?st4 k)" for k
          using b2 snd by (simp add: recv_inv_def)
        show ?thesis
        proof (cases "recv_text ?st3 0 \<bind> (\<lambda>text. find_header_value text ''Content-Length'')")
          case None
          with True p err n err2 show ?thesis
            by (cases "recv_text ?st3 0") (simp_all add: recv_byte_def Let_def)
        next
          case (Some s)
          then obtain tx where s: "recv_text ?st3 0 = Some tx"
            "find_header_value tx ''Content-Length'' = Some s" by (auto simp: bind_eq_Some_conv)
          consider "s = None" | "s \<noteq> None" "str_to_uint s = 0" | "s \<noteq> None" "0 < str_to_uint s" by auto
          then show ?thesis
            by cases (use True p err n err2 s eq1 eq2 inv2 in
              \<open>auto simp: recv_byte_def sb_codes bind_eq_Some_conv Let_def\<close>)
        qed
      qed
    qed
  qed
  then show "recv_byte E h c st w = recv_byte E h' c st w"
    and "recv_byte E h c st w = Some (RGo, st', w') \<Longrightarrow> recv_inv st'" by blast+
qed

lemma recv_bytes_agree:
  assumes h: "agree h h'"
  shows "recv_inv st \<Longrightarrow> recv_bytes E h bs st w = recv_bytes E h' bs st w
    \<and> (\<forall>st' w'. recv_bytes E h bs st w = Some (RGo, st', w') \<longrightarrow> recv_inv st')"
proof (induction bs arbitrary: st w)
  case (Cons c cs)
  note e = recv_byte_agree(1) [OF h Cons.prems, of E c w, symmetric]
  show ?case
  proof (cases "recv_byte E h c st w")
    case None
    with e show ?thesis by simp
  next
    case (Some x)
    obtain r st1 w1 where x: "x = (r, st1, w1)" by (metis prod_cases3)
    show ?thesis
    proof (cases r)
      case RGo
      with recv_byte_agree(2) [OF h Cons.prems, of E c w st1 w1] Some x have "recv_inv st1" by simp
      from Cons.IH [OF this, of w1] e Some x RGo show ?thesis by simp
    next
      case (RRet err)
      with e Some x show ?thesis by simp
    qed
  qed
qed simp

lemma recv_inv_activity [simp]: "recv_inv (st\<lparr>st_last_activity := n\<rparr>) = recv_inv st"
  by (simp add: recv_inv_def)

text \<open>The unfolded function, with the recursive call as a parameter.\<close>

definition recv_body ::
    "('w sb_env \<Rightarrow> 'w sb_handler \<Rightarrow> 'w stream_op) \<Rightarrow> 'w sb_env \<Rightarrow> 'w sb_handler \<Rightarrow> 'w stream_op" where
  "recv_body f E h st w =
     (case se_recv E (st_sockfd st) RECV_SIZE w of ((sz, bs, wouldblock), w) \<Rightarrow>
        if sz \<le> 0 then
          Some (SB_ESUCCESS, if sz = 0 \<or> \<not> wouldblock then sb_stream_close st else st, w)
        else if int (length bs) \<noteq> sz \<or> RECV_SIZE < length bs then None
        else do {
          let st = st\<lparr>st_last_activity := se_now E w\<rparr>;
          (r, st, w) \<leftarrow> recv_bytes E h bs st w;
          case r of RGo \<Rightarrow> f E h st w | RRet err \<Rightarrow> Some (err, st, w) })"

lemma recv_body: "sb_stream_recv E h st w = recv_body sb_stream_recv E h st w"
  by (subst sb_stream_recv.simps) (simp add: recv_body_def)

lemma recv_body_agree:
  assumes h: "agree h h'" and inv: "recv_inv st" and r: "recv_body f E h st w = Some r"
    and f: "\<And>st w. recv_inv st \<Longrightarrow> f E h st w = Some r \<Longrightarrow> g E h' st w = Some r"
  shows "recv_body g E h' st w = Some r"
proof -
  obtain sz bs wb w1 where s: "se_recv E (st_sockfd st) RECV_SIZE w = ((sz, bs, wb), w1)" by (metis prod.exhaust)
  show ?thesis
  proof (cases "sz \<le> 0 \<or> int (length bs) \<noteq> sz \<or> RECV_SIZE < length bs")
    case True
    with r s show ?thesis by (auto simp: recv_body_def split: if_splits)
  next
    case False
    let ?st = "st\<lparr>st_last_activity := se_now E w1\<rparr>"
    from inv have i: "recv_inv ?st" by simp
    from r s False obtain q st2 w2 where b: "recv_bytes E h bs ?st w1 = Some (q, st2, w2)"
      and k: "(case q of RGo \<Rightarrow> f E h st2 w2 | RRet err \<Rightarrow> Some (err, st2, w2)) = Some r"
      by (auto simp: recv_body_def Let_def bind_eq_Some_conv)
    from recv_bytes_agree [OF h i, of E bs w1] b have b': "recv_bytes E h' bs ?st w1 = Some (q, st2, w2)"
      and "q = RGo \<Longrightarrow> recv_inv st2" by auto
    with k s False show ?thesis
      by (cases q) (auto simp: recv_body_def Let_def intro: f)
  qed
qed

lemma stream_recv_agree1:
  assumes h: "agree h h'" and r: "sb_stream_recv E h st w = Some r" and inv: "recv_inv st"
  shows "sb_stream_recv E h' st w = Some r"
proof -
  define P where "P F hh s v x \<longleftrightarrow> (F = E \<longrightarrow> hh = h \<longrightarrow> recv_inv s \<longrightarrow> sb_stream_recv E h' s v = Some x)" for F hh s v x
  have "P E h st w r"
  proof (rule sb_stream_recv.raw_induct [of P, OF _ r])
    fix f F hh s v x
    assume IH: "\<And>E h st w y. f E h st w = Some y \<Longrightarrow> P E h st w y"
      and e: "(case se_recv F (st_sockfd s) RECV_SIZE v of ((sz, bs, wouldblock), w) \<Rightarrow>
        if sz \<le> 0 then
          Some (SB_ESUCCESS, if sz = 0 \<or> \<not> wouldblock then sb_stream_close s else s, w)
        else if int (length bs) \<noteq> sz \<or> RECV_SIZE < length bs then None
        else do {
          let st = s\<lparr>st_last_activity := se_now F w\<rparr>;
          (r, st, w) \<leftarrow> recv_bytes F hh bs st w;
          case r of RGo \<Rightarrow> f F hh st w | RRet err \<Rightarrow> Some (err, st, w) }) = Some x"
    have b: "recv_body f F hh s v = Some x" using e by (simp only: recv_body_def)
    show "P F hh s v x" unfolding P_def
    proof (intro impI)
      assume q: "F = E" "hh = h" "recv_inv s"
      show "sb_stream_recv E h' s v = Some x" unfolding recv_body [of E h']
        by (rule recv_body_agree [OF h q(3) b [unfolded q(1,2)]]) (use IH in \<open>auto simp: P_def\<close>)
    qed
  qed
  with inv show ?thesis by (simp add: P_def)
qed

lemma stream_recv_agree:
  assumes h: "agree h h'" and inv: "recv_inv st"
  shows "sb_stream_recv E h st w = sb_stream_recv E h' st w"
proof (cases "sb_stream_recv E h st w")
  case None
  then show ?thesis
    using stream_recv_agree1 [OF agree_sym [OF h] _ inv, of E w] by (cases "sb_stream_recv E h' st w") auto
next
  case (Some r)
  with stream_recv_agree1 [OF h Some inv] show ?thesis by simp
qed

text \<open>A handler behind a check that the request is ready.\<close>

definition checked_handler :: "'w sb_handler \<Rightarrow> 'w sb_handler" where
  "checked_handler h e st w = (if ready_event e st then h e st w else None)"

lemma recv_inv_new: "sb_stream_new E fd w = (Some st, w') \<Longrightarrow> recv_inv st"
  by (auto simp: sb_stream_new_def recv_inv_def split: prod.splits bool.splits)



end
