(* ===== verification/Streams.thy ===== *)
theory Streams
  imports Request
begin

text \<open>
  The server object of sandbird.c: the doubly linked list of connections, which the accept loop
  and the connection threads change under one mutex, the accept loop, and the start and end of
  the server.  A connection has an address; the heap maps it to its links and its stream, and
  reading through an address that was freed, or through \<open>NULL\<close>, is \<open>None\<close>.  The list refines the
  sequence of the live connections in the order in which they were accepted.
\<close>

section \<open>The list of streams\<close>

type_synonym addr = nat

record stream_node =
  nd_prev :: "addr option"
  nd_next :: "addr option"
  nd_stream :: sb_Stream

record sb_Server =
  sv_streams :: "addr option"
  sv_heap :: "addr \<Rightarrow> stream_node option"
  sv_sockfd :: cint
  sv_now :: u64
  sv_timeout :: nat
  sv_max_lifetime :: nat
  sv_max_request_size :: nat

definition node_update :: "addr \<Rightarrow> (stream_node \<Rightarrow> stream_node) \<Rightarrow> sb_Server \<Rightarrow> sb_Server option" where
  "node_update i f S = (case sv_heap S i of None \<Rightarrow> None | Some n \<Rightarrow> Some (S\<lparr>sv_heap := (sv_heap S)(i \<mapsto> f n)\<rparr>))"

text \<open>\<open>while (st2->next) st2 = st2->next;\<close>\<close>

partial_function (option) last_stream :: "(addr \<Rightarrow> stream_node option) \<Rightarrow> addr \<Rightarrow> addr option" where
  "last_stream H i = do {
     n \<leftarrow> H i;
     case nd_next n of None \<Rightarrow> Some i | Some j \<Rightarrow> last_stream H j }"

definition sb_stream_link :: "addr \<Rightarrow> sb_Server \<Rightarrow> sb_Server option" where
  "sb_stream_link st S =
     (case sv_streams S of
        Some st2 \<Rightarrow> do {
          st2 \<leftarrow> last_stream (sv_heap S) st2;
          S \<leftarrow> node_update st2 (\<lambda>n. n\<lparr>nd_next := Some st\<rparr>) S;
          node_update st (\<lambda>n. n\<lparr>nd_prev := Some st2\<rparr>) S }
      | None \<Rightarrow> Some (S\<lparr>sv_streams := Some st\<rparr>))"

definition sb_stream_unlink :: "addr \<Rightarrow> sb_Server \<Rightarrow> sb_Server option" where
  "sb_stream_unlink st S = do {
     n \<leftarrow> sv_heap S st;
     S \<leftarrow> (case nd_next n of None \<Rightarrow> Some S | Some x \<Rightarrow> node_update x (\<lambda>m. m\<lparr>nd_prev := nd_prev n\<rparr>) S);
     n \<leftarrow> sv_heap S st;
     S \<leftarrow> (case nd_prev n of None \<Rightarrow> Some S | Some p \<Rightarrow> node_update p (\<lambda>m. m\<lparr>nd_next := nd_next n\<rparr>) S);
     n \<leftarrow> sv_heap S st;
     Some (if sv_streams S = Some st then S\<lparr>sv_streams := nd_next n\<rparr> else S) }"

text \<open>The list that the links make up: \<open>chain H p xs q\<close> are the nodes \<open>xs\<close> between \<open>p\<close> and \<open>q\<close>.\<close>

fun chain :: "(addr \<Rightarrow> stream_node option) \<Rightarrow> addr option \<Rightarrow> addr list \<Rightarrow> addr option \<Rightarrow> bool" where
  "chain H p [] q = True"
| "chain H p (x # xs) q \<longleftrightarrow>
     (\<exists>n. H x = Some n \<and> nd_prev n = p \<and> nd_next n = (case xs of [] \<Rightarrow> q | y # ys \<Rightarrow> Some y))
       \<and> chain H (Some x) xs q"

definition first_of :: "addr list \<Rightarrow> addr option \<Rightarrow> addr option" where
  "first_of xs q = (case xs of [] \<Rightarrow> q | y # ys \<Rightarrow> Some y)"

definition last_of :: "addr list \<Rightarrow> addr option \<Rightarrow> addr option" where
  "last_of xs p = (if xs = [] then p else Some (last xs))"

definition stream_list :: "sb_Server \<Rightarrow> addr list \<Rightarrow> bool" where
  "stream_list S xs \<longleftrightarrow> distinct xs \<and> sv_streams S = first_of xs None \<and> chain (sv_heap S) None xs None"

lemma first_of_simps [simp]: "first_of [] q = q" "first_of (x # xs) q = Some x"
  by (simp_all add: first_of_def)

lemma last_of_simps [simp]: "last_of [] p = p" "last_of (xs @ [x]) p = Some x" "last_of (x # xs) p = last_of xs (Some x)"
  by (simp_all add: last_of_def)

lemma chain_Cons [simp]:
  "chain H p (x # xs) q \<longleftrightarrow> (\<exists>n. H x = Some n \<and> nd_prev n = p \<and> nd_next n = first_of xs q) \<and> chain H (Some x) xs q"
  by (simp add: first_of_def)

declare chain.simps(2) [simp del]

lemma chain_append:
  "chain H p (xs @ ys) q \<longleftrightarrow> chain H p xs (first_of ys q) \<and> chain H (last_of xs p) ys q"
proof (induction xs arbitrary: p)
  case (Cons x xs)
  have "first_of (xs @ ys) q = first_of xs (first_of ys q)" by (cases xs) auto
  with Cons show ?case by simp
qed simp

lemma chain_upd_other: "i \<notin> set xs \<Longrightarrow> chain (H(i := v)) p xs q = chain H p xs q"
  by (induction xs arbitrary: p) auto

lemma chain_dom: "chain H p xs q \<Longrightarrow> set xs \<subseteq> dom H"
  by (induction xs arbitrary: p) auto

text \<open>The search for the end of the list ends at its last element.\<close>

lemma last_stream_chain: "chain H p (xs @ [x]) None \<Longrightarrow> last_stream H (hd (xs @ [x])) = Some x"
proof (induction xs arbitrary: p)
  case Nil
  then show ?case by (subst last_stream.simps) auto
next
  case (Cons a xs)
  then obtain n where "H a = Some n" "nd_next n = first_of (xs @ [x]) None" "chain H (Some a) (xs @ [x]) None" by auto
  moreover have "first_of (xs @ [x]) None = Some (hd (xs @ [x]))" by (cases xs) auto
  ultimately show ?case using Cons.IH [of "Some a"] by (subst last_stream.simps) simp
qed

lemma chain_set_next:
  assumes "chain H p (xs @ [x]) q" and "H x = Some n" and "x \<notin> set xs"
  shows "chain (H(x \<mapsto> n\<lparr>nd_next := q'\<rparr>)) p (xs @ [x]) q'"
  using assms by (simp add: chain_append chain_upd_other)

lemma chain_set_prev:
  assumes "chain H p (x # xs) q" and "H x = Some n" and "x \<notin> set xs"
  shows "chain (H(x \<mapsto> n\<lparr>nd_prev := p'\<rparr>)) p' (x # xs) q"
  using assms by (simp add: chain_upd_other)

lemma link_refines:
  assumes "stream_list S xs" and "st \<notin> set xs" and "sv_heap S st = Some n" "nd_prev n = None" "nd_next n = None"
  shows "\<exists>S'. sb_stream_link st S = Some S' \<and> stream_list S' (xs @ [st]) \<and> dom (sv_heap S') = dom (sv_heap S)"
proof (cases xs rule: rev_cases)
  case Nil
  with assms show ?thesis by (simp add: sb_stream_link_def stream_list_def)
next
  case (snoc ys y)
  let ?H = "sv_heap S"
  from assms(1) snoc have c: "chain ?H None (ys @ [y]) None" and s: "sv_streams S = Some (hd (ys @ [y]))"
    and d: "distinct (ys @ [y])" by (cases ys; auto simp: stream_list_def)+
  from c obtain m where m: "?H y = Some m" by (auto simp: chain_append)
  have ny: "st \<noteq> y" "y \<notin> set ys" "st \<notin> set ys" using assms(2) snoc d by auto
  let ?H' = "?H(y \<mapsto> m\<lparr>nd_next := Some st\<rparr>, st \<mapsto> n\<lparr>nd_prev := Some y\<rparr>)"
  have l: "sb_stream_link st S = Some (S\<lparr>sv_heap := ?H'\<rparr>)"
    using s last_stream_chain [OF c] m assms(3) ny by (simp add: sb_stream_link_def node_update_def)
  have "chain ?H' None ((ys @ [y]) @ [st]) None"
    using chain_set_next [OF c m ny(2), of "Some st"] assms(3-5) ny
    by (simp only: chain_append [of _ _ "ys @ [y]"]) (simp add: chain_upd_other)
  then have "stream_list (S\<lparr>sv_heap := ?H'\<rparr>) (xs @ [st])"
    using assms(2) snoc d s by (cases ys) (simp_all add: stream_list_def)
  moreover have "dom ?H' = dom ?H" using m assms(3) by (simp add: insert_absorb domI)
  ultimately show ?thesis using l by auto
qed

text \<open>Unlinking sets the back link of the next node and the forward link of the previous one.\<close>

lemma relink_prev:
  assumes "chain (sv_heap S) p zs q" and "distinct zs" and "q = None"
  shows "\<exists>S'. (case first_of zs q of None \<Rightarrow> Some S | Some x \<Rightarrow> node_update x (\<lambda>m. m\<lparr>nd_prev := p'\<rparr>) S) = Some S'
    \<and> chain (sv_heap S') p' zs q \<and> (\<forall>i. i \<notin> set zs \<longrightarrow> sv_heap S' i = sv_heap S i)
    \<and> dom (sv_heap S') = dom (sv_heap S) \<and> sv_streams S' = sv_streams S"
proof (cases zs)
  case (Cons z zs')
  with assms obtain n where n: "sv_heap S z = Some n" by auto
  with chain_set_prev [OF assms(1) [unfolded Cons] n] assms(2) Cons show ?thesis
    by (simp add: node_update_def insert_absorb domI)
qed (use assms in simp)

lemma relink_next:
  assumes "chain (sv_heap S) None ys q" and "distinct ys"
  shows "\<exists>S'. (case last_of ys None of None \<Rightarrow> Some S | Some y \<Rightarrow> node_update y (\<lambda>m. m\<lparr>nd_next := q'\<rparr>) S) = Some S'
    \<and> chain (sv_heap S') None ys q' \<and> (\<forall>i. i \<notin> set ys \<longrightarrow> sv_heap S' i = sv_heap S i)
    \<and> dom (sv_heap S') = dom (sv_heap S) \<and> sv_streams S' = sv_streams S"
proof (cases ys rule: rev_cases)
  case (snoc ys' y)
  with assms(1) obtain n where n: "sv_heap S y = Some n" by (auto simp: chain_append)
  with chain_set_next [OF assms(1) [unfolded snoc] n] assms(2) snoc show ?thesis
    by (simp add: node_update_def insert_absorb domI)
qed (use assms in simp)

lemma chain_cong: "(\<And>i. i \<in> set xs \<Longrightarrow> H i = H' i) \<Longrightarrow> chain H p xs q = chain H' p xs q"
  by (induction xs arbitrary: p) auto

lemma unlink_refines:
  assumes "stream_list S xs" and "st \<in> set xs"
  shows "\<exists>S'. sb_stream_unlink st S = Some S' \<and> stream_list S' (remove1 st xs) \<and> dom (sv_heap S') = dom (sv_heap S)"
proof -
  obtain ys zs where xs: "xs = ys @ st # zs" by (meson assms(2) split_list)
  from assms(1) xs have d: "distinct (ys @ st # zs)" and c: "chain (sv_heap S) None (ys @ st # zs) None"
    and f: "sv_streams S = first_of (ys @ st # zs) None" by (auto simp: stream_list_def)
  then have cy: "chain (sv_heap S) None ys (Some st)" and cz: "chain (sv_heap S) (Some st) zs None"
    and "\<exists>n. sv_heap S st = Some n \<and> nd_prev n = last_of ys None \<and> nd_next n = first_of zs None"
    by (simp_all add: chain_append)
  then obtain n where n: "sv_heap S st = Some n" "nd_prev n = last_of ys None" "nd_next n = first_of zs None" by blast
  from d have dy: "distinct ys" and dz: "distinct zs" by auto
  obtain S1 where s1: "(case first_of zs None of None \<Rightarrow> Some S | Some x \<Rightarrow> node_update x (\<lambda>m. m\<lparr>nd_prev := last_of ys None\<rparr>) S) = Some S1"
    and c1: "chain (sv_heap S1) (last_of ys None) zs None" and o1: "\<forall>i. i \<notin> set zs \<longrightarrow> sv_heap S1 i = sv_heap S i"
    and d1: "dom (sv_heap S1) = dom (sv_heap S)" "sv_streams S1 = sv_streams S"
    using relink_prev [OF cz dz refl, of "last_of ys None"] by blast
  have "chain (sv_heap S1) None ys (Some st)"
    using cy by (rule chain_cong [THEN iffD1, rotated]) (use d o1 in auto)
  from relink_next [OF this dy, of "first_of zs None"] obtain S2 where
    s2: "(case last_of ys None of None \<Rightarrow> Some S1 | Some y \<Rightarrow> node_update y (\<lambda>m. m\<lparr>nd_next := first_of zs None\<rparr>) S1) = Some S2"
    and c2: "chain (sv_heap S2) None ys (first_of zs None)" and o2: "\<forall>i. i \<notin> set ys \<longrightarrow> sv_heap S2 i = sv_heap S1 i"
    and d2: "dom (sv_heap S2) = dom (sv_heap S1)" "sv_streams S2 = sv_streams S1" by blast
  have n1: "sv_heap S1 st = Some n" "sv_heap S2 st = Some n" using d o1 o2 n(1) by auto
  have "chain (sv_heap S2) (last_of ys None) zs None"
    using c1 by (rule chain_cong [THEN iffD1, rotated]) (use d o2 in auto)
  with c2 have ch: "chain (sv_heap S2) None (ys @ zs) None" by (simp add: chain_append)
  let ?S = "if sv_streams S2 = Some st then S2\<lparr>sv_streams := first_of zs None\<rparr> else S2"
  have "sb_stream_unlink st S = Some ?S"
    by (simp add: sb_stream_unlink_def n n1 s1 s2 cong: option.case_cong)
  moreover have "sv_streams ?S = first_of (ys @ zs) None"
    using d f d1 d2 by (cases ys) auto
  then have "stream_list ?S (remove1 st xs)"
    using d ch xs by (auto simp: stream_list_def remove1_append)
  ultimately show ?thesis using d1 d2 by auto
qed

section \<open>Connections come and go\<close>

text \<open>What the accept loop does for a new connection, and a connection's thread at its end: each
  holds the mutex while it changes the list, so that the changes follow one another.\<close>

definition stream_accept :: "addr \<Rightarrow> sb_Stream \<Rightarrow> sb_Server \<Rightarrow> sb_Server option" where
  "stream_accept i st S =
     sb_stream_link i (S\<lparr>sv_heap := (sv_heap S)(i \<mapsto> \<lparr>nd_prev = None, nd_next = None, nd_stream = st\<rparr>)\<rparr>)"

definition stream_finish :: "addr \<Rightarrow> sb_Server \<Rightarrow> sb_Server option" where
  "stream_finish i S = do {
     S \<leftarrow> sb_stream_unlink i S;
     Some (S\<lparr>sv_heap := (sv_heap S)(i := None)\<rparr>) }"

datatype conn_event = Accepted addr sb_Stream | Finished addr

fun conn_step :: "conn_event \<Rightarrow> sb_Server \<Rightarrow> sb_Server option" where
  "conn_step (Accepted i st) S = stream_accept i st S"
| "conn_step (Finished i) S = stream_finish i S"

fun conn_run :: "conn_event list \<Rightarrow> sb_Server \<Rightarrow> sb_Server option" where
  "conn_run [] S = Some S"
| "conn_run (e # es) S = do { S \<leftarrow> conn_step e S; conn_run es S }"

text \<open>The abstract state is the sequence of live connections; memory that is in use is not
  allocated again, and a connection ends once.\<close>

fun live_step :: "conn_event \<Rightarrow> addr list \<Rightarrow> addr list" where
  "live_step (Accepted i st) xs = xs @ [i]"
| "live_step (Finished i) xs = remove1 i xs"

fun possible :: "conn_event \<Rightarrow> addr list \<Rightarrow> bool" where
  "possible (Accepted i st) xs = (i \<notin> set xs)"
| "possible (Finished i) xs = (i \<in> set xs)"

fun possible_run :: "conn_event list \<Rightarrow> addr list \<Rightarrow> bool" where
  "possible_run [] xs = True"
| "possible_run (e # es) xs = (possible e xs \<and> possible_run es (live_step e xs))"

definition serves :: "sb_Server \<Rightarrow> addr list \<Rightarrow> bool" where
  "serves S xs \<longleftrightarrow> stream_list S xs \<and> dom (sv_heap S) = set xs"

lemma accept_serves:
  assumes "serves S xs" and "i \<notin> set xs"
  shows "\<exists>S'. stream_accept i st S = Some S' \<and> serves S' (xs @ [i])"
proof -
  let ?n = "\<lparr>nd_prev = None, nd_next = None, nd_stream = st\<rparr>"
  let ?S = "S\<lparr>sv_heap := (sv_heap S)(i \<mapsto> ?n)\<rparr>"
  have "stream_list ?S xs" using assms by (simp add: serves_def stream_list_def chain_upd_other)
  from link_refines [OF this assms(2), of ?n] obtain S' where
    "sb_stream_link i ?S = Some S'" "stream_list S' (xs @ [i])" "dom (sv_heap S') = dom (sv_heap ?S)" by auto
  with assms(1) show ?thesis by (auto simp: stream_accept_def serves_def)
qed

lemma finish_serves:
  assumes "serves S xs" and "i \<in> set xs"
  shows "\<exists>S'. stream_finish i S = Some S' \<and> serves S' (remove1 i xs)"
proof -
  from assms have l: "stream_list S xs" and d: "distinct xs" by (auto simp: serves_def stream_list_def)
  from unlink_refines [OF l assms(2)] obtain S' where
    s: "sb_stream_unlink i S = Some S'" "stream_list S' (remove1 i xs)" "dom (sv_heap S') = dom (sv_heap S)" by auto
  let ?S = "S'\<lparr>sv_heap := (sv_heap S')(i := None)\<rparr>"
  have "stream_list ?S (remove1 i xs)"
    using s(2) d by (simp add: stream_list_def chain_upd_other)
  moreover have "dom (sv_heap ?S) = set (remove1 i xs)"
    using s(3) assms(1) d by (auto simp: serves_def)
  ultimately show ?thesis using s(1) by (simp add: stream_finish_def serves_def)
qed

lemma conn_step_serves:
  "serves S xs \<Longrightarrow> possible e xs \<Longrightarrow> \<exists>S'. conn_step e S = Some S' \<and> serves S' (live_step e xs)"
  by (cases e) (simp_all add: accept_serves finish_serves)

lemma conn_run_serves:
  "serves S xs \<Longrightarrow> possible_run es xs \<Longrightarrow> \<exists>S'. conn_run es S = Some S' \<and> serves S' (fold live_step es xs)"
proof (induction es arbitrary: S xs)
  case (Cons e es)
  then obtain S1 where "conn_step e S = Some S1" "serves S1 (live_step e xs)"
    using conn_step_serves [of S xs e] by auto
  with Cons.IH [of S1 "live_step e xs"] Cons.prems show ?case by auto
qed simp

section \<open>The server\<close>

definition INVALID_SOCKET :: cint where "INVALID_SOCKET = -1"

record sb_Options =
  op_host :: "string option"
  op_port :: "string option"
  op_timeout :: "string option"
  op_max_lifetime :: "string option"
  op_max_request_size :: "string option"

text \<open>\<open>ve_erange\<close> is whether \<open>errno\<close> holds \<open>ERANGE\<close>, and \<open>ve_address\<close> the address of the memory
  that was allocated last.\<close>

record 'w srv_env =
  ve_env :: "'w sb_env"
  ve_erange :: "'w \<Rightarrow> bool"
  ve_inet_pton :: "string \<Rightarrow> 'w \<Rightarrow> cint \<times> 'w"
  ve_socket :: "'w \<Rightarrow> cint \<times> 'w"
  ve_getfl :: "cint \<Rightarrow> 'w \<Rightarrow> cint \<times> 'w"
  ve_setfl :: "cint \<Rightarrow> cint \<Rightarrow> 'w \<Rightarrow> cint \<times> 'w"
  ve_O_NONBLOCK :: cint
  ve_setsockopt :: "cint \<Rightarrow> 'w \<Rightarrow> cint \<times> 'w"
  ve_bind :: "cint \<Rightarrow> nat \<Rightarrow> 'w \<Rightarrow> cint \<times> 'w"
  ve_listen :: "cint \<Rightarrow> nat \<Rightarrow> 'w \<Rightarrow> cint \<times> 'w"
  ve_mutex_init :: "'w \<Rightarrow> cint \<times> 'w"
  ve_accept :: "cint \<Rightarrow> 'w \<Rightarrow> cint \<times> 'w"
  ve_address :: "(addr \<Rightarrow> stream_node option) \<Rightarrow> 'w \<Rightarrow> addr"
  ve_pthread_create :: "addr \<Rightarrow> 'w \<Rightarrow> cint \<times> 'w"

definition set_socket_blocking :: "'w srv_env \<Rightarrow> cint \<Rightarrow> bool \<Rightarrow> 'w \<Rightarrow> cint \<times> 'w" where
  "set_socket_blocking V sockfd flag w =
     (case ve_getfl V sockfd w of (flags, w) \<Rightarrow>
        if sint flags < 0 then (SB_EFAILURE, w)
        else
          let flags = flags AND NOT (ve_O_NONBLOCK V);
              flags = (if \<not> flag then flags OR ve_O_NONBLOCK V else flags)
          in case ve_setfl V sockfd flags w of (ret, w) \<Rightarrow>
               (if sint ret < 0 then SB_EFAILURE else SB_ESUCCESS, w))"

text \<open>\<open>strtol\<close> with base 0: how much was read, the value, and whether it was out of range.\<close>

definition strtol0 :: "string \<Rightarrow> nat \<times> int \<times> bool" where
  "strtol0 str =
     (let s = dropWhile isspace str;
          neg = (s \<noteq> [] \<and> hd s = CHR ''-'');
          s = (if s \<noteq> [] \<and> (hd s = CHR ''-'' \<or> hd s = CHR ''+'') then tl s else s);
          hex = (3 \<le> length s \<and> s ! 0 = CHR ''0'' \<and> tolower (s ! 1) = CHR ''x'' \<and> isxdigit (s ! 2));
          base = (if hex then 16 else if s \<noteq> [] \<and> hd s = CHR ''0'' then 8 else 10);
          s = (if hex then drop 2 s else s);
          ds = takeWhile (\<lambda>c. isxdigit c \<and> hex_val c < base) s;
          n = fold (\<lambda>c n. n * int base + int (hex_val c)) ds 0;
          v = (if neg then - n else n)
      in if ds = [] then (0, 0, False)
         else (length str - length (drop (length ds) s),
               max (- (2 ^ 63)) (min (2 ^ 63 - 1) v), v < - (2 ^ 63) \<or> 2 ^ 63 \<le> v))"

text \<open>\<open>sb_close_server\<close> moves to the next stream before it destroys one.\<close>

partial_function (option) close_streams ::
    "'w sb_env \<Rightarrow> 'w sb_handler \<Rightarrow> addr option \<Rightarrow> (addr \<Rightarrow> stream_node option) \<Rightarrow> 'w \<Rightarrow> 'w option" where
  "close_streams E h st H w =
     (case st of
        None \<Rightarrow> Some w
      | Some i \<Rightarrow> do {
          n \<leftarrow> H i;
          j \<leftarrow> nd_next n;
          m \<leftarrow> H j;
          w \<leftarrow> sb_stream_destroy E h (nd_stream m) w;
          close_streams E h (Some j) (H(j := None)) w })"

definition sb_close_server :: "'w sb_env \<Rightarrow> 'w sb_handler \<Rightarrow> sb_Server \<Rightarrow> 'w \<Rightarrow> 'w option" where
  "sb_close_server E h S w = do {
     w \<leftarrow> close_streams E h (sv_streams S) (sv_heap S) w;
     Some (if sv_sockfd S \<noteq> INVALID_SOCKET then se_close E (sv_sockfd S) (se_shutdown E (sv_sockfd S) w) else w) }"

definition USHRT_MAX :: int where "USHRT_MAX = 65535"

text \<open>The port to bind, or \<open>None\<close> for the ways to \<open>fail\<close> before a socket is made.\<close>

definition server_port :: "'w srv_env \<Rightarrow> sb_Options \<Rightarrow> 'w \<Rightarrow> nat option \<times> 'w" where
  "server_port V opt w =
     (case op_port opt of
        None \<Rightarrow> (None, w)
      | Some p \<Rightarrow>
          (case strtol0 p of (len, port, oor) \<Rightarrow>
             if len = 0 \<or> oor \<or> ve_erange V w \<or> \<not> (0 < port \<and> port \<le> USHRT_MAX) then (None, w)
             else case op_host opt of
               None \<Rightarrow> (Some (nat port), w)
             | Some host \<Rightarrow>
                 (case ve_inet_pton V host w of (r, w) \<Rightarrow> (if r \<noteq> 1 then None else Some (nat port), w))))"

definition sb_new_server ::
    "'w srv_env \<Rightarrow> 'w sb_handler \<Rightarrow> sb_Options \<Rightarrow> 'w \<Rightarrow> (sb_Server option \<times> 'w) option" where
  "sb_new_server V h opt w =
     (case se_malloc (ve_env V) w of
        (False, w) \<Rightarrow> Some (None, w)
      | (True, w) \<Rightarrow>
          let S = \<lparr>sv_streams = None, sv_heap = (\<lambda>i. None), sv_sockfd = INVALID_SOCKET, sv_now = 0,
                   sv_timeout = (if op_timeout opt \<noteq> None then str_to_uint (op_timeout opt) else 30000),
                   sv_max_lifetime = str_to_uint (op_max_lifetime opt),
                   sv_max_request_size = str_to_uint (op_max_request_size opt)\<rparr>;
              fail = (\<lambda>S w. do { w \<leftarrow> sb_close_server (ve_env V) h S w; Some (None, w) })
          in case server_port V opt w of
            (None, w) \<Rightarrow> fail S w
          | (Some port, w) \<Rightarrow>
              (case ve_socket V w of (fd, w) \<Rightarrow>
                 let S = S\<lparr>sv_sockfd := fd\<rparr> in
                 if fd = INVALID_SOCKET then fail S w
                 else case set_socket_blocking V fd False w of (_, w) \<Rightarrow>
                   case ve_setsockopt V fd w of (_, w) \<Rightarrow>
                   case ve_bind V fd port w of (err, w) \<Rightarrow>
                     if err \<noteq> 0 then fail S w
                     else case ve_listen V fd 1023 w of (err, w) \<Rightarrow>
                       if err \<noteq> 0 then fail S w
                       else case ve_mutex_init V w of (err, w) \<Rightarrow>
                         if err \<noteq> 0 then fail S w else Some (Some S, w)))"

text \<open>Accepting every waiting connection; the thread of a connection runs on its own.\<close>

partial_function (option) accept_loop ::
    "'w srv_env \<Rightarrow> 'w sb_handler \<Rightarrow> sb_Server \<Rightarrow> 'w \<Rightarrow> (cint \<times> sb_Server \<times> 'w) option" where
  "accept_loop V h S w =
     (case ve_accept V (sv_sockfd S) w of (sockfd, w) \<Rightarrow>
        if sockfd = INVALID_SOCKET then Some (SB_RES_OK, S, w)
        else case sb_stream_new (ve_env V) sockfd w of
          (None, w) \<Rightarrow>
            Some (SB_EOUTOFMEM, S, se_close (ve_env V) sockfd (se_shutdown (ve_env V) sockfd w))
        | (Some st, w) \<Rightarrow> do {
            let i = ve_address V (sv_heap S) w;
            S \<leftarrow> stream_accept i st S;
            let (err, w) = ve_pthread_create V i w;
            if err \<noteq> 0 then do {
              S \<leftarrow> stream_finish i S;
              w \<leftarrow> sb_stream_destroy (ve_env V) h st w;
              Some (err, S, w) }
            else accept_loop V h S w })"

definition sb_poll_server ::
    "'w srv_env \<Rightarrow> 'w sb_handler \<Rightarrow> sb_Server \<Rightarrow> 'w \<Rightarrow> (cint \<times> sb_Server \<times> 'w) option" where
  "sb_poll_server V h S w = accept_loop V h (S\<lparr>sv_now := se_time (ve_env V) w\<rparr>) w"

section \<open>What the server functions do to the list\<close>

lemma serves_empty: "sv_streams S = None \<Longrightarrow> sv_heap S = (\<lambda>i. None) \<Longrightarrow> serves S []"
  by (simp add: serves_def stream_list_def dom_def)

lemma close_streams_freed: "H i = None \<Longrightarrow> close_streams E h (Some i) H w = None"
  by (subst close_streams.simps) simp

lemma close_streams_serves: "serves S xs \<Longrightarrow> close_streams E h (sv_streams S) (sv_heap S) w = (if xs = [] then Some w else None)"
proof (cases xs)
  case (Cons a ys)
  assume "serves S xs"
  with Cons obtain n where n: "sv_streams S = Some a" "sv_heap S a = Some n" "nd_next n = first_of ys None"
    by (auto simp: serves_def stream_list_def)
  show ?thesis
  proof (cases ys)
    case Nil
    with n Cons show ?thesis by (subst close_streams.simps) simp
  next
    case (Cons b zs)
    have "close_streams E h (Some a) (sv_heap S) w = None"
      using n Cons close_streams_freed [of "(sv_heap S)(b := None)" b]
      by (subst close_streams.simps) (auto split: bind_split)
    with n \<open>xs = a # ys\<close> show ?thesis by simp
  qed
qed (simp add: serves_def stream_list_def close_streams.simps)

text \<open>Memory that is handed out is not in use.\<close>

definition fresh_addresses :: "'w srv_env \<Rightarrow> bool" where
  "fresh_addresses V \<longleftrightarrow> (\<forall>H w. finite (dom H) \<longrightarrow> ve_address V H w \<notin> dom H)"

lemma accept_loop_serves:
  fixes V :: "'w srv_env"
  assumes "accept_loop V h S w = Some r" and "fresh_addresses V" and "serves S xs"
  shows "\<exists>ys. serves (fst (snd r)) (xs @ ys)"
proof -
  define P where "P F hh s v x \<longleftrightarrow> (F = V \<longrightarrow> (\<forall>xs. serves s xs \<longrightarrow> (\<exists>ys. serves (fst (snd x)) (xs @ ys))))"
    for F :: "'w srv_env" and hh :: "'w sb_handler" and s and v :: 'w and x :: "cint \<times> sb_Server \<times> 'w"
  have "P V h S w r"
  proof (rule accept_loop.raw_induct [of P, OF _ assms(1)])
    fix f F hh s v x
    assume IH: "\<And>F hh s v x. f F hh s v = Some x \<Longrightarrow> P F hh s v x"
      and e: "(case ve_accept F (sv_sockfd s) v of (sockfd, w) \<Rightarrow>
        if sockfd = INVALID_SOCKET then Some (SB_RES_OK, s, w)
        else case sb_stream_new (ve_env F) sockfd w of
          (None, w) \<Rightarrow>
            Some (SB_EOUTOFMEM, s, se_close (ve_env F) sockfd (se_shutdown (ve_env F) sockfd w))
        | (Some st, w) \<Rightarrow> do {
            let i = ve_address F (sv_heap s) w;
            S \<leftarrow> stream_accept i st s;
            let (err, w) = ve_pthread_create F i w;
            if err \<noteq> 0 then do {
              S \<leftarrow> stream_finish i S;
              w \<leftarrow> sb_stream_destroy (ve_env F) hh st w;
              Some (err, S, w) }
            else f F hh S w }) = Some x"
    show "P F hh s v x" unfolding P_def
    proof (intro impI allI)
      fix xs assume F: "F = V" and s: "serves s xs"
      then have "finite (dom (sv_heap s))" by (simp add: serves_def)
      with assms(2) s have fresh: "ve_address V (sv_heap s) w \<notin> set xs" for w
        unfolding fresh_addresses_def serves_def by metis
      obtain fd w1 where a: "ve_accept V (sv_sockfd s) v = (fd, w1)" by (metis prod.exhaust)
      obtain new w2 where n: "sb_stream_new (ve_env V) fd w1 = (new, w2)" by (metis prod.exhaust)
      show "\<exists>ys. serves (fst (snd x)) (xs @ ys)"
      proof (cases "fd = INVALID_SOCKET \<or> new = None")
        case True
        with e F a n s show ?thesis by (intro exI [of _ "[]"]) (auto split: if_splits)
      next
        case False
        then obtain st where st: "new = Some st" by blast
        let ?i = "ve_address V (sv_heap s) w2"
        obtain s1 where s1: "stream_accept ?i st s = Some s1" "serves s1 (xs @ [?i])"
          using accept_serves [OF s fresh] by blast
        obtain err w3 where p: "ve_pthread_create V ?i w2 = (err, w3)" by (metis prod.exhaust)
        show ?thesis
        proof (cases "err = 0")
          case True
          with e F a n st s1 p False have "f V hh s1 w3 = Some x" by (simp add: Let_def)
          from IH [OF this] s1(2) obtain ys where "serves (fst (snd x)) ((xs @ [?i]) @ ys)"
            unfolding P_def by blast
          then show ?thesis by (intro exI [of _ "?i # ys"]) simp
        next
          case fail: False
          have "?i \<in> set (xs @ [?i])" by simp
          from finish_serves [OF s1(2) this] fresh [of w2] obtain s2 where
            "stream_finish ?i s1 = Some s2" "serves s2 xs" by (auto simp: remove1_append)
          with e F a n st s1 p False fail show ?thesis
            by (intro exI [of _ "[]"]) (auto simp: Let_def bind_eq_Some_conv)
        qed
      qed
    qed
  qed
  with assms(3) show ?thesis by (auto simp: P_def)
qed

text \<open>Which sockets are open, for some way of telling it from the world.\<close>

definition socket_tracking :: "'w srv_env \<Rightarrow> ('w \<Rightarrow> cint set) \<Rightarrow> bool" where
  "socket_tracking V opened \<longleftrightarrow>
     (\<forall>w fd w'. ve_socket V w = (fd, w') \<longrightarrow>
        (if fd = INVALID_SOCKET then opened w' = opened w
         else fd \<notin> opened w \<and> opened w' = insert fd (opened w))) \<and>
     (\<forall>fd w. opened (se_close (ve_env V) fd w) = opened w - {fd}) \<and>
     (\<forall>fd w. opened (se_shutdown (ve_env V) fd w) = opened w) \<and>
     (\<forall>w. opened (snd (se_malloc (ve_env V) w)) = opened w) \<and>
     (\<forall>h w. opened (snd (ve_inet_pton V h w)) = opened w) \<and>
     (\<forall>fd w. opened (snd (ve_getfl V fd w)) = opened w) \<and>
     (\<forall>fd fl w. opened (snd (ve_setfl V fd fl w)) = opened w) \<and>
     (\<forall>fd w. opened (snd (ve_setsockopt V fd w)) = opened w) \<and>
     (\<forall>fd p w. opened (snd (ve_bind V fd p w)) = opened w) \<and>
     (\<forall>fd n w. opened (snd (ve_listen V fd n w)) = opened w) \<and>
     (\<forall>w. opened (snd (ve_mutex_init V w)) = opened w)"

lemma set_blocking_tracking:
  "socket_tracking V opened \<Longrightarrow> opened (snd (set_socket_blocking V fd b w)) = opened w"
  by (auto simp: set_socket_blocking_def socket_tracking_def Let_def split: prod.splits)
    (metis snd_conv)+

lemma close_server_empty:
  "sv_streams S = None \<Longrightarrow> sb_close_server E h S w
    = Some (if sv_sockfd S \<noteq> INVALID_SOCKET then se_close E (sv_sockfd S) (se_shutdown E (sv_sockfd S) w) else w)"
  by (simp add: sb_close_server_def close_streams.simps)

section \<open>Sending everything\<close>

text \<open>A client that keeps reading, and a file that can be read: \<open>sent\<close> is what has arrived at the
  client, \<open>rest\<close> what is left of the file.\<close>

definition client_reads :: "'w sb_env \<Rightarrow> cint \<Rightarrow> cint \<Rightarrow> ('w \<Rightarrow> string) \<Rightarrow> ('w \<Rightarrow> string) \<Rightarrow> bool" where
  "client_reads E sock fd sent rest \<longleftrightarrow>
     (\<forall>bs w k wb w'. se_send E sock bs w = ((k, wb), w') \<longrightarrow> bs \<noteq> [] \<longrightarrow>
        0 < k \<and> k \<le> int (length bs) \<and> sent w' = sent w @ take (nat k) bs \<and> rest w' = rest w) \<and>
     (\<forall>n w k bs w'. se_read E fd n w = ((k, bs), w') \<longrightarrow> 0 < n \<longrightarrow>
        0 \<le> k \<and> int (length bs) = k \<and> length bs \<le> n \<and> (k = 0 \<longleftrightarrow> rest w = []) \<and>
        rest w = bs @ rest w' \<and> sent w' = sent w) \<and>
     (\<forall>n w. sent (snd (se_realloc E n w)) = sent w \<and> rest (snd (se_realloc E n w)) = rest w
        \<and> fst (se_realloc E n w)) \<and>
     (\<forall>w. sent (se_close E fd w) = sent w \<and> rest (se_close E fd w) = rest w)"

lemma shift_content:
  assumes "sb_wf b" and "n \<le> sb_len b"
  shows "sb_wf (sb_buffer_shift n b)" "sb_content (sb_buffer_shift n b) = drop n (sb_content b)"
  using assms by (auto simp: sb_wf_def sb_content_def sb_buffer_shift_def Let_def drop_take)

definition pending :: "sb_Stream \<Rightarrow> ('w \<Rightarrow> string) \<Rightarrow> 'w \<Rightarrow> string" where
  "pending st rest w = sb_content (st_send_buf st) @ (if 0 < sint (st_send_fd st) then rest w else [])"

lemma send_data_progress:
  assumes c: "client_reads E (st_sockfd st) fd sent rest" and wf: "sb_wf (st_send_buf st)"
    and ne: "0 < sb_len (st_send_buf st)" and s: "send_data E st w = r"
  shows "\<exists>st' w' k. r = Some (SB_ESUCCESS, st', w') \<and> 0 < k \<and> k \<le> length (sb_content (st_send_buf st))
    \<and> sent w' = sent w @ take k (sb_content (st_send_buf st)) \<and> rest w' = rest w
    \<and> sb_wf (st_send_buf st') \<and> sb_content (st_send_buf st') = drop k (sb_content (st_send_buf st))
    \<and> st_state st' = st_state st \<and> st_sockfd st' = st_sockfd st \<and> st_send_fd st' = st_send_fd st"
proof -
  let ?b = "st_send_buf st"
  obtain k wb w1 where e: "se_send E (st_sockfd st) (sb_content ?b) w = ((k, wb), w1)" by (metis prod.exhaust)
  have l: "length (sb_content ?b) = sb_len ?b" using wf by (rule length_sb_content)
  with ne have "sb_content ?b \<noteq> []" by auto
  with c e l have k: "0 < k" "k \<le> int (sb_len ?b)" "sent w1 = sent w @ take (nat k) (sb_content ?b)" "rest w1 = rest w"
    unfolding client_reads_def by metis+
  have n: "nat k \<le> sb_len ?b" "0 < nat k" using k by auto
  have "r = Some (SB_ESUCCESS, st\<lparr>st_send_buf := sb_buffer_shift (nat k) ?b, st_last_activity := se_now E w1\<rparr>, w1)"
    using s wf e k by (simp add: send_data_def Let_def sb_wf_def sb_content_def [symmetric])
  with shift_content [OF wf n(1)] k n l show ?thesis by (auto intro!: exI [of _ "nat k"])
qed

lemma send_step:
  assumes c: "client_reads E (st_sockfd st) fd sent rest" and wf: "sb_wf (st_send_buf st)"
    and snd: "st_send_fd st = fd \<or> \<not> 0 < sint (st_send_fd st)"
    and more: "0 < sb_len (st_send_buf st) \<or> 0 < sint (st_send_fd st)"
  shows "\<exists>st' w' d. sb_stream_send E st w = Some (SB_ESUCCESS, st', w') \<and> sent w' = sent w @ d
    \<and> pending st rest w = d @ pending st' rest w' \<and> sb_wf (st_send_buf st') \<and> st_state st' = st_state st
    \<and> st_sockfd st' = st_sockfd st \<and> (st_send_fd st' = st_send_fd st \<and> d \<noteq> [] \<or> \<not> 0 < sint (st_send_fd st') \<and> 0 < sint (st_send_fd st))"
proof (cases "0 < sb_len (st_send_buf st)")
  case True
  obtain st' w' k where s: "sb_stream_send E st w = Some (SB_ESUCCESS, st', w')" "0 < k" "k \<le> length (sb_content (st_send_buf st))"
    "sent w' = sent w @ take k (sb_content (st_send_buf st))" "rest w' = rest w" "sb_wf (st_send_buf st')"
    "sb_content (st_send_buf st') = drop k (sb_content (st_send_buf st))" "st_state st' = st_state st"
    "st_sockfd st' = st_sockfd st" "st_send_fd st' = st_send_fd st"
    using send_data_progress [OF c wf True refl, of w] True by (auto simp: sb_stream_send_def)
  moreover have "take k (sb_content (st_send_buf st)) \<noteq> []" using s(2,3) by auto
  ultimately show ?thesis
    by (intro exI [of _ st'] exI [of _ w'] exI [of _ "take k (sb_content (st_send_buf st))"]) (simp add: pending_def)
next
  case False
  with more have fd: "0 < sint (st_send_fd st)" and e: "sb_len (st_send_buf st) = 0" by auto
  from fd snd c have c: "client_reads E (st_sockfd st) (st_send_fd st) sent rest" by simp
  obtain err b w1 where r: "sb_buffer_reserve E 8192 (st_send_buf st) w = (err, b, w1)" by (metis prod_cases3)
  have r': "err = 0" "8192 \<le> length (sb_s b)" "sent w1 = sent w" "rest w1 = rest w"
    using r c reserve_keeps [OF wf r]
    by (auto simp: sb_buffer_reserve_def client_reads_def sb_codes split: if_splits prod.splits bool.splits) (metis snd_conv fst_conv)+
  obtain n bs w2 where d: "se_read E (st_send_fd st) (length (sb_s b)) w1 = ((n, bs), w2)" by (metis prod.exhaust)
  have "0 < length (sb_s b)" using r'(2) by linarith
  with c d have n: "0 \<le> n" "int (length bs) = n" "length bs \<le> length (sb_s b)" "n = 0 \<longleftrightarrow> rest w1 = []"
    "rest w1 = bs @ rest w2" "sent w2 = sent w1"
    unfolding client_reads_def by metis+
  let ?b = "b\<lparr>sb_len := length bs, sb_s := bs @ drop (length bs) (sb_s b)\<rparr>"
  let ?st = "st\<lparr>st_send_buf := ?b\<rparr>"
  have s: "sb_stream_send E st w = (if bs \<noteq> [] then send_data E ?st w2
      else Some (SB_ESUCCESS, ?st\<lparr>st_send_fd := -1\<rparr>, se_close E (st_send_fd st) w2))"
    using fd e r r'(1) d n(1-3) by (auto simp: sb_stream_send_def Let_def)
  have b: "sb_wf ?b" "sb_content ?b = bs" using n(3) by (simp_all add: sb_wf_def sb_content_def)
  have p: "pending st rest w = bs @ rest w2" using e fd n(5) r'(4) by (simp add: pending_def sb_content_def)
  show ?thesis
  proof (cases "bs = []")
    case True
    with c n have "rest w2 = []" by simp
    with s True p b c n(6) r'(3) show ?thesis
      by (intro exI [of _ "?st\<lparr>st_send_fd := -1\<rparr>"] exI [of _ "se_close E (st_send_fd st) w2"] exI [of _ "[]"])
        (simp add: pending_def client_reads_def fd sb_content_def)
  next
    case ne: False
    with send_data_progress [of E ?st "st_send_fd st" sent rest, OF _ _ _ refl, of w2] c b
    obtain st' w' k where t: "send_data E ?st w2 = Some (SB_ESUCCESS, st', w')" "0 < k" "k \<le> length bs"
      "sent w' = sent w2 @ take k bs" "rest w' = rest w2" "sb_wf (st_send_buf st')"
      "sb_content (st_send_buf st') = drop k bs" "st_state st' = st_state st"
      "st_sockfd st' = st_sockfd st" "st_send_fd st' = st_send_fd st" by auto
    moreover have "take k bs \<noteq> []" using t(2) ne by auto
    ultimately show ?thesis using s ne p n(6) r'(3) fd
      by (intro exI [of _ st'] exI [of _ w'] exI [of _ "take k bs"]) (simp add: pending_def)
  qed
qed

lemma send_loop_complete:
  assumes "client_reads E (st_sockfd st) fd sent rest" and "sb_wf (st_send_buf st)"
    and "st_send_fd st = fd \<or> \<not> 0 < sint (st_send_fd st)" and "st_state st \<noteq> CLOSING"
  shows "\<exists>st' w'. send_loop E st w = Some (st', w') \<and> st_state st' = CLOSING \<and> sent w' = sent w @ pending st rest w"
  using assms
proof (induction "2 * length (pending st rest w) + (if 0 < sint (st_send_fd st) then 1 else 0)" arbitrary: st w rule: less_induct)
  case less
  note P = less.prems
  show ?case
  proof (cases "0 < sb_len (st_send_buf st) \<or> 0 < sint (st_send_fd st)")
    case False
    then have "sb_stream_send E st w = Some (SB_ESUCCESS, sb_stream_close st, w)" "pending st rest w = []"
      by (simp_all add: sb_stream_send_def pending_def sb_content_def)
    with P(4) show ?thesis
      by (subst send_loop.simps) (simp add: sb_codes send_loop.simps sb_stream_close_def)
  next
    case True
    from send_step [OF P(1-3) True, of w]
    obtain st' w' d where s: "sb_stream_send E st w = Some (SB_ESUCCESS, st', w')" "sent w' = sent w @ d"
      "pending st rest w = d @ pending st' rest w'" "sb_wf (st_send_buf st')" "st_state st' = st_state st"
      "st_sockfd st' = st_sockfd st"
      "st_send_fd st' = st_send_fd st \<and> d \<noteq> [] \<or> \<not> 0 < sint (st_send_fd st') \<and> 0 < sint (st_send_fd st)" by blast
    have m: "2 * length (pending st' rest w') + (if 0 < sint (st_send_fd st') then 1 else 0)
        < 2 * length (pending st rest w) + (if 0 < sint (st_send_fd st) then 1 else 0)"
      using s(3,7) by (cases d) auto
    from less.hyps [OF m] P s(4-7) have "\<exists>st2 w2. send_loop E st' w' = Some (st2, w2) \<and> st_state st2 = CLOSING
        \<and> sent w2 = sent w' @ pending st' rest w'" by auto
    with s P(4) show ?thesis by (subst send_loop.simps) (auto simp: sb_codes)
  qed
qed

section \<open>Properties\<close>

text \<open>C19: in every interleaving of accepted and finished connections the list of the server is
  the sequence of the live connections in the order in which they came: linking searches its end
  without meeting freed memory or a cycle, unlinking repairs both neighbours and the head, and no
  finished connection stays reachable.\<close>

theorem connections_tracked:
  assumes "serves S xs" and "possible_run es xs"
  shows "\<exists>S'. conn_run es S = Some S' \<and> stream_list S' (fold live_step es xs)
    \<and> dom (sv_heap S') = set (fold live_step es xs)"
  using conn_run_serves [OF assms] by (simp add: serves_def)

definition idle_server :: sb_Server where
  "idle_server = \<lparr>sv_streams = None, sv_heap = (\<lambda>i. None), sv_sockfd = 5, sv_now = 0, sv_timeout = 0,
     sv_max_lifetime = 0, sv_max_request_size = 0\<rparr>"

lemma idle_serves: "serves idle_server []"
  by (rule serves_empty) (simp_all add: idle_server_def)

theorem connections_tracked_witness:
  "\<exists>S'. conn_run [Accepted 7 fresh_stream, Accepted 8 fresh_stream, Accepted 9 fresh_stream, Finished 8, Finished 7]
       idle_server = Some S' \<and> stream_list S' [9] \<and> dom (sv_heap S') = {9}"
  using connections_tracked [OF idle_serves, of "[Accepted 7 fresh_stream, Accepted 8 fresh_stream,
      Accepted 9 fresh_stream, Finished 8, Finished 7]"] by simp

text \<open>C38: closing a server with a live connection is never defined behaviour: the loop steps to
  the next stream before it destroys one, so that it destroys \<open>NULL\<close> or goes on from memory it
  has just freed, and never destroys the first stream.  Without connections it closes the
  listening socket.\<close>

theorem close_server_faults:
  assumes "serves S xs"
  shows "sb_close_server E h S w = (if xs \<noteq> [] then None
    else Some (if sv_sockfd S \<noteq> INVALID_SOCKET then se_close E (sv_sockfd S) (se_shutdown E (sv_sockfd S) w) else w))"
  using close_streams_serves [OF assms, of E h w] by (simp add: sb_close_server_def)

theorem close_server_faults_witness:
  "\<exists>S. conn_run [Accepted 7 fresh_stream] idle_server = Some S
     \<and> sb_close_server ample_env (\<lambda>e st w. Some (0, st, w)) S [] = None"
proof -
  obtain S where S: "conn_run [Accepted 7 fresh_stream] idle_server = Some S" "serves S [7]"
    using conn_run_serves [OF idle_serves, of "[Accepted 7 fresh_stream]"] by auto
  with close_server_faults [OF S(2), of ample_env "\<lambda>e st w. Some (0, st, w)" "[]"] show ?thesis by auto
qed

text \<open>The accept loop keeps the list of live connections and only adds to it, also when it
  ends with an error: a connection that gets no memory is not listed, and one that gets no thread
  is taken out again.\<close>

theorem poll_server_keeps_list:
  assumes "fresh_addresses V" and "serves S xs" and "sb_poll_server V h S w = Some (err, S', w')"
  shows "\<exists>ys. serves S' (xs @ ys)"
proof -
  let ?S = "S\<lparr>sv_now := se_time (ve_env V) w\<rparr>"
  have "serves ?S xs" using assms(2) by (simp add: serves_def stream_list_def)
  from accept_loop_serves [OF assms(3) [unfolded sb_poll_server_def] assms(1) this] show ?thesis by simp
qed

text \<open>An environment in which one client waits for a connection, and no thread can be created.\<close>

definition no_threads :: "string srv_env" where
  "no_threads = \<lparr>ve_env = ample_env, ve_erange = (\<lambda>w. False), ve_inet_pton = (\<lambda>h w. (1, w)),
     ve_socket = (\<lambda>w. (5, w)), ve_getfl = (\<lambda>fd w. (0, w)), ve_setfl = (\<lambda>fd fl w. (0, w)), ve_O_NONBLOCK = 4,
     ve_setsockopt = (\<lambda>fd w. (0, w)), ve_bind = (\<lambda>fd p w. (0, w)), ve_listen = (\<lambda>fd n w. (0, w)),
     ve_mutex_init = (\<lambda>w. (0, w)), ve_accept = (\<lambda>fd w. if w = [] then (-1, w) else (6, [])),
     ve_address = (\<lambda>H w. LEAST i. i \<notin> dom H), ve_pthread_create = (\<lambda>i w. (11, w))\<rparr>"

lemma no_threads_fresh: "fresh_addresses no_threads"
  unfolding fresh_addresses_def no_threads_def srv_env.select_convs
  by (metis LeastI_ex ex_new_if_finite infinite_UNIV_nat)

theorem poll_server_keeps_list_witness:
  "\<exists>S' ys. sb_poll_server no_threads (\<lambda>e st w. Some (0, st, w)) idle_server ''c'' = Some (11, S', [])
     \<and> serves S' ys"
proof -
  let ?S = "idle_server\<lparr>sv_now := 0\<rparr>"
  have S: "serves ?S []" by (rule serves_empty) (simp_all add: idle_server_def)
  obtain S1 where a: "stream_accept (LEAST i. i \<notin> dom (sv_heap ?S)) (fresh_stream\<lparr>st_sockfd := 6\<rparr>) ?S = Some S1"
    "serves S1 [LEAST i. i \<notin> dom (sv_heap ?S)]"
    using accept_serves [OF S, of "LEAST i. i \<notin> dom (sv_heap ?S)"] by auto
  obtain S2 where b: "stream_finish (LEAST i. i \<notin> dom (sv_heap ?S)) S1 = Some S2"
    using finish_serves [OF a(2)] by auto
  have n: "sb_stream_new ample_env 6 [] = (Some (fresh_stream\<lparr>st_sockfd := 6\<rparr>), [])"
    by (simp add: sb_stream_new_def ample_env_def fresh_stream_def)
  have "sb_poll_server no_threads (\<lambda>e st w. Some (0, st, w)) idle_server ''c'' = Some (11, S2, [])"
    unfolding sb_poll_server_def
    by (subst accept_loop.simps)
      (use a b n in \<open>simp add: no_threads_def ample_env_def INVALID_SOCKET_def Let_def sb_stream_destroy_def
        sb_stream_emit_def SB_RES_OK_def SB_RES_CLOSE_def sb_codes\<close>)
  with poll_server_keeps_list [OF no_threads_fresh idle_serves this] show ?thesis by blast
qed

lemma server_port_tracking:
  "socket_tracking V opened \<Longrightarrow> opened (snd (server_port V opt w)) = opened w"
  by (auto simp: server_port_def socket_tracking_def case_prod_beta split: option.splits)

text \<open>Creating the server never faults.  It either returns a server without connections,
  whose socket is the one newly opened, or it returns \<open>NULL\<close> and leaves the same sockets open as
  before, whichever of the steps failed.\<close>

theorem new_server_socket:
  assumes "socket_tracking V opened"
  shows "\<exists>r w'. sb_new_server V h opt w = Some (r, w') \<and>
    (case r of None \<Rightarrow> opened w' = opened w
     | Some S \<Rightarrow> serves S [] \<and> sv_sockfd S \<noteq> INVALID_SOCKET \<and> sv_sockfd S \<notin> opened w
         \<and> opened w' = insert (sv_sockfd S) (opened w))"
proof -
  let ?E = "ve_env V"
  note T = assms [unfolded socket_tracking_def]
  obtain ok w1 where m: "se_malloc ?E w = (ok, w1)" by (metis prod.exhaust)
  obtain p w2 where p: "server_port V opt w1 = (p, w2)" by (metis prod.exhaust)
  obtain fd w3 where s: "ve_socket V w2 = (fd, w3)" by (metis prod.exhaust)
  obtain b w4 where b: "set_socket_blocking V fd False w3 = (b, w4)" by (metis prod.exhaust)
  obtain o5 w5 where o5: "ve_setsockopt V fd w4 = (o5, w5)" by (metis prod.exhaust)
  obtain o6 w6 where o6: "ve_bind V fd (the p) w5 = (o6, w6)" by (metis prod.exhaust)
  obtain o7 w7 where o7: "ve_listen V fd 1023 w6 = (o7, w7)" by (metis prod.exhaust)
  obtain o8 w8 where o8: "ve_mutex_init V w7 = (o8, w8)" by (metis prod.exhaust)
  have w: "opened w1 = opened w" "opened w2 = opened w" "opened w4 = opened w3" "opened w5 = opened w3"
    "opened w6 = opened w3" "opened w7 = opened w3" "opened w8 = opened w3"
    using T m p b o5 o6 o7 o8 server_port_tracking [OF assms, of opt w1] set_blocking_tracking [OF assms, of fd False w3]
    by (metis snd_conv)+
  have sock: "if fd = INVALID_SOCKET then opened w3 = opened w
      else fd \<notin> opened w \<and> opened w3 = insert fd (opened w)"
    using T s w(2) by metis
  have close: "opened (se_close ?E fd (se_shutdown ?E fd v)) = opened w"
    if "opened v = opened w3" "fd \<noteq> INVALID_SOCKET" for v
    using that T sock by auto
  consider "\<not> ok" | "ok" "p = None" | "ok" "p \<noteq> None" "fd = INVALID_SOCKET"
    | "ok" "p \<noteq> None" "fd \<noteq> INVALID_SOCKET" by blast
  then show ?thesis
  proof cases
    case 4
    consider "o6 \<noteq> 0" | "o6 = 0" "o7 \<noteq> 0" | "o6 = 0" "o7 = 0" "o8 \<noteq> 0" | "o6 = 0" "o7 = 0" "o8 = 0" by blast
    then show ?thesis
      by cases (use 4 m p s b o5 o6 o7 o8 w sock close in
        \<open>auto simp: sb_new_server_def Let_def close_server_empty intro!: serves_empty\<close>)
  qed (use m p s w sock in \<open>auto simp: sb_new_server_def Let_def close_server_empty\<close>)
qed

text \<open>A device whose world is the list of the open sockets.\<close>

definition socket_desk :: "cint \<Rightarrow> cint list srv_env" where
  "socket_desk bind_result = \<lparr>ve_env = \<lparr>
     se_malloc = \<lambda>w. (True, w), se_realloc = \<lambda>n w. (True, w), se_junk = \<lambda>i w. CHR ''?'',
     se_recv = \<lambda>fd n w. ((0, [], False), w), se_send = \<lambda>fd bs w. ((0, False), w),
     se_read = \<lambda>fd n w. ((0, []), w), se_open = \<lambda>p w. (-1, w), se_fstat = \<lambda>fd w. ((-1, 0), w),
     se_shutdown = \<lambda>fd w. w, se_close = \<lambda>fd w. filter (\<lambda>x. x \<noteq> fd) w, se_time = \<lambda>w. 0, se_now = \<lambda>w. 0,
     se_address = \<lambda>fd w. []\<rparr>,
     ve_erange = (\<lambda>w. False), ve_inet_pton = (\<lambda>h w. (1, w)),
     ve_socket = (\<lambda>w. if 5 \<in> set w then (-1, w) else (5, 5 # w)), ve_getfl = (\<lambda>fd w. (0, w)), ve_setfl = (\<lambda>fd fl w. (0, w)),
     ve_O_NONBLOCK = 4, ve_setsockopt = (\<lambda>fd w. (0, w)), ve_bind = (\<lambda>fd p w. (bind_result, w)), ve_listen = (\<lambda>fd n w. (0, w)),
     ve_mutex_init = (\<lambda>w. (0, w)), ve_accept = (\<lambda>fd w. (-1, w)),
     ve_address = (\<lambda>H w. 9), ve_pthread_create = (\<lambda>i w. (0, w))\<rparr>"

definition small_options :: sb_Options where
  "small_options = \<lparr>op_host = None, op_port = Some ''80'', op_timeout = Some ''0'',
     op_max_lifetime = Some ''0'', op_max_request_size = Some ''0''\<rparr>"

lemma socket_desk_tracking: "socket_tracking (socket_desk r) set"
  by (auto simp: socket_tracking_def socket_desk_def INVALID_SOCKET_def)

theorem new_server_socket_witness:
  "\<exists>w'. sb_new_server (socket_desk 48) (\<lambda>e st w. Some (0, st, w)) small_options [1] = Some (None, w') \<and> set w' = {1}"
proof -
  have "strtol0 ''80'' = (2, 80, False)" by code_simp
  then have "map_option (\<lambda>(r, w'). r = None)
      (sb_new_server (socket_desk 48) (\<lambda>e st w. Some (0, st, w)) small_options [1]) = Some True"
    by (simp add: sb_new_server_def socket_desk_def small_options_def server_port_def USHRT_MAX_def
        set_socket_blocking_def INVALID_SOCKET_def Let_def close_server_empty)
  with new_server_socket [OF socket_desk_tracking, of 48 "\<lambda>e st w. Some (0, st, w)" small_options "[1]"]
  show ?thesis by (auto split: option.splits)
qed

text \<open>C10: if the client keeps reading and the file can be read, the sending loop ends, with the
  stream closed, and what has arrived is the response followed by the whole rest of the file,
  in order, however the socket cuts it into pieces.\<close>

theorem response_delivered:
  assumes "client_reads E (st_sockfd st) (st_send_fd st) sent rest" and "sb_wf (st_send_buf st)"
    and "st_state st \<noteq> CLOSING"
  shows "\<exists>st' w'. send_loop E st w = Some (st', w') \<and> st_state st' = CLOSING
    \<and> sent w' = sent w @ sb_content (st_send_buf st) @ (if 0 < sint (st_send_fd st) then rest w else [])"
  using send_loop_complete [OF assms(1,2) disjI1 [OF refl] assms(3), of w] by (simp add: pending_def)

text \<open>A client that takes three bytes at a time; the world is what it got and what the file holds.\<close>

definition slow_env :: "(string \<times> string) sb_env" where
  "slow_env = \<lparr>
     se_malloc = \<lambda>w. (True, w), se_realloc = \<lambda>n w. (True, w), se_junk = \<lambda>i w. CHR ''?'',
     se_recv = \<lambda>fd n w. ((0, [], False), w),
     se_send = \<lambda>fd bs w. ((int (min 3 (length bs)), False), (fst w @ take 3 bs, snd w)),
     se_read = \<lambda>fd n w. ((int (length (take n (snd w))), take n (snd w)), (fst w, drop n (snd w))),
     se_open = \<lambda>p w. (-1, w), se_fstat = \<lambda>fd w. ((-1, 0), w),
     se_shutdown = \<lambda>fd w. w, se_close = \<lambda>fd w. w, se_time = \<lambda>w. 0, se_now = \<lambda>w. 0,
     se_address = \<lambda>fd w. []\<rparr>"

lemma slow_client_reads: "client_reads slow_env s fd fst snd"
  unfolding client_reads_def slow_env_def by (auto simp: min_def)

theorem response_delivered_witness:
  "\<exists>st' w'. send_loop slow_env (fresh_stream\<lparr>st_state := SENDING_FILE, st_send_fd := 7,
       st_send_buf := \<lparr>sb_s = ''head??'', sb_len = 4\<rparr>\<rparr>) ([], ''content'') = Some (st', w') \<and> fst w' = ''headcontent''"
  using response_delivered [OF slow_client_reads, of "fresh_stream\<lparr>st_state := SENDING_FILE, st_send_fd := 7,
       st_send_buf := \<lparr>sb_s = ''head??'', sb_len = 4\<rparr>\<rparr>" "([], ''content'')"]
  by (auto simp: sb_wf_def sb_content_def)

end
