(* ===== verification/TinyJson.thy ===== *)
theory TinyJson
  imports Util
begin

text \<open>
  Model of tiny-json.c, the parser the server applies to request bodies, reference package
  documents and settings.  It works in place: the text is a buffer of bytes, every \<open>char *\<close> is
  an offset into it, and the properties live in an array (the pool) whose elements refer to each
  other by index.  An access outside the buffer or the pool, or a use of a value as a container,
  is \<open>None\<close>; the \<open>NULL\<close> the parser returns on a syntax error is the inner \<open>None\<close>.  The union
  \<open>u\<close> of a property is a datatype: a value pointer, or the first and last child if there are any.
\<close>

datatype jsonType_t = JSON_OBJ | JSON_ARRAY | JSON_TEXT | JSON_BOOLEAN | JSON_INTEGER | JSON_REAL | JSON_NULL

datatype json_u = UValue nat | UChildren "(nat \<times> nat) option"

record json_t =
  jsibling :: "nat option"
  jname :: "nat option"
  ju :: json_u
  jtype :: jsonType_t

text \<open>The pool; its \<open>qty\<close> is the length of \<open>pmem\<close>.\<close>

record jsonPool_t =
  pmem :: "json_t list"
  nextFree :: nat

definition upd :: "'a list \<Rightarrow> nat \<Rightarrow> ('a \<Rightarrow> 'a) \<Rightarrow> 'a list option" where
  "upd m i f = (if i < length m then Some (m[i := f (m ! i)]) else None)"

section \<open>Scanners\<close>

fun isOneOfThem :: "char \<Rightarrow> string \<Rightarrow> bool" where
  "isOneOfThem ch [] = False"
| "isOneOfThem ch (s # ss) = (if ch = s then True else isOneOfThem ch ss)"

function goWhile :: "char list \<Rightarrow> nat \<Rightarrow> string \<Rightarrow> nat option option" where
  "goWhile m i st = do {
     c \<leftarrow> rd m i;
     if c = NUL then Some None
     else if \<not> isOneOfThem c st then Some (Some i)
     else goWhile m (i + 1) st }"
  by pat_completeness auto
termination
  by (relation "measure (\<lambda>(m, i, st). length m - i)") (auto simp: mem_simps)

definition blank :: string where
  "blank = [CHR '' '', CHR 0x0A, CHR 0x0D, CHR 0x09, CHR 0x0C]"

definition goBlank :: "char list \<Rightarrow> nat \<Rightarrow> nat option option" where
  "goBlank m i = goWhile m i blank"

function goNum :: "char list \<Rightarrow> nat \<Rightarrow> nat option option" where
  "goNum m i = do {
     c \<leftarrow> rd m i;
     if c = NUL then Some None
     else if \<not> isdigit c then Some (Some i)
     else goNum m (i + 1) }"
  by pat_completeness auto
termination
  by (relation "measure (\<lambda>(m, i). length m - i)") (auto simp: mem_simps)

declare goWhile.simps [simp del] goNum.simps [simp del]

definition endofblock :: string where
  "endofblock = ''}]''"

definition setToNull :: "char list \<Rightarrow> nat \<Rightarrow> (char list \<times> nat) option" where
  "setToNull m p = do {
     c \<leftarrow> rd m p;
     if \<not> isOneOfThem c endofblock then do { m \<leftarrow> wr m p NUL; Some (m, p + 1) }
     else Some (m, p) }"

definition isEndOfPrimitive :: "char \<Rightarrow> bool" where
  "isEndOfPrimitive ch \<longleftrightarrow> ch = CHR '','' \<or> isOneOfThem ch blank \<or> isOneOfThem ch endofblock"

section \<open>Strings\<close>

definition escape_pairs :: "(char \<times> char) list" where
  "escape_pairs =
     [(CHR 0x22, CHR 0x22), (CHR 0x5C, CHR 0x5C), (CHR ''/'', CHR ''/''), (CHR ''b'', CHR 0x08),
      (CHR ''f'', CHR 0x0C), (CHR ''n'', CHR 0x0A), (CHR ''r'', CHR 0x0D), (CHR ''t'', CHR 0x09)]"

definition getEscape :: "char \<Rightarrow> char" where
  "getEscape ch = (case map_of escape_pairs ch of Some code \<Rightarrow> code | None \<Rightarrow> NUL)"

fun unicode_digits :: "nat \<Rightarrow> char list \<Rightarrow> nat \<Rightarrow> char option" where
  "unicode_digits 0 m i = Some (CHR ''?'')"
| "unicode_digits (Suc k) m i = do {
     c \<leftarrow> rd m i;
     if \<not> isxdigit c then Some NUL else unicode_digits k m (i + 1) }"

definition getCharFromUnicode :: "char list \<Rightarrow> nat \<Rightarrow> char option" where
  "getCharFromUnicode m i = unicode_digits 4 m i"

text \<open>\<open>head\<close> reads, \<open>tail\<close> writes.\<close>

function parseString :: "char list \<Rightarrow> nat \<Rightarrow> nat \<Rightarrow> (char list \<times> nat option) option" where
  "parseString m head tail = do {
     c \<leftarrow> rd m head;
     if chr_code c < 32 then Some (m, None)
     else if c = CHR 0x22 then do { m' \<leftarrow> wr m tail NUL; Some (m', Some (head + 1)) }
     else if c = CHR 0x5C then do {
       e \<leftarrow> rd m (head + 1);
       if e = CHR ''u'' then do {
         ch \<leftarrow> getCharFromUnicode m (head + 2);
         if ch = NUL then Some (m, None)
         else do { m' \<leftarrow> wr m tail ch; parseString m' (head + 2 + 3 + 1) (tail + 1) } }
       else if getEscape e = NUL then Some (m, None)
       else do { m' \<leftarrow> wr m tail (getEscape e); parseString m' (head + 1 + 1) (tail + 1) } }
     else do { m' \<leftarrow> wr m tail c; parseString m' (head + 1) (tail + 1) } }"
  by pat_completeness auto
termination
  by (relation "measure (\<lambda>(m, h, t). length m - h)") (auto simp: mem_simps)

declare parseString.simps [simp del]

text \<open>The name pointer and the position after the colon and blanks.\<close>

definition propertyName :: "char list \<Rightarrow> nat \<Rightarrow> (char list \<times> nat \<times> nat option) option" where
  "propertyName m ptr = do {
     (m, r) \<leftarrow> parseString m (ptr + 1) (ptr + 1);
     case r of None \<Rightarrow> Some (m, ptr + 1, None)
     | Some p \<Rightarrow> do {
         r \<leftarrow> goBlank m p;
         case r of None \<Rightarrow> Some (m, ptr + 1, None)
         | Some p \<Rightarrow> do {
             c \<leftarrow> rd m p;
             if c \<noteq> CHR '':'' then Some (m, ptr + 1, None)
             else do { r \<leftarrow> goBlank m (p + 1); Some (m, ptr + 1, r) } } } }"

section \<open>Values\<close>

text \<open>A value parser returns the buffer and, on success, the position after the value, the
  value pointer and the type it stores in the property.\<close>

type_synonym value_result = "(char list \<times> (nat \<times> nat \<times> jsonType_t) option) option"

definition textValue :: "char list \<Rightarrow> nat \<Rightarrow> nat \<Rightarrow> value_result" where
  "textValue m ptr val = do {
     (m, r) \<leftarrow> parseString m (ptr + 1) (ptr + 1);
     case r of None \<Rightarrow> Some (m, None) | Some p \<Rightarrow> Some (m, Some (p, val + 1, JSON_TEXT)) }"

fun checkStr :: "char list \<Rightarrow> nat \<Rightarrow> string \<Rightarrow> nat option option" where
  "checkStr m p [] = Some (Some p)"
| "checkStr m p (s # ss) = do {
     c \<leftarrow> rd m p;
     if c \<noteq> s then Some None else checkStr m (p + 1) ss }"

definition primitiveValue :: "char list \<Rightarrow> nat \<Rightarrow> nat \<Rightarrow> string \<Rightarrow> jsonType_t \<Rightarrow> value_result" where
  "primitiveValue m ptr val lit ty = do {
     r \<leftarrow> checkStr m ptr lit;
     case r of None \<Rightarrow> Some (m, None)
     | Some p \<Rightarrow> do {
         c \<leftarrow> rd m p;
         if \<not> isEndOfPrimitive c then Some (m, None)
         else do { (m, p) \<leftarrow> setToNull m p; Some (m, Some (p, val, ty)) } } }"

definition trueValue :: "char list \<Rightarrow> nat \<Rightarrow> nat \<Rightarrow> value_result" where
  "trueValue m ptr val = primitiveValue m ptr val ''true'' JSON_BOOLEAN"

definition falseValue :: "char list \<Rightarrow> nat \<Rightarrow> nat \<Rightarrow> value_result" where
  "falseValue m ptr val = primitiveValue m ptr val ''false'' JSON_BOOLEAN"

definition nullValue :: "char list \<Rightarrow> nat \<Rightarrow> nat \<Rightarrow> value_result" where
  "nullValue m ptr val = primitiveValue m ptr val ''null'' JSON_NULL"

definition expValue :: "char list \<Rightarrow> nat \<Rightarrow> nat option option" where
  "expValue m ptr = do {
     c \<leftarrow> rd m ptr;
     let ptr = (if c = CHR ''-'' \<or> c = CHR ''+'' then ptr + 1 else ptr);
     c \<leftarrow> rd m ptr;
     if \<not> isdigit c then Some None else goNum m (ptr + 1) }"

definition fraqValue :: "char list \<Rightarrow> nat \<Rightarrow> nat option option" where
  "fraqValue m ptr = do {
     c \<leftarrow> rd m ptr;
     if \<not> isdigit c then Some None else goNum m (ptr + 1) }"

definition int_min_text :: string where
  "int_min_text = ''-9223372036854775808''"

definition int_max_text :: string where
  "int_max_text = ''9223372036854775807''"

text \<open>The integer part: the position of the first byte after it.\<close>

definition numInt :: "char list \<Rightarrow> nat \<Rightarrow> nat option option" where
  "numInt m ptr = do {
     c \<leftarrow> rd m ptr;
     let ptr = (if c = CHR ''-'' then ptr + 1 else ptr);
     c \<leftarrow> rd m ptr;
     if \<not> isdigit c then Some None
     else if c \<noteq> CHR ''0'' then goNum m ptr
     else do { d \<leftarrow> rd m (ptr + 1); if isdigit d then Some None else Some (Some (ptr + 1)) } }"

text \<open>The optional fraction and exponent; the type says whether there was one.\<close>

definition numFrac :: "char list \<Rightarrow> nat \<Rightarrow> (nat \<times> jsonType_t) option option" where
  "numFrac m ptr = do {
     c \<leftarrow> rd m ptr;
     if c \<noteq> CHR ''.'' then Some (Some (ptr, JSON_INTEGER))
     else do { r \<leftarrow> fraqValue m (ptr + 1); Some (map_option (\<lambda>p. (p, JSON_REAL)) r) } }"

definition numExp :: "char list \<Rightarrow> nat \<Rightarrow> jsonType_t \<Rightarrow> (nat \<times> jsonType_t) option option" where
  "numExp m ptr ty = do {
     c \<leftarrow> rd m ptr;
     if c = CHR ''e'' \<or> c = CHR ''E''
     then do { r \<leftarrow> expValue m (ptr + 1); Some (map_option (\<lambda>p. (p, JSON_REAL)) r) }
     else Some (Some (ptr, ty)) }"

text \<open>The range test of an integer between \<open>val\<close> and \<open>ptr\<close>: the buffer, and whether it fits.  A
  literal that is out of range leaves the terminator in place.\<close>

definition numRange :: "char list \<Rightarrow> nat \<Rightarrow> nat \<Rightarrow> (char list \<times> bool) option" where
  "numRange m ptr val = do {
     c \<leftarrow> rd m val;
     let negative = (c = CHR ''-'');
     let threshold = (if negative then int_min_text else int_max_text);
     let maxdigits = length threshold;
     let len = ptr - val;
     if maxdigits < len then Some (m, False)
     else if len = maxdigits then do {
       tmp \<leftarrow> rd m ptr;
       m \<leftarrow> wr m ptr NUL;
       v \<leftarrow> cstr_at m val;
       if strcmp_less threshold v then Some (m, False)
       else do { m \<leftarrow> wr m ptr tmp; Some (m, True) } }
     else Some (m, True) }"

definition numValue :: "char list \<Rightarrow> nat \<Rightarrow> nat \<Rightarrow> value_result" where
  "numValue m ptr val = do {
     r \<leftarrow> numInt m ptr;
     case r of None \<Rightarrow> Some (m, None) | Some p \<Rightarrow> do {
       r \<leftarrow> numFrac m p;
       case r of None \<Rightarrow> Some (m, None) | Some (p, ty) \<Rightarrow> do {
         r \<leftarrow> numExp m p ty;
         case r of None \<Rightarrow> Some (m, None) | Some (p, ty) \<Rightarrow> do {
           c \<leftarrow> rd m p;
           if \<not> isEndOfPrimitive c then Some (m, None)
           else do {
             (m, fits) \<leftarrow> (if ty = JSON_INTEGER then numRange m p val else Some (m, True));
             if \<not> fits then Some (m, None)
             else do { (m, p) \<leftarrow> setToNull m p; Some (m, Some (p, val, ty)) } } } } } }"

section \<open>Objects and arrays\<close>

definition poolInit :: "json_t list \<Rightarrow> jsonPool_t" where
  "poolInit mem = \<lparr>pmem = mem, nextFree = 1\<rparr>"

definition poolNew :: "jsonPool_t \<Rightarrow> (nat \<times> jsonPool_t) option" where
  "poolNew pool =
     (if length (pmem pool) \<le> nextFree pool then None
      else Some (nextFree pool, pool\<lparr>nextFree := nextFree pool + 1\<rparr>))"

definition json_add :: "json_t list \<Rightarrow> nat \<Rightarrow> nat \<Rightarrow> json_t list option" where
  "json_add mem obj property = do {
     mem \<leftarrow> upd mem property (\<lambda>j. j\<lparr>jsibling := None\<rparr>);
     o' \<leftarrow> rd mem obj;
     case ju o' of
       UValue _ \<Rightarrow> None
     | UChildren None \<Rightarrow> upd mem obj (\<lambda>j. j\<lparr>ju := UChildren (Some (property, property))\<rparr>)
     | UChildren (Some (c, l)) \<Rightarrow> do {
         mem \<leftarrow> upd mem l (\<lambda>j. j\<lparr>jsibling := Some property\<rparr>);
         upd mem obj (\<lambda>j. j\<lparr>ju := UChildren (Some (c, property))\<rparr>) } }"

text \<open>The outcome of one round of the loop: go on with the current object and position, or
  return.\<close>

datatype obj_step =
    Go "char list" jsonPool_t nat nat
  | Done "char list" jsonPool_t "nat option"

text \<open>Entering a container: its sibling pointer holds the enclosing object meanwhile.\<close>

definition open_container :: "json_t list \<Rightarrow> nat \<Rightarrow> nat \<Rightarrow> jsonType_t \<Rightarrow> json_t list option" where
  "open_container mem property obj ty =
     upd mem property (\<lambda>j. j\<lparr>jtype := ty, ju := UChildren None, jsibling := Some obj\<rparr>)"

text \<open>The \<open>switch\<close> on the first byte of a value, for the property already linked.\<close>

definition json_value :: "char list \<Rightarrow> jsonPool_t \<Rightarrow> nat \<Rightarrow> nat \<Rightarrow> nat \<Rightarrow> obj_step option" where
  "json_value m pool ptr obj property = do {
     c \<leftarrow> rd m ptr;
     if c = CHR ''{'' then do {
       mem \<leftarrow> open_container (pmem pool) property obj JSON_OBJ;
       Some (Go m (pool\<lparr>pmem := mem\<rparr>) (ptr + 1) property) }
     else if c = CHR ''['' then do {
       mem \<leftarrow> open_container (pmem pool) property obj JSON_ARRAY;
       Some (Go m (pool\<lparr>pmem := mem\<rparr>) (ptr + 1) property) }
     else do {
       (m, r) \<leftarrow> (if c = CHR 0x22 then textValue m ptr ptr
                  else if c = CHR ''t'' then trueValue m ptr ptr
                  else if c = CHR ''f'' then falseValue m ptr ptr
                  else if c = CHR ''n'' then nullValue m ptr ptr
                  else numValue m ptr ptr);
       case r of None \<Rightarrow> Some (Done m pool None)
       | Some (p, val, ty) \<Rightarrow> do {
           mem \<leftarrow> upd (pmem pool) property (\<lambda>j. j\<lparr>ju := UValue val, jtype := ty\<rparr>);
           Some (Go m (pool\<lparr>pmem := mem\<rparr>) p obj) } } }"

text \<open>The end character: the container is closed and its parent, kept in the sibling pointer,
  becomes the current object again.\<close>

definition obj_close :: "char list \<Rightarrow> jsonPool_t \<Rightarrow> nat \<Rightarrow> nat \<Rightarrow> obj_step option" where
  "obj_close m pool ptr obj = do {
     o' \<leftarrow> rd (pmem pool) obj;
     m \<leftarrow> wr m ptr NUL;
     case jsibling o' of None \<Rightarrow> Some (Done m pool (Some (ptr + 1)))
     | Some parentObj \<Rightarrow> do {
         mem \<leftarrow> upd (pmem pool) obj (\<lambda>j. j\<lparr>jsibling := None\<rparr>);
         Some (Go m (pool\<lparr>pmem := mem\<rparr>) (ptr + 1) parentObj) } }"

text \<open>The name of a property, absent in an array, and where its value starts.\<close>

definition obj_key :: "char list \<Rightarrow> nat \<Rightarrow> jsonType_t \<Rightarrow> (char list \<times> nat option \<times> nat option) option" where
  "obj_key m ptr ty =
     (if ty \<noteq> JSON_ARRAY then do {
        c \<leftarrow> rd m ptr;
        if c \<noteq> CHR 0x22 then Some (m, None, None)
        else do { (m, nm, r) \<leftarrow> propertyName m ptr; Some (m, Some nm, r) } }
      else Some (m, None, Some ptr))"

text \<open>A new property: allocated, named, linked below the current object, then parsed.\<close>

definition obj_property :: "char list \<Rightarrow> jsonPool_t \<Rightarrow> nat \<Rightarrow> nat \<Rightarrow> jsonType_t \<Rightarrow> obj_step option" where
  "obj_property m pool ptr obj ty =
     (case poolNew pool of None \<Rightarrow> Some (Done m pool None)
      | Some (property, pool) \<Rightarrow> do {
          (m, nm, r) \<leftarrow> obj_key m ptr ty;
          case r of None \<Rightarrow> Some (Done m pool None)
          | Some ptr \<Rightarrow> do {
              mem \<leftarrow> upd (pmem pool) property (\<lambda>j. j\<lparr>jname := nm\<rparr>);
              mem \<leftarrow> json_add mem obj property;
              json_value m (pool\<lparr>pmem := mem\<rparr>) ptr obj property } })"

definition objValue_step :: "char list \<Rightarrow> jsonPool_t \<Rightarrow> nat \<Rightarrow> nat \<Rightarrow> obj_step option" where
  "objValue_step m pool ptr obj = do {
     r \<leftarrow> goBlank m ptr;
     case r of None \<Rightarrow> Some (Done m pool None)
     | Some ptr \<Rightarrow> do {
       c \<leftarrow> rd m ptr;
       if c = CHR '','' then Some (Go m pool (ptr + 1) obj)
       else do {
         o' \<leftarrow> rd (pmem pool) obj;
         let endchar = (if jtype o' = JSON_OBJ then CHR ''}'' else CHR '']'');
         if c = endchar then obj_close m pool ptr obj
         else obj_property m pool ptr obj (jtype o') } } }"

partial_function (option) objValue_loop ::
    "char list \<Rightarrow> jsonPool_t \<Rightarrow> nat \<Rightarrow> nat \<Rightarrow> (char list \<times> jsonPool_t \<times> nat option) option" where
  "objValue_loop m pool ptr obj = do {
     s \<leftarrow> objValue_step m pool ptr obj;
     case s of
       Done m pool r \<Rightarrow> Some (m, pool, r)
     | Go m pool ptr obj \<Rightarrow> objValue_loop m pool ptr obj }"

declare objValue_loop.simps [code]

definition objValue ::
    "char list \<Rightarrow> nat \<Rightarrow> nat \<Rightarrow> jsonPool_t \<Rightarrow> (char list \<times> jsonPool_t \<times> nat option) option" where
  "objValue m ptr obj pool = do {
     mem \<leftarrow> upd (pmem pool) obj (\<lambda>j. j\<lparr>jtype := JSON_OBJ, ju := UChildren None, jsibling := None\<rparr>);
     objValue_loop m (pool\<lparr>pmem := mem\<rparr>) (ptr + 1) obj }"

text \<open>The text starts at the first byte of the buffer; the result is the modified text, the pool
  and the index of the root.\<close>

definition json_create :: "char list \<Rightarrow> json_t list \<Rightarrow> (char list \<times> json_t list \<times> nat option) option" where
  "json_create m mem = do {
     r \<leftarrow> goBlank m 0;
     case r of None \<Rightarrow> Some (m, mem, None)
     | Some ptr \<Rightarrow> do {
         c \<leftarrow> rd m ptr;
         if c \<noteq> CHR ''{'' then Some (m, mem, None)
         else do {
           let pool = poolInit mem;
           mem \<leftarrow> upd (pmem pool) 0 (\<lambda>j. j\<lparr>jname := None, jsibling := None, ju := UChildren None\<rparr>);
           (m, pool, r) \<leftarrow> objValue m ptr 0 (pool\<lparr>pmem := mem\<rparr>);
           Some (m, pmem pool, if r = None then None else Some 0) } } }"

section \<open>Looking properties up\<close>

definition json_getChild :: "json_t list \<Rightarrow> nat \<Rightarrow> nat option option" where
  "json_getChild mem i = do {
     j \<leftarrow> rd mem i;
     case ju j of UValue _ \<Rightarrow> None | UChildren cs \<Rightarrow> Some (map_option fst cs) }"

definition json_getSibling :: "json_t list \<Rightarrow> nat \<Rightarrow> nat option option" where
  "json_getSibling mem i = do { j \<leftarrow> rd mem i; Some (jsibling j) }"

definition json_getType :: "json_t list \<Rightarrow> nat \<Rightarrow> jsonType_t option" where
  "json_getType mem i = do { j \<leftarrow> rd mem i; Some (jtype j) }"

definition json_getValue :: "char list \<Rightarrow> json_t list \<Rightarrow> nat \<Rightarrow> string option" where
  "json_getValue m mem i = do {
     j \<leftarrow> rd mem i;
     case ju j of UChildren _ \<Rightarrow> None | UValue v \<Rightarrow> cstr_at m v }"

text \<open>Whether the name of a node is the given one; an unnamed node never matches.\<close>

definition name_matches :: "char list \<Rightarrow> json_t \<Rightarrow> string \<Rightarrow> bool option" where
  "name_matches m j property =
     (case jname j of None \<Rightarrow> Some False | Some n \<Rightarrow> do { s \<leftarrow> cstr_at m n; Some (s = property) })"

partial_function (option) getProperty_loop ::
    "char list \<Rightarrow> json_t list \<Rightarrow> string \<Rightarrow> nat option \<Rightarrow> nat option option" where
  "getProperty_loop m mem property sibling =
     (if sibling = None then Some None
      else do {
        j \<leftarrow> rd mem (the sibling);
        b \<leftarrow> name_matches m j property;
        if b then Some sibling else getProperty_loop m mem property (jsibling j) })"

declare getProperty_loop.simps [code]

definition json_getProperty :: "char list \<Rightarrow> json_t list \<Rightarrow> nat \<Rightarrow> string \<Rightarrow> nat option option" where
  "json_getProperty m mem obj property = do {
     c \<leftarrow> json_getChild mem obj;
     getProperty_loop m mem property c }"

definition json_getPropertyValue ::
    "char list \<Rightarrow> json_t list \<Rightarrow> nat \<Rightarrow> string \<Rightarrow> string option option" where
  "json_getPropertyValue m mem obj property = do {
     f \<leftarrow> json_getProperty m mem obj property;
     case f of None \<Rightarrow> Some None
     | Some field \<Rightarrow> do {
         ty \<leftarrow> json_getType mem field;
         if ty \<in> {JSON_OBJ, JSON_ARRAY} then Some None
         else do { v \<leftarrow> json_getValue m mem field; Some (Some v) } } }"

section \<open>No fault, lengths and progress\<close>

lemma run_upd [run_simps]: "run (upd m i f) Q \<longleftrightarrow> i < length m \<and> Q (m[i := f (m ! i)])"
  by (auto simp: run_def upd_def)

text \<open>Where a scanner stops: at a byte that is not the terminator, not before its start.\<close>

definition stops :: "char list \<Rightarrow> nat \<Rightarrow> nat option \<Rightarrow> bool" where
  "stops m i r \<longleftrightarrow> (\<forall>j. r = Some j \<longrightarrow> i \<le> j \<and> Suc j < length m \<and> m ! j \<noteq> NUL)"

lemma goWhile_run:
  assumes "nulterm m" and "i < length m"
  shows "run (goWhile m i st) (stops m i)"
  using assms(2)
proof (induction "length m - i" arbitrary: i rule: less_induct)
  case less
  have "run (goWhile m (Suc i) st) (stops m i)" if "m ! i \<noteq> NUL"
    using nulterm_next [OF assms(1) less.prems that] less.prems
    by (intro run_mono [OF less.hyps]) (auto simp: stops_def)
  with less.prems nulterm_next [OF assms(1) less.prems] show ?case
    by (subst goWhile.simps) (auto simp: run_simps stops_def)
qed

lemma goNum_run:
  assumes "nulterm m" and "i < length m"
  shows "run (goNum m i) (stops m i)"
  using assms(2)
proof (induction "length m - i" arbitrary: i rule: less_induct)
  case less
  have "run (goNum m (Suc i)) (stops m i)" if "m ! i \<noteq> NUL"
    using nulterm_next [OF assms(1) less.prems that] less.prems
    by (intro run_mono [OF less.hyps]) (auto simp: stops_def)
  with less.prems nulterm_next [OF assms(1) less.prems] show ?case
    by (subst goNum.simps) (auto simp: run_simps stops_def)
qed

lemmas goBlank_run = goWhile_run [of _ _ blank, folded goBlank_def]

text \<open>What a writer leaves: a terminated buffer of the same length, and on success a position
  after its start.\<close>

definition leaves :: "char list \<Rightarrow> nat \<Rightarrow> char list \<Rightarrow> nat option \<Rightarrow> bool" where
  "leaves m i m' r \<longleftrightarrow> nulterm m' \<and> length m' = length m \<and> (\<forall>p. r = Some p \<longrightarrow> i < p \<and> p < length m)"

lemma unicode_digits_run:
  assumes "nulterm m"
  shows "i < length m \<Longrightarrow> run (unicode_digits k m i) (\<lambda>c. c \<noteq> NUL \<longrightarrow> i + k < length m)"
proof (induction k arbitrary: i)
  case (Suc k)
  have "run (unicode_digits k m (Suc i)) (\<lambda>c. c \<noteq> NUL \<longrightarrow> i + Suc k < length m)"
    if "isxdigit (m ! i)"
  proof -
    from that have "m ! i \<noteq> NUL" by auto
    from nulterm_next [OF assms Suc.prems this] show ?thesis
      by (intro run_mono [OF Suc.IH]) auto
  qed
  then show ?case using Suc.prems by (auto simp: run_simps)
qed (simp add: run_simps)

lemmas getCharFromUnicode_run =
  unicode_digits_run [where k = 4, folded getCharFromUnicode_def]

lemma getEscape_NUL: "getEscape NUL = NUL"
  by (simp add: getEscape_def escape_pairs_def)

lemma parseString_run:
  assumes "nulterm m" and "t \<le> h" and "h < length m"
  shows "run (parseString m h t) (\<lambda>(m', r). leaves m h m' r)"
  using assms
proof (induction "length m - h" arbitrary: m h t rule: less_induct)
  case less
  note m = less.prems(1) and th = less.prems(2) and h = less.prems(3)
  have rec: "run (parseString (m[t := x]) h' (Suc t)) (\<lambda>(m', r). leaves m h m' r)"
    if "h < h'" "h' < length m" for x h'
    using that th h m
    by (intro run_mono [OF less.hyps]) (auto simp: leaves_def intro!: nulterm_update)
  have nx: "Suc h < length m" if "32 \<le> chr_code (m ! h)"
    using nulterm_next [OF m h] that by (cases "m ! h = NUL") (auto simp: chr_code_def)
  have n2: "Suc (Suc h) < length m" if "Suc h < length m" "m ! Suc h \<noteq> NUL"
    using nulterm_next [OF m that] .
  show ?case
  proof (cases "chr_code (m ! h) < 32 \<or> m ! h = CHR 0x22")
    case True
    then show ?thesis using m th h nx
      by (subst parseString.simps) (auto simp: run_simps leaves_def)
  next
    case False
    with nx have n: "Suc h < length m" by simp
    show ?thesis
    proof (cases "m ! h = CHR 0x5C")
      case bs: True
      show ?thesis
      proof (cases "m ! Suc h = CHR ''u''")
        case True
        with n2 [OF n] have "run (getCharFromUnicode m (h + 2))
            (\<lambda>c. c \<noteq> NUL \<longrightarrow> h + 2 + 4 < length m)"
          by (intro getCharFromUnicode_run [OF m]) simp
        moreover have "leaves m h m None" using m by (simp add: leaves_def)
        ultimately show ?thesis using False bs True n m th h rec
          by (subst parseString.simps) (auto simp: run_simps elim!: run_mono)
      next
        case u: False
        moreover have "leaves m h m None" using m by (simp add: leaves_def)
        moreover have "Suc (Suc h) < length m" if "getEscape (m ! Suc h) \<noteq> NUL"
          using n2 [OF n] that getEscape_NUL by (cases "m ! Suc h = NUL") auto
        ultimately show ?thesis using False bs n m th h rec
          by (subst parseString.simps) (auto simp: run_simps)
      qed
    next
      case bs: False
      then show ?thesis using False n th h rec
        by (subst parseString.simps) (simp add: run_simps)
    qed
  qed
qed

lemma propertyName_run:
  assumes "nulterm m" and "Suc ptr < length m"
  shows "run (propertyName m ptr) (\<lambda>(m', nm, r). leaves m ptr m' r \<and> nm = ptr + 1
           \<and> (\<forall>p. r = Some p \<longrightarrow> m' ! p \<noteq> NUL))"
  using assms unfolding propertyName_def
  by (auto simp: run_simps leaves_def stops_def
      intro!: run_mono [OF parseString_run] run_mono [OF goBlank_run])

text \<open>Value parsers also return the value pointer they were given, or the next one.\<close>

definition value_leaves ::
    "char list \<Rightarrow> nat \<Rightarrow> nat \<Rightarrow> char list \<times> (nat \<times> nat \<times> jsonType_t) option \<Rightarrow> bool" where
  "value_leaves m i val x \<longleftrightarrow> (case x of (m', r) \<Rightarrow>
     leaves m i m' (map_option fst r) \<and>
     (\<forall>p v ty. r = Some (p, v, ty) \<longrightarrow> v \<in> {val, val + 1} \<and> \<not> (ty = JSON_OBJ \<or> ty = JSON_ARRAY)))"

lemma textValue_run:
  "nulterm m \<Longrightarrow> Suc ptr < length m \<Longrightarrow> run (textValue m ptr val) (value_leaves m ptr val)"
  unfolding textValue_def
  by (auto simp: run_simps value_leaves_def leaves_def intro!: run_mono [OF parseString_run])

lemma checkStr_run:
  assumes "nulterm m"
  shows "i < length m \<Longrightarrow> NUL \<notin> set s \<Longrightarrow>
    run (checkStr m i s) (\<lambda>r. \<forall>p. r = Some p \<longrightarrow> i \<le> p \<and> p < length m \<and> (s \<noteq> [] \<longrightarrow> i < p))"
proof (induction s arbitrary: i)
  case (Cons x xs)
  have "run (checkStr m (Suc i) xs) (\<lambda>r. \<forall>p. r = Some p \<longrightarrow> i < p \<and> p < length m)"
    if "m ! i = x"
    using that Cons.prems nulterm_next [OF assms Cons.prems(1)]
    by (intro run_mono [OF Cons.IH]) auto
  with Cons.prems show ?case by (auto simp: run_simps elim!: run_mono)
qed (simp add: run_simps)

lemma setToNull_run:
  "nulterm m \<Longrightarrow> p < length m \<Longrightarrow> m ! p \<noteq> NUL \<Longrightarrow>
     run (setToNull m p)
       (\<lambda>(m', q). nulterm m' \<and> length m' = length m \<and> p \<le> q \<and> q < length m)"
  unfolding setToNull_def by (auto simp: run_simps dest: nulterm_next)

lemma isEndOfPrimitive_not_NUL [simp]: "\<not> isEndOfPrimitive NUL"
  by (simp add: isEndOfPrimitive_def blank_def endofblock_def)

lemma isEndOfPrimitiveD: "isEndOfPrimitive c \<Longrightarrow> c \<noteq> NUL"
  by auto

lemma primitiveValue_run:
  assumes "nulterm m" "ptr < length m" "NUL \<notin> set lit" "lit \<noteq> []" "ty \<noteq> JSON_OBJ" "ty \<noteq> JSON_ARRAY"
  shows "run (primitiveValue m ptr val lit ty) (value_leaves m ptr val)"
  using assms unfolding primitiveValue_def
  by (auto simp: run_simps value_leaves_def leaves_def dest!: isEndOfPrimitiveD
      intro!: run_mono [OF checkStr_run] run_mono [OF setToNull_run])

lemma isdigit_not_NUL: "isdigit c \<Longrightarrow> c \<noteq> NUL"
  by auto

lemma numInt_run:
  assumes "nulterm m" "ptr < length m"
  shows "run (numInt m ptr) (\<lambda>r. \<forall>p. r = Some p \<longrightarrow> ptr < p \<and> p < length m)"
proof -
  have num: "run (goNum m i) (\<lambda>r. \<forall>p. r = Some p \<longrightarrow> ptr < p \<and> p < length m)"
    if "i < length m" "isdigit (m ! i)" "ptr \<le> i" for i
  proof -
    have "Suc i < length m"
      using nulterm_next [OF assms(1) that(1)] isdigit_not_NUL [OF that(2)] by simp
    moreover have "goNum m i = goNum m (Suc i)"
      using that by (subst goNum.simps) (auto simp: rd_def)
    ultimately show ?thesis
      using goNum_run [OF assms(1), of "Suc i"] that(3) by (auto simp: stops_def elim!: run_mono)
  qed
  have sg: "Suc ptr < length m" if "m ! ptr = CHR ''-''"
    using nulterm_next [OF assms] that by simp
  have z: "Suc i < length m" if "i < length m" "isdigit (m ! i)" for i
    using nulterm_next [OF assms(1) that(1)] isdigit_not_NUL [OF that(2)] by simp
  show ?thesis unfolding numInt_def using assms(2) num sg z
    by (auto simp: run_simps Let_def elim!: run_mono)
qed

lemma expValue_run:
  assumes "nulterm m" "ptr < length m"
  shows "run (expValue m ptr) (stops m ptr)"
proof -
  have sg: "Suc ptr < length m" if "m ! ptr \<in> {CHR ''-'', CHR ''+''}"
    using nulterm_next [OF assms] that by auto
  have z: "Suc i < length m" if "i < length m" "isdigit (m ! i)" for i
    using nulterm_next [OF assms(1) that(1)] isdigit_not_NUL [OF that(2)] by simp
  show ?thesis unfolding expValue_def using assms sg z
    by (auto simp: run_simps Let_def stops_def intro!: run_mono [OF goNum_run])
qed

lemma fraqValue_run:
  assumes "nulterm m" "ptr < length m"
  shows "run (fraqValue m ptr) (stops m ptr)"
  unfolding fraqValue_def
  using assms nulterm_next [OF assms]
  by (auto simp: run_simps stops_def dest!: isdigit_not_NUL intro!: run_mono [OF goNum_run])

lemma numFrac_run:
  assumes "nulterm m" "ptr < length m"
  shows "run (numFrac m ptr) (\<lambda>r. \<forall>p ty. r = Some (p, ty) \<longrightarrow> ptr \<le> p \<and> p < length m
           \<and> ty \<in> {JSON_INTEGER, JSON_REAL})"
  unfolding numFrac_def using assms nulterm_next [OF assms]
  by (auto simp: run_simps stops_def intro!: run_mono [OF fraqValue_run])

lemma numExp_run:
  assumes "nulterm m" "ptr < length m" "ty \<in> {JSON_INTEGER, JSON_REAL}"
  shows "run (numExp m ptr ty) (\<lambda>r. \<forall>p ty. r = Some (p, ty) \<longrightarrow> ptr \<le> p \<and> p < length m
           \<and> ty \<in> {JSON_INTEGER, JSON_REAL})"
  unfolding numExp_def using assms nulterm_next [OF assms(1,2)]
  by (auto simp: run_simps stops_def intro!: run_mono [OF expValue_run])

lemma numRange_run:
  assumes "nulterm m" "val \<le> ptr" "Suc ptr < length m"
  shows "run (numRange m ptr val) (\<lambda>(m', fits). nulterm m' \<and> length m' = length m
           \<and> (fits \<longrightarrow> m' = m))"
proof -
  have "run (cstr_at (m[ptr := NUL]) val) (\<lambda>v. True)"
    using nulterm_cstr_at [OF nulterm_update_NUL [OF assms(1)], of val ptr] assms(2,3)
    by (auto simp: run_def)
  with assms show ?thesis unfolding numRange_def
    by (auto simp: run_simps Let_def nulterm_update elim!: run_mono)
qed

lemma numValue_run:
  assumes "nulterm m" "ptr < length m" "val \<le> ptr"
  shows "run (numValue m ptr val) (value_leaves m ptr val)"
  using assms nulterm_next [OF assms(1)] unfolding numValue_def
  by (auto simp: run_simps value_leaves_def leaves_def dest!: isEndOfPrimitiveD
      intro!: run_mono [OF numInt_run] run_mono [OF numFrac_run] run_mono [OF numExp_run]
        run_mono [OF numRange_run] run_mono [OF setToNull_run])

section \<open>The pool\<close>

text \<open>A complete node: a value inside the text with a value type, or a container whose first and
  last child come after it in the pool.\<close>

definition node_ok :: "nat \<Rightarrow> nat \<Rightarrow> nat \<Rightarrow> json_t \<Rightarrow> bool" where
  "node_ok ml nf i j \<longleftrightarrow>
     (case ju j of
        UValue v \<Rightarrow> v < ml \<and> jtype j \<noteq> JSON_OBJ \<and> jtype j \<noteq> JSON_ARRAY
      | UChildren cs \<Rightarrow> (jtype j = JSON_OBJ \<or> jtype j = JSON_ARRAY)
          \<and> (\<forall>c l. cs = Some (c, l) \<longrightarrow> i < c \<and> c < nf \<and> i < l \<and> l < nf)) \<and>
     (\<forall>n. jname j = Some n \<longrightarrow> n < ml)"

definition forward :: "nat \<Rightarrow> nat \<Rightarrow> json_t \<Rightarrow> bool" where
  "forward nf i j \<longleftrightarrow> (\<forall>s. jsibling j = Some s \<longrightarrow> i < s \<and> s < nf)"

definition container :: "json_t \<Rightarrow> bool" where
  "container j \<longleftrightarrow> (\<exists>cs. ju j = UChildren cs)"

text \<open>The containers being parsed, innermost first: each one's sibling pointer is its parent.\<close>

fun open_chain :: "json_t list \<Rightarrow> nat list \<Rightarrow> bool" where
  "open_chain mem [] \<longleftrightarrow> False"
| "open_chain mem [i] \<longleftrightarrow> i = 0 \<and> jsibling (mem ! i) = None"
| "open_chain mem (i # p # r) \<longleftrightarrow> jsibling (mem ! i) = Some p \<and> p < i \<and> open_chain mem (p # r)"

definition pool_inv :: "nat \<Rightarrow> json_t list \<Rightarrow> nat \<Rightarrow> nat list \<Rightarrow> bool" where
  "pool_inv ml mem nf path \<longleftrightarrow>
     nf \<le> length mem \<and> open_chain mem path \<and> (\<forall>i \<in> set path. i < nf \<and> container (mem ! i))
     \<and> (\<forall>i < nf. node_ok ml nf i (mem ! i)) \<and> (\<forall>i < nf. i \<notin> set path \<longrightarrow> forward nf i (mem ! i))"

text \<open>The pool after a successful parse.\<close>

definition pool_closed :: "nat \<Rightarrow> json_t list \<Rightarrow> nat \<Rightarrow> bool" where
  "pool_closed ml mem nf \<longleftrightarrow> nf \<le> length mem \<and> 0 < nf \<and> container (mem ! 0) \<and>
     (\<forall>i < nf. node_ok ml nf i (mem ! i) \<and> forward nf i (mem ! i))"

lemma open_chain_le: "open_chain mem (o' # r) \<Longrightarrow> i \<in> set r \<Longrightarrow> i < o'"
  by (induction mem "o' # r" arbitrary: o' r rule: open_chain.induct) fastforce+

lemma open_chain_cong:
  "(\<And>i. i \<in> set path \<Longrightarrow> jsibling (mem ! i) = jsibling (mem' ! i)) \<Longrightarrow> open_chain mem path = open_chain mem' path"
  by (induction mem path rule: open_chain.induct) auto

lemma node_ok_sibling [simp]: "node_ok ml nf i (j\<lparr>jsibling := s\<rparr>) = node_ok ml nf i j"
  by (simp add: node_ok_def split: json_u.split)

lemma container_sibling [simp]: "container (j\<lparr>jsibling := s\<rparr>) = container j"
  by (simp add: container_def)

lemma node_ok_mono: "node_ok ml nf i j \<Longrightarrow> nf \<le> nf' \<Longrightarrow> node_ok ml nf' i j"
  by (auto simp: node_ok_def split: json_u.splits)

lemma forward_mono: "forward nf i j \<Longrightarrow> nf \<le> nf' \<Longrightarrow> forward nf' i j"
  by (auto simp: forward_def)

lemma pool_inv_close:
  assumes inv: "pool_inv ml mem nf (o' # p # r)"
  shows "pool_inv ml (mem[o' := (mem ! o')\<lparr>jsibling := None\<rparr>]) nf (p # r)" (is "pool_inv ml ?m nf _")
proof -
  have out: "o' \<notin> set (p # r)" using inv open_chain_le unfolding pool_inv_def by blast
  have lt: "o' < length mem" using inv by (simp add: pool_inv_def)
  have other: "?m ! i = mem ! i" if "i \<noteq> o'" for i using that by simp
  have self: "?m ! o' = (mem ! o')\<lparr>jsibling := None\<rparr>" using lt by simp
  have "open_chain mem (p # r)" using inv by (simp add: pool_inv_def)
  moreover have "open_chain ?m (p # r) = open_chain mem (p # r)"
  proof (rule open_chain_cong)
    fix i assume "i \<in> set (p # r)"
    with out have "i \<noteq> o'" by blast
    from other [OF this] show "jsibling (?m ! i) = jsibling (mem ! i)" by simp
  qed
  ultimately have ch: "open_chain ?m (p # r)" by simp
  have old: "node_ok ml nf i (mem ! i)" "i \<notin> set (o' # p # r) \<Longrightarrow> forward nf i (mem ! i)"
    if "i < nf" for i
    using inv that unfolding pool_inv_def by blast+
  have "node_ok ml nf i (?m ! i)" if "i < nf" for i
  proof (cases "i = o'")
    case True
    then show ?thesis using old(1) [OF that] by (simp only: self node_ok_sibling)
  next
    case False
    show ?thesis unfolding other [OF False] by (rule old(1) [OF that])
  qed
  moreover have "forward nf i (?m ! i)" if "i < nf" "i \<notin> set (p # r)" for i
  proof (cases "i = o'")
    case True
    then show ?thesis by (simp only: self) (simp add: forward_def)
  next
    case False
    with that have "i \<notin> set (o' # p # r)" by simp
    show ?thesis unfolding other [OF False] by (rule old(2) [OF that(1) \<open>i \<notin> set (o' # p # r)\<close>])
  qed
  moreover have "i < nf \<and> container (?m ! i)" if "i \<in> set (p # r)" for i
  proof -
    from out that have "i \<noteq> o'" by blast
    with inv that other [OF this] show ?thesis by (auto simp: pool_inv_def)
  qed
  ultimately show ?thesis using ch inv by (simp add: pool_inv_def)
qed

lemma pool_inv_done:
  assumes "pool_inv ml mem nf [o']"
  shows "pool_closed ml mem nf"
proof -
  have "o' = 0" "0 < nf" "container (mem ! 0)" "jsibling (mem ! 0) = None"
    using assms by (auto simp: pool_inv_def)
  then show ?thesis using assms unfolding pool_inv_def pool_closed_def forward_def
    by (metis empty_iff empty_set option.simps(3) set_ConsD)
qed

text \<open>Linking a new property below the current container.\<close>

definition linked :: "nat \<Rightarrow> json_t list \<Rightarrow> nat \<Rightarrow> nat list \<Rightarrow> bool" where
  "linked ml mem nf path \<longleftrightarrow> nf < length mem \<and> jsibling (mem ! nf) = None
     \<and> (\<forall>n. jname (mem ! nf) = Some n \<longrightarrow> n < ml)
     \<and> open_chain mem path \<and> (\<forall>i \<in> set path. i < nf \<and> container (mem ! i))
     \<and> (\<forall>i < nf. node_ok ml (Suc nf) i (mem ! i))
     \<and> (\<forall>i < nf. i \<notin> set path \<longrightarrow> forward (Suc nf) i (mem ! i))"

lemma linkedI:
  assumes inv: "pool_inv ml mem nf (o' # r)" and len: "nf < length mem'"
    and new: "jsibling (mem' ! nf) = None" "\<And>n. jname (mem' ! nf) = Some n \<Longrightarrow> n < ml"
    and self: "mem' ! o' = (mem ! o')\<lparr>ju := UChildren (Some (c, nf))\<rparr>" "o' < c" "c \<le> nf"
    and other: "\<And>i. i < nf \<Longrightarrow> i \<noteq> o' \<Longrightarrow>
      mem' ! i = mem ! i \<or> o' < i \<and> mem' ! i = (mem ! i)\<lparr>jsibling := Some nf\<rparr>"
  shows "linked ml mem' nf (o' # r)"
proof -
  have o': "o' < nf" using inv by (simp add: pool_inv_def)
  have ok: "node_ok ml (Suc nf) i (mem ! i)" if "i < nf" for i
    using inv that by (auto simp: pool_inv_def intro: node_ok_mono)
  have okself: "node_ok ml (Suc nf) o' (mem' ! o')"
  proof -
    obtain cs where "ju (mem ! o') = UChildren cs"
      using inv by (auto simp: pool_inv_def container_def)
    with ok [OF o'] self o' show ?thesis by (simp add: node_ok_def)
  qed
  have below: "mem' ! i = mem ! i \<and> i < nf" if "i \<in> set r" for i
  proof -
    have "i < o'" using inv that open_chain_le unfolding pool_inv_def by blast
    with other [of i] o' show ?thesis by auto
  qed
  have "node_ok ml (Suc nf) i (mem' ! i)" if "i < nf" for i
    using okself ok [OF that] other [OF that] by (cases "i = o'") auto
  moreover have "forward (Suc nf) i (mem' ! i)" if "i < nf" "i \<notin> set (o' # r)" for i
  proof -
    have "forward (Suc nf) i (mem ! i)"
      using inv that by (auto simp: pool_inv_def intro: forward_mono)
    then show ?thesis using other [OF that(1)] that by (auto simp: forward_def)
  qed
  moreover have "open_chain mem' (o' # r)"
  proof (subst open_chain_cong [where mem' = mem])
    fix i assume "i \<in> set (o' # r)"
    then show "jsibling (mem' ! i) = jsibling (mem ! i)" using self below by auto
  qed (use inv in \<open>simp add: pool_inv_def\<close>)
  moreover have "i < nf \<and> container (mem' ! i)" if "i \<in> set (o' # r)" for i
    using that below [of i] inv o' self(1) by (auto simp: pool_inv_def container_def)
  ultimately show ?thesis using len new by (simp add: linked_def)
qed

lemma json_add_run:
  assumes inv: "pool_inv ml mem nf (o' # r)" and nf: "nf < length mem"
    and nm: "\<And>n. nm = Some n \<Longrightarrow> n < ml"
  shows "run (json_add (mem[nf := (mem ! nf)\<lparr>jname := nm\<rparr>]) o' nf)
     (\<lambda>mem'. length mem' = length mem \<and> linked ml mem' nf (o' # r))"
proof -
  have o': "o' < nf" "container (mem ! o')" using inv by (simp_all add: pool_inv_def)
  from o'(2) obtain cs where cs: "ju (mem ! o') = UChildren cs" by (auto simp: container_def)
  let ?m0 = "mem[nf := (mem ! nf)\<lparr>jname := nm, jsibling := None\<rparr>]"
  show ?thesis
  proof (cases cs)
    case None
    have "linked ml (?m0[o' := (mem ! o')\<lparr>ju := UChildren (Some (nf, nf))\<rparr>]) nf (o' # r)"
      by (rule linkedI [OF inv]) (use nf o' nm in \<open>auto simp: nth_list_update\<close>)
    with None nf o' cs show ?thesis by (simp add: json_add_def run_simps)
  next
    case (Some p)
    obtain c l where cl: "cs = Some (c, l)" using Some by (cases p) auto
    have b: "o' < c" "c < nf" "o' < l" "l < nf"
      using inv o'(1) cs cl by (force simp: pool_inv_def node_ok_def)+
    have "linked ml (?m0[l := (mem ! l)\<lparr>jsibling := Some nf\<rparr>,
        o' := (mem ! o')\<lparr>ju := UChildren (Some (c, nf))\<rparr>]) nf (o' # r)"
      by (rule linkedI [OF inv]) (use nf o' nm b in \<open>auto simp: nth_list_update\<close>)
    with cl nf o' cs b show ?thesis by (simp add: json_add_def run_simps)
  qed
qed

section \<open>The loop\<close>

lemma linked_value:
  assumes "linked ml mem nf path" "v < ml" "ty \<noteq> JSON_OBJ" "ty \<noteq> JSON_ARRAY"
  shows "pool_inv ml (mem[nf := (mem ! nf)\<lparr>ju := UValue v, jtype := ty\<rparr>]) (Suc nf) path"
    (is "pool_inv ml ?m _ _")
proof -
  have other: "?m ! i = mem ! i" if "i < nf" for i using that by simp
  have "open_chain ?m path = open_chain mem path"
    by (rule open_chain_cong) (use assms other in \<open>auto simp: linked_def\<close>)
  moreover have "node_ok ml (Suc nf) nf (?m ! nf)" "forward (Suc nf) nf (?m ! nf)"
    using assms by (simp_all add: linked_def node_ok_def forward_def)
  ultimately show ?thesis using assms(1) other
    by (auto simp: pool_inv_def linked_def less_Suc_eq)
qed

lemma linked_container:
  assumes "linked ml mem nf (o' # r)" "ty = JSON_OBJ \<or> ty = JSON_ARRAY"
  shows "pool_inv ml (mem[nf := (mem ! nf)\<lparr>jtype := ty, ju := UChildren None, jsibling := Some o'\<rparr>])
     (Suc nf) (nf # o' # r)"
    (is "pool_inv ml ?m _ _")
proof -
  have other: "?m ! i = mem ! i" if "i < nf" for i using that by simp
  have "open_chain ?m (o' # r) = open_chain mem (o' # r)"
    by (rule open_chain_cong) (use assms other in \<open>auto simp: linked_def\<close>)
  moreover have "node_ok ml (Suc nf) nf (?m ! nf)" "container (?m ! nf)"
    "jsibling (?m ! nf) = Some o'"
    using assms by (auto simp: linked_def node_ok_def container_def)
  ultimately show ?thesis using assms(1) other
    by (auto simp: pool_inv_def linked_def less_Suc_eq)
qed

text \<open>What a round of the loop preserves, and what it leaves when it returns.\<close>

definition obj_inv :: "nat \<Rightarrow> nat \<Rightarrow> char list \<Rightarrow> jsonPool_t \<Rightarrow> nat \<Rightarrow> nat \<Rightarrow> bool" where
  "obj_inv ml q m pool ptr obj \<longleftrightarrow> nulterm m \<and> length m = ml \<and> ptr < ml \<and> length (pmem pool) = q
     \<and> (\<exists>r. pool_inv ml (pmem pool) (nextFree pool) (obj # r))"

definition obj_post :: "nat \<Rightarrow> nat \<Rightarrow> char list \<Rightarrow> jsonPool_t \<Rightarrow> nat option \<Rightarrow> bool" where
  "obj_post ml q m pool r \<longleftrightarrow> nulterm m \<and> length m = ml \<and> length (pmem pool) = q
     \<and> (r \<noteq> None \<longrightarrow> pool_closed ml (pmem pool) (nextFree pool))"

definition step_ok :: "nat \<Rightarrow> nat \<Rightarrow> nat \<Rightarrow> obj_step \<Rightarrow> bool" where
  "step_ok ml q ptr s \<longleftrightarrow> (case s of
       Go m' pool' ptr' obj' \<Rightarrow> ptr < ptr' \<and> obj_inv ml q m' pool' ptr' obj'
     | Done m' pool' r \<Rightarrow> obj_post ml q m' pool' r)"

lemma json_value_run:
  assumes m: "nulterm m" "length m = ml" "ptr < ml" "m ! ptr \<noteq> NUL" and pre: "ptr0 \<le> ptr"
    and lk: "linked ml (pmem pool) (nextFree pool - 1) (o' # r)" "0 < nextFree pool"
    and q: "length (pmem pool) = q"
  shows "run (json_value m pool ptr o' (nextFree pool - 1)) (step_ok ml q ptr0)"
proof -
  let ?nf = "nextFree pool - 1"
  have nf: "?nf < length (pmem pool)" "Suc ?nf = nextFree pool" using lk by (simp_all add: linked_def)
  have sp: "Suc ptr < ml" using nulterm_next [of m ptr] m by simp
  note cont = linked_container [OF lk(1), unfolded nf(2)]
  note val = linked_value [OF lk(1), unfolded nf(2)]
  have fin: "run (case x of (m, r) \<Rightarrow> (case r of None \<Rightarrow> Some (Done m pool None)
       | Some (p, val, ty) \<Rightarrow> do {
           mem \<leftarrow> upd (pmem pool) ?nf (\<lambda>j. j\<lparr>ju := UValue val, jtype := ty\<rparr>);
           Some (Go m (pool\<lparr>pmem := mem\<rparr>) p o') })) (step_ok ml q ptr0)"
    if "value_leaves m ptr ptr x" for x
  proof -
    obtain m' res where x: "x = (m', res)" by (cases x)
    have post: "obj_post ml q m' pool None"
      using that x m q by (simp add: value_leaves_def leaves_def obj_post_def)
    have next_inv: "obj_inv ml q m' (pool\<lparr>pmem := (pmem pool)[?nf := (pmem pool ! ?nf)\<lparr>ju := UValue v, jtype := ty\<rparr>]\<rparr>) p o'
        \<and> ptr0 < p" if "res = Some (p, v, ty)" for p v ty
    proof -
      have v: "v < ml" "ty \<noteq> JSON_OBJ" "ty \<noteq> JSON_ARRAY" "nulterm m'" "length m' = ml" "ptr < p" "p < ml"
        using \<open>value_leaves m ptr ptr x\<close> that x m sp
        by (auto simp: value_leaves_def leaves_def)
      from val [OF v(1-3)] v(4-7) q pre show ?thesis by (auto simp: obj_inv_def)
    qed
    show ?thesis
      using x post next_inv nf(1) by (auto simp: run_simps step_ok_def split: option.split)
  qed
  have sx: "Suc ptr < length m" "ptr < length m" using sp m by simp_all
  have tv: "run (textValue m ptr ptr) (value_leaves m ptr ptr)"
    and nv: "run (numValue m ptr ptr) (value_leaves m ptr ptr)"
    and pv: "run (trueValue m ptr ptr) (value_leaves m ptr ptr)"
      "run (falseValue m ptr ptr) (value_leaves m ptr ptr)"
      "run (nullValue m ptr ptr) (value_leaves m ptr ptr)"
    using m(1) sx
    by (simp_all add: textValue_run numValue_run trueValue_def falseValue_def nullValue_def
        primitiveValue_run)
  let ?sel = "if m ! ptr = CHR 0x22 then textValue m ptr ptr
                  else if m ! ptr = CHR ''t'' then trueValue m ptr ptr
                  else if m ! ptr = CHR ''f'' then falseValue m ptr ptr
                  else if m ! ptr = CHR ''n'' then nullValue m ptr ptr
                  else numValue m ptr ptr"
  have sel: "run ?sel (value_leaves m ptr ptr)" using tv nv pv by simp
  have other: "run (do { (m, r) \<leftarrow> ?sel; case r of None \<Rightarrow> Some (Done m pool None)
       | Some (p, val, ty) \<Rightarrow> do {
           mem \<leftarrow> upd (pmem pool) ?nf (\<lambda>j. j\<lparr>ju := UValue val, jtype := ty\<rparr>);
           Some (Go m (pool\<lparr>pmem := mem\<rparr>) p o') } }) (step_ok ml q ptr0)"
    unfolding run_bind by (rule run_mono [OF sel]) (rule fin)
  have into: "run (do { mem \<leftarrow> open_container (pmem pool) ?nf o' ty;
        Some (Go m (pool\<lparr>pmem := mem\<rparr>) (ptr + 1) ?nf) }) (step_ok ml q ptr0)"
    if "ty = JSON_OBJ \<or> ty = JSON_ARRAY" for ty
    using cont [OF that] nf(1) m sp q pre
    by (auto simp: open_container_def run_simps step_ok_def obj_inv_def)
  have "rd m ptr = Some (m ! ptr)" using sx(2) by simp
  then show ?thesis
    unfolding json_value_def by (simp only: bind.bind_lunit run_if other) (use into in simp)
qed

lemma obj_close_run:
  assumes "obj_inv ml q m pool ptr obj" and "Suc ptr < ml" and "ptr0 \<le> ptr"
  shows "run (obj_close m pool ptr obj) (step_ok ml q ptr0)"
proof -
  have m: "nulterm m" "length m = ml" "ptr < ml" and q: "length (pmem pool) = q"
    using assms(1) by (simp_all add: obj_inv_def)
  obtain r where inv: "pool_inv ml (pmem pool) (nextFree pool) (obj # r)"
    using assms(1) by (auto simp: obj_inv_def)
  have obj: "obj < length (pmem pool)" using inv by (auto simp: pool_inv_def)
  show ?thesis
  proof (cases r)
    case Nil
    then have "jsibling (pmem pool ! obj) = None" using inv by (auto simp: pool_inv_def)
    moreover have "pool_closed ml (pmem pool) (nextFree pool)" using inv Nil by (simp add: pool_inv_done)
    ultimately show ?thesis using m q obj
      by (simp add: obj_close_def run_simps step_ok_def obj_post_def)
  next
    case (Cons p r')
    then have "jsibling (pmem pool ! obj) = Some p" using inv by (simp add: pool_inv_def)
    moreover note pool_inv_close [OF inv [unfolded Cons]]
    ultimately show ?thesis using m q obj assms(2,3)
      by (auto simp: obj_close_def run_simps step_ok_def obj_inv_def)
  qed
qed

lemma obj_key_run:
  assumes "nulterm m" "length m = ml" "Suc ptr < ml" "m ! ptr \<noteq> NUL"
  shows "run (obj_key m ptr ty) (\<lambda>(m', nm, r). nulterm m' \<and> length m' = ml
    \<and> (\<forall>p. r = Some p \<longrightarrow> ptr \<le> p \<and> p < ml \<and> m' ! p \<noteq> NUL \<and> (\<forall>n. nm = Some n \<longrightarrow> n < ml)))"
  using assms unfolding obj_key_def
  by (auto simp: run_simps leaves_def intro!: run_mono [OF propertyName_run])

lemma obj_property_run:
  assumes "obj_inv ml q m pool ptr obj" and "Suc ptr < ml" "m ! ptr \<noteq> NUL" and "ptr0 \<le> ptr"
  shows "run (obj_property m pool ptr obj ty) (step_ok ml q ptr0)"
proof -
  have m: "nulterm m" "length m = ml" "ptr < ml" and q: "length (pmem pool) = q"
    using assms(1) by (simp_all add: obj_inv_def)
  obtain r where inv: "pool_inv ml (pmem pool) (nextFree pool) (obj # r)"
    using assms(1) by (auto simp: obj_inv_def)
  show ?thesis
  proof (cases "poolNew pool")
    case None
    with m q show ?thesis
      by (simp add: obj_property_def run_simps step_ok_def obj_post_def)
  next
    case (Some x)
    let ?nf = "nextFree pool" and ?pool = "pool\<lparr>nextFree := nextFree pool + 1\<rparr>"
    from Some have nf: "?nf < length (pmem pool)" and x: "x = (?nf, ?pool)"
      by (auto simp: poolNew_def split: if_splits)
    have rest: "run (do { mem \<leftarrow> upd (pmem ?pool) ?nf (\<lambda>j. j\<lparr>jname := nm\<rparr>);
            mem \<leftarrow> json_add mem obj ?nf;
            json_value m' (?pool\<lparr>pmem := mem\<rparr>) p obj ?nf }) (step_ok ml q ptr0)"
      if k: "nulterm m'" "length m' = ml" "ptr \<le> p" "p < ml" "m' ! p \<noteq> NUL" "\<And>n. nm = Some n \<Longrightarrow> n < ml"
      for m' p nm
    proof -
      have "run (json_value m' (?pool\<lparr>pmem := mem\<rparr>) p obj ?nf) (step_ok ml q ptr0)"
        if "length mem = length (pmem pool)" "linked ml mem ?nf (obj # r)" for mem
        using json_value_run [of m' ml p ptr0 "?pool\<lparr>pmem := mem\<rparr>" obj r q] k that q assms(4)
        by simp
      then show ?thesis using nf
        by (auto simp: run_simps intro!: run_mono [OF json_add_run [OF inv nf k(6)]])
    qed
    have post: "step_ok ml q ptr0 (Done m' ?pool None)" if "nulterm m'" "length m' = ml" for m'
      using that q by (simp add: step_ok_def obj_post_def)
    show ?thesis
      unfolding obj_property_def Some x option.case prod.case run_bind [of "obj_key m ptr ty"]
      by (rule run_mono [OF obj_key_run [OF m(1,2) assms(2,3)]])
         (use rest post in \<open>auto simp: run_case_option run_case_prod run_Some simp del: jsonPool_t.update_convs\<close>)
  qed
qed

lemma objValue_step_run:
  assumes "obj_inv ml q m pool ptr obj"
  shows "run (objValue_step m pool ptr obj) (step_ok ml q ptr)"
proof -
  have m: "nulterm m" "length m = ml" "ptr < length m" and q: "length (pmem pool) = q"
    and obj: "obj < length (pmem pool)"
    using assms by (auto simp: obj_inv_def pool_inv_def)
  have at: "obj_inv ml q m pool p obj" if "p < ml" for p
    using assms that by (simp add: obj_inv_def)
  show ?thesis
    unfolding objValue_step_def run_bind [of "goBlank m ptr"]
    by (rule run_mono [OF goBlank_run [OF m(1,3)]])
       (use m q obj at in \<open>auto simp: run_simps stops_def Let_def step_ok_def [of ml q ptr "Go _ _ _ _"]
          step_ok_def [of ml q ptr "Done _ _ _"] obj_post_def
          intro!: obj_close_run obj_property_run\<close>)
qed

lemma objValue_loop_run:
  assumes "obj_inv ml q m pool ptr obj"
  shows "run (objValue_loop m pool ptr obj) (\<lambda>(m', pool', r). obj_post ml q m' pool' r)"
  using assms
proof (induction "ml - ptr" arbitrary: m pool ptr obj rule: less_induct)
  case less
  have "ptr < ml" using less.prems by (simp add: obj_inv_def)
  then have "run (case s of Done m pool r \<Rightarrow> Some (m, pool, r)
       | Go m pool ptr obj \<Rightarrow> objValue_loop m pool ptr obj)
     (\<lambda>(m', pool', r). obj_post ml q m' pool' r)" if "step_ok ml q ptr s" for s
    using that less.hyps by (cases s) (auto simp: step_ok_def run_simps)
  then show ?case
    by (subst objValue_loop.simps) (simp add: run_bind run_mono [OF objValue_step_run [OF less.prems]])
qed

lemma json_create_run:
  assumes m: "nulterm m" and mem: "mem \<noteq> []"
  shows "run (json_create m mem) (\<lambda>(m', mem', r). nulterm m' \<and> length m' = length m
     \<and> length mem' = length mem \<and> (r \<noteq> None \<longrightarrow> r = Some 0 \<and> (\<exists>nf. pool_closed (length m) mem' nf)))"
proof -
  have l: "0 < length m" "0 < length mem" using m mem by (simp_all add: nulterm_def)
  let ?m1 = "mem[0 := (mem ! 0)\<lparr>jname := None, jtype := JSON_OBJ, ju := UChildren None,
      jsibling := None\<rparr>]"
  have inv: "pool_inv (length m) ?m1 1 [0]"
    using l by (auto simp: pool_inv_def node_ok_def container_def Suc_le_eq)
  have lp: "run (objValue_loop m \<lparr>pmem = ?m1, nextFree = 1\<rparr> (Suc p) 0)
      (\<lambda>(m', pool', r). obj_post (length m) (length mem) m' pool' r)" if "Suc p < length m" for p
    using that m inv by (intro objValue_loop_run) (auto simp: obj_inv_def)
  show ?thesis
    unfolding json_create_def run_bind [of "goBlank m 0"]
    by (rule run_mono [OF goBlank_run [OF m l(1)]])
       (use m l in \<open>auto simp: run_simps stops_def poolInit_def objValue_def
          intro!: run_mono [OF lp [simplified]], auto simp: obj_post_def\<close>)
qed

lemma getProperty_loop_run:
  assumes m: "nulterm m" and pc: "pool_closed (length m) mem nf"
  shows "(\<And>i. s = Some i \<Longrightarrow> i0 < i \<and> i < nf) \<Longrightarrow>
    run (getProperty_loop m mem key s)
      (\<lambda>r. \<forall>k. r = Some k \<longrightarrow> i0 < k \<and> k < nf \<and> name_matches m (mem ! k) key = Some True)"
proof (induction "nf - the s" arbitrary: s rule: less_induct)
  case less
  show ?case
  proof (cases s)
    case None
    then show ?thesis by (subst getProperty_loop.simps) (simp add: run_simps)
  next
    case (Some i)
    with less.prems have i: "i0 < i" "i < nf" by auto
    with pc have ok: "i < length mem" "node_ok (length m) nf i (mem ! i)" "forward nf i (mem ! i)"
      by (auto simp: pool_closed_def)
    have "name_matches m (mem ! i) key \<noteq> None"
      using ok(2) nulterm_cstr_at [OF m]
      by (fastforce simp: name_matches_def node_ok_def split: option.split)
    then obtain b where b: "name_matches m (mem ! i) key = Some b" by auto
    show ?thesis
    proof (cases "jsibling (mem ! i)")
      case None
      have "getProperty_loop m mem key None = Some None"
        by (subst getProperty_loop.simps) simp
      with b ok(1) Some i None show ?thesis
        by (subst getProperty_loop.simps) (auto simp: run_simps run_def)
    next
      case sib: (Some j)
      then have "i < j" "j < nf" using ok(3) by (auto simp: forward_def)
      with less.hyps [of "Some j"] Some i have
        "run (getProperty_loop m mem key (Some j))
          (\<lambda>r. \<forall>k. r = Some k \<longrightarrow> i0 < k \<and> k < nf \<and> name_matches m (mem ! k) key = Some True)"
        by auto
      with b ok(1) Some i sib show ?thesis
        by (subst getProperty_loop.simps) (auto simp: run_simps run_def)
    qed
  qed
qed

lemma json_getProperty_run:
  assumes "nulterm m" and pc: "pool_closed (length m) mem nf" and i: "i < nf" "container (mem ! i)"
  shows "run (json_getProperty m mem i key)
    (\<lambda>r. \<forall>k. r = Some k \<longrightarrow> i < k \<and> k < nf \<and> name_matches m (mem ! k) key = Some True)"
proof -
  obtain cs where cs: "ju (mem ! i) = UChildren cs" using i by (auto simp: container_def)
  have ok: "i < length mem" "node_ok (length m) nf i (mem ! i)"
    using pc i by (auto simp: pool_closed_def)
  have "run (getProperty_loop m mem key (map_option fst cs))
      (\<lambda>r. \<forall>k. r = Some k \<longrightarrow> i < k \<and> k < nf \<and> name_matches m (mem ! k) key = Some True)"
    by (rule getProperty_loop_run [OF assms(1) pc]) (use ok(2) cs in \<open>auto simp: node_ok_def\<close>)
  then show ?thesis
    using ok(1) cs by (simp add: json_getProperty_def json_getChild_def run_simps)
qed

lemma json_getPropertyValue_run:
  assumes "nulterm m" and pc: "pool_closed (length m) mem nf" and "i < nf" "container (mem ! i)"
  shows "run (json_getPropertyValue m mem i key) (\<lambda>v. True)"
proof -
  have v: "run (json_getType mem k) (\<lambda>ty. ty \<notin> {JSON_OBJ, JSON_ARRAY} \<longrightarrow>
      run (json_getValue m mem k) (\<lambda>_. True))" if k: "k < nf" for k
  proof -
    have ok: "k < length mem" "node_ok (length m) nf k (mem ! k)"
      using pc k by (auto simp: pool_closed_def)
    with nulterm_cstr_at [OF assms(1)] show ?thesis
      by (auto simp: json_getType_def json_getValue_def run_simps node_ok_def run_def
          split: json_u.split)
  qed
  show ?thesis
    unfolding json_getPropertyValue_def run_bind [of "json_getProperty m mem i key"]
    by (rule run_mono [OF json_getProperty_run [OF assms]])
       (use v in \<open>auto simp: run_simps elim!: run_mono\<close>)
qed

section \<open>Integer literals\<close>

fun dec_val :: "string \<Rightarrow> nat" where
  "dec_val [] = 0"
| "dec_val (c # cs) = (chr_code c - 48) * 10 ^ length cs + dec_val cs"

definition digits :: "string \<Rightarrow> bool" where
  "digits ds \<longleftrightarrow> (\<forall>c \<in> set ds. isdigit c)"

lemma digits_Cons [simp]: "digits (c # cs) \<longleftrightarrow> isdigit c \<and> digits cs"
  by (simp add: digits_def)

lemma dec_val_less: "digits ds \<Longrightarrow> dec_val ds < 10 ^ length ds"
proof (induction ds)
  case (Cons c cs)
  then have "chr_code c - 48 \<le> 9" by (auto simp: isdigit_def)
  then have "(chr_code c - 48) * 10 ^ length cs \<le> 9 * 10 ^ length cs" by (rule mult_le_mono1)
  moreover have "dec_val cs < 10 ^ length cs" using Cons by simp
  ultimately have "dec_val (c # cs) < 9 * 10 ^ length cs + 10 ^ length cs"
    unfolding dec_val.simps by (rule add_le_less_mono)
  then show ?case by simp
qed simp

lemma dec_val_ge: "digits (c # cs) \<Longrightarrow> c \<noteq> CHR ''0'' \<Longrightarrow> 10 ^ length cs \<le> dec_val (c # cs)"
proof -
  assume d: "digits (c # cs)" and c: "c \<noteq> CHR ''0''"
  have "chr_code c \<noteq> chr_code CHR ''0''" using c by (simp only: chr_code_inject) simp
  then have "1 \<le> chr_code c - 48" using d by (auto simp: isdigit_def chr_code_def)
  then have "1 * 10 ^ length cs \<le> (chr_code c - 48) * 10 ^ length cs" by (rule mult_le_mono1)
  then show ?thesis unfolding dec_val.simps by linarith
qed

lemma strcmp_less_dec_val:
  "length a = length b \<Longrightarrow> digits a \<Longrightarrow> digits b \<Longrightarrow> strcmp_less a b \<longleftrightarrow> dec_val a < dec_val b"
proof (induction a b rule: list_induct2)
  case (Cons x xs y ys)
  have lt: "dec_val (u # us) < dec_val (v # vs)"
    if "chr_code u < chr_code v" "digits us" "digits (u # us)" "length us = length vs" for u v us vs
  proof -
    have "chr_code u - 48 + 1 \<le> chr_code v - 48"
      using that(1,3) by (auto simp: isdigit_def)
    then have "(chr_code u - 48 + 1) * 10 ^ length vs \<le> (chr_code v - 48) * 10 ^ length vs"
      by (rule mult_le_mono1)
    with dec_val_less [OF that(2)] that(4) show ?thesis by simp
  qed
  consider "x = y" | "chr_code x < chr_code y" | "chr_code y < chr_code x"
    using chr_code_inject by (metis linorder_neqE_nat)
  then show ?case
  proof cases
    case 1
    with Cons show ?thesis by simp
  next
    case 2
    then have "x \<noteq> y" by auto
    with 2 lt [of x y xs ys] Cons show ?thesis by (simp add: chr_code_def)
  next
    case 3
    then have "x \<noteq> y" by auto
    with 3 lt [of y x ys xs] Cons show ?thesis by (simp add: chr_code_def)
  qed
qed simp

text \<open>A decimal integer in the form JSON allows.\<close>

definition int_text :: "string \<Rightarrow> bool" where
  "int_text ds \<longleftrightarrow> digits ds \<and> ds \<noteq> [] \<and> (hd ds = CHR ''0'' \<longrightarrow> ds = ''0'')"

lemma dec_val_range:
  assumes "int_text ds" and "digits thr" "length thr = 19" "dec_val thr < 10 ^ 19"
    "10 ^ 18 \<le> dec_val thr"
  shows "dec_val ds \<le> dec_val thr \<longleftrightarrow>
     length ds < 19 \<or> (length ds = 19 \<and> \<not> strcmp_less thr ds)"
proof -
  have ds: "digits ds" using assms(1) by (simp add: int_text_def)
  consider "length ds < 19" | "length ds = 19" | "19 < length ds" by linarith
  then show ?thesis
  proof cases
    case 1
    have "dec_val ds < 10 ^ length ds" by (rule dec_val_less [OF ds])
    also have "\<dots> \<le> 10 ^ 18" using 1 by (intro power_increasing) auto
    finally show ?thesis using 1 assms(5) by simp
  next
    case 2
    then show ?thesis using strcmp_less_dec_val [of thr ds] assms ds by auto
  next
    case 3
    obtain c cs where c: "ds = c # cs" using 3 by (cases ds) auto
    have "c \<noteq> CHR ''0''" using assms(1) 3 c by (auto simp: int_text_def)
    have "(10::nat) ^ 19 \<le> 10 ^ length cs" using 3 c by (intro power_increasing) auto
    also have "\<dots> \<le> dec_val ds"
      using dec_val_ge [of c cs] ds \<open>c \<noteq> CHR ''0''\<close> c by simp
    finally show ?thesis using 3 assms(4) by simp
  qed
qed

lemma goNum_digits:
  "digits ds \<Longrightarrow> \<not> isdigit t \<Longrightarrow> t \<noteq> NUL \<Longrightarrow>
     goNum (pre @ ds @ t # post) (length pre) = Some (Some (length pre + length ds))"
proof (induction ds arbitrary: pre)
  case Nil
  then show ?case by (subst goNum.simps) (simp add: rd_def)
next
  case (Cons d ds)
  then have "d \<noteq> NUL" by auto
  with Cons.IH [of "pre @ [d]"] Cons.prems show ?case
    by (subst goNum.simps) (simp add: rd_def nth_append)
qed

lemma isEndOfPrimitive_cases:
  assumes "isEndOfPrimitive t"
  shows "\<not> isdigit t" "t \<noteq> CHR ''.''" "t \<noteq> CHR ''e''" "t \<noteq> CHR ''E''" "t \<noteq> NUL"
  using assms by (auto simp: isEndOfPrimitive_def blank_def endofblock_def ctype_defs split: if_splits)

lemma numInt_digits:
  assumes "int_text ds" and t: "isEndOfPrimitive t"
  shows "numInt (pre @ ds @ t # post) (length pre) = Some (Some (length pre + length ds))"
    and "numInt (pre @ CHR ''-'' # ds @ t # post) (length pre)
      = Some (Some (length pre + 1 + length ds))"
proof -
  obtain d ds' where ds: "ds = d # ds'" using assms(1) by (cases ds) (auto simp: int_text_def)
  have d: "digits ds" "isdigit d" "d \<noteq> CHR ''-''"
    using assms(1) ds by (auto simp: int_text_def ctype_defs)
  have z: "d = CHR ''0'' \<Longrightarrow> ds' = []" using assms(1) ds by (simp add: int_text_def)
  note g = goNum_digits [OF d(1) isEndOfPrimitive_cases(1) [OF t] isEndOfPrimitive_cases(5) [OF t]]
  show "numInt (pre @ ds @ t # post) (length pre) = Some (Some (length pre + length ds))"
  proof (cases "d = CHR ''0''")
    case True
    with z ds isEndOfPrimitive_cases(1) [OF t] show ?thesis
      by (simp add: numInt_def rd_def nth_append ctype_defs)
  next
    case False
    with g [of pre post] ds d show ?thesis by (simp add: numInt_def rd_def nth_append)
  qed
  show "numInt (pre @ CHR ''-'' # ds @ t # post) (length pre)
      = Some (Some (length pre + 1 + length ds))"
  proof (cases "d = CHR ''0''")
    case True
    with z ds isEndOfPrimitive_cases(1) [OF t] show ?thesis
      by (simp add: numInt_def rd_def nth_append ctype_defs)
  next
    case False
    with g [of "pre @ ''-''" post] ds d show ?thesis by (simp add: numInt_def rd_def nth_append)
  qed
qed

lemma numTail_end:
  assumes t: "isEndOfPrimitive t"
  shows "numFrac (pre @ t # post) (length pre) = Some (Some (length pre, JSON_INTEGER))"
    and "numExp (pre @ t # post) (length pre) ty = Some (Some (length pre, ty))"
  using isEndOfPrimitive_cases [OF t] by (simp_all add: numFrac_def numExp_def rd_def nth_append)

definition signed_val :: "string \<Rightarrow> string \<Rightarrow> int" where
  "signed_val sg ds = (if sg = [] then int (dec_val ds) else - int (dec_val ds))"

lemma thresholds:
  "dec_val int_max_text = 9223372036854775807" "dec_val (tl int_min_text) = 9223372036854775808"
  "digits int_max_text" "digits (tl int_min_text)"
  "length int_max_text = 19" "length (tl int_min_text) = 19" "int_min_text = CHR ''-'' # tl int_min_text"
  by (simp_all add: int_max_text_def int_min_text_def chr_code_def digits_def isdigit_def)

lemma numRange_value:
  assumes ds: "int_text ds" and sg: "sg = [] \<or> sg = ''-''" and t: "isEndOfPrimitive t"
  shows "\<exists>m'. numRange (pre @ sg @ ds @ t # post) (length pre + length sg + length ds) (length pre)
      = Some (m', - (2 ^ 63) \<le> signed_val sg ds \<and> signed_val sg ds < 2 ^ 63)
      \<and> (- (2 ^ 63) \<le> signed_val sg ds \<and> signed_val sg ds < 2 ^ 63 \<longrightarrow> m' = pre @ sg @ ds @ t # post)"
proof -
  let ?m = "pre @ sg @ ds @ t # post" and ?p = "length pre + length sg + length ds"
  have d: "digits ds" "ds \<noteq> []" using ds by (simp_all add: int_text_def)
  have hd: "hd ds \<noteq> CHR ''-''" using d by (cases ds) (auto simp: ctype_defs)
  have first: "rd ?m (length pre) = Some (hd (sg @ ds))"
    using d sg by (cases ds) (auto simp: rd_def nth_append)
  have at: "rd ?m ?p = Some t" by (simp add: rd_def nth_append)
  have set: "wr ?m ?p x = Some (pre @ (sg @ ds) @ x # post)"
      "wr (pre @ (sg @ ds) @ NUL # post) ?p x = Some (pre @ (sg @ ds) @ x # post)" for x
    by (simp_all add: wr_def list_update_append)
  have nz: "cstring (sg @ ds)" using d sg by (auto simp: cstring_def digits_def)
  note cs = cstr_at_append [OF nz]
  note maxr = dec_val_range [OF ds thresholds(3,5)] and minr = dec_val_range [OF ds thresholds(4,6)]
  show ?thesis
  proof (cases "sg = []")
    case True
    then show ?thesis
      using first at set cs hd maxr thresholds
      by (auto simp: numRange_def signed_val_def nth_append Let_def)
  next
    case False
    with sg have "sg = ''-''" by simp
    moreover have "strcmp_less int_min_text (CHR ''-'' # ds) = strcmp_less (tl int_min_text) ds"
      "length int_min_text = 20" by (simp_all add: int_min_text_def)
    ultimately show ?thesis
      using first at set cs hd minr thresholds
      by (auto simp: numRange_def signed_val_def nth_append Let_def)
  qed
qed

text \<open>The whole value parser on an integer literal.\<close>

lemma numValue_integer:
  assumes ds: "int_text ds" and sg: "sg = [] \<or> sg = ''-''" and t: "isEndOfPrimitive t"
  shows "\<exists>m' r. numValue (pre @ sg @ ds @ t # post) (length pre) (length pre) = Some (m', r)
      \<and> (r \<noteq> None \<longleftrightarrow> - (2 ^ 63) \<le> signed_val sg ds \<and> signed_val sg ds < 2 ^ 63)
      \<and> (\<forall>p v ty. r = Some (p, v, ty) \<longrightarrow> v = length pre \<and> ty = JSON_INTEGER
            \<and> p = length pre + length sg + length ds + (if t \<in> set ''}]'' then 0 else 1))"
proof -
  let ?m = "pre @ sg @ ds @ t # post" and ?p = "length pre + length sg + length ds"
  obtain m' where rg: "numRange ?m ?p (length pre)
      = Some (m', - (2 ^ 63) \<le> signed_val sg ds \<and> signed_val sg ds < 2 ^ 63)"
    and same: "- (2 ^ 63) \<le> signed_val sg ds \<and> signed_val sg ds < 2 ^ 63 \<Longrightarrow> m' = ?m"
    using numRange_value [OF ds sg t] by blast
  have at: "rd ?m ?p = Some t" by (simp add: rd_def nth_append)
  have i: "numInt ?m (length pre) = Some (Some ?p)"
    using numInt_digits [OF ds t] sg by auto
  have f: "numFrac ?m ?p = Some (Some (?p, JSON_INTEGER))"
    and e: "numExp ?m ?p JSON_INTEGER = Some (Some (?p, JSON_INTEGER))"
    using numTail_end [OF t, of "pre @ sg @ ds"] by (simp_all add: add.assoc)
  have stn: "setToNull ?m ?p = Some (if t \<in> set ''}]'' then (?m, ?p) else (?m[?p := NUL], ?p + 1))"
    using at by (simp add: setToNull_def endofblock_def)
  show ?thesis
    using i f e at t rg same stn by (auto simp: numValue_def)
qed

section \<open>Properties\<close>

text \<open>C4: For every text in a terminated buffer and every pool of at least one node, whatever
  the pool contains initially, the parser returns: it never reads or writes outside the buffer
  or the pool, never takes a value for a container, and leaves a terminated text of the same
  length.  When it succeeds, the result is the first node and every node it allocated is
  complete: values and names point into the text, children and siblings point forward.\<close>

theorem json_create_safe:
  assumes "nulterm m" and "mem \<noteq> []"
  shows "\<exists>m' mem' r. json_create m mem = Some (m', mem', r) \<and> nulterm m' \<and> length m' = length m
     \<and> length mem' = length mem \<and> (r \<noteq> None \<longrightarrow> r = Some 0 \<and> (\<exists>nf. pool_closed (length m) mem' nf))"
  using json_create_run [OF assms] by (auto simp: run_def)

definition blank_node :: json_t where
  "blank_node = \<lparr>jsibling = Some 7, jname = Some 99, ju = UValue 77, jtype = JSON_REAL\<rparr>"

definition json_sample :: "char list" where
  "json_sample = ''{'' @ [CHR 0x22] @ ''a'' @ [CHR 0x22] @ '':[1,'' @ [CHR 0x22, CHR 0x22] @ '']}'' @ [NUL]"

theorem json_create_safe_witness:
  "json_create json_sample (replicate 4 blank_node) \<noteq> None"
  using json_create_safe [of json_sample "replicate 4 blank_node"]
  by (auto simp: json_sample_def nulterm_def)

text \<open>C26: After a successful parse every lookup of a property below any container node
  returns, without reading outside the text or the pool and without following a cycle of
  siblings; what it finds is a later node whose name is the key asked for.\<close>

theorem json_getProperty_safe:
  assumes "nulterm m" and "pool_closed (length m) mem nf" and "i < nf" and "container (mem ! i)"
  shows "\<exists>r. json_getProperty m mem i key = Some r
     \<and> (\<forall>k. r = Some k \<longrightarrow> i < k \<and> k < nf \<and> name_matches m (mem ! k) key = Some True)
     \<and> json_getPropertyValue m mem i key \<noteq> None"
  using json_getProperty_run [OF assms, of key] json_getPropertyValue_run [OF assms, of key]
  by (auto simp: run_def)

theorem json_getProperty_safe_witness:
  "json_getPropertyValue (''k'' @ [NUL] @ ''v'' @ [NUL])
     [\<lparr>jsibling = None, jname = None, ju = UChildren (Some (1, 1)), jtype = JSON_OBJ\<rparr>,
      \<lparr>jsibling = None, jname = Some 0, ju = UValue 2, jtype = JSON_TEXT\<rparr>] 0 ''key'' \<noteq> None"
proof -
  let ?m = "''k'' @ [NUL] @ ''v'' @ [NUL]"
  let ?mem = "[\<lparr>jsibling = None, jname = None, ju = UChildren (Some (1, 1)), jtype = JSON_OBJ\<rparr>,
      \<lparr>jsibling = None, jname = Some 0, ju = UValue 2, jtype = JSON_TEXT\<rparr>]"
  have "pool_closed (length ?m) ?mem 2"
    by (simp add: pool_closed_def container_def node_ok_def forward_def less_Suc_eq numeral_2_eq_2)
  moreover have "nulterm ?m" by (simp add: nulterm_def)
  ultimately show ?thesis
    using json_getProperty_safe [of ?m ?mem 2 0 "''key''"] by (auto simp: container_def)
qed

text \<open>C34: A JSON integer literal is accepted exactly when its value fits \<open>int64_t\<close>, so that
  \<open>json_getInteger\<close> never overflows; it is then an integer property that starts at the
  literal, and parsing goes on after the literal and its separator.\<close>

theorem json_integer_range:
  assumes "int_text ds" and "sg = [] \<or> sg = ''-''" and "isEndOfPrimitive t"
  shows "\<exists>m' r. numValue (pre @ sg @ ds @ t # post) (length pre) (length pre) = Some (m', r)
      \<and> (r \<noteq> None \<longleftrightarrow> - (2 ^ 63) \<le> signed_val sg ds \<and> signed_val sg ds < 2 ^ 63)
      \<and> (\<forall>p v ty. r = Some (p, v, ty) \<longrightarrow> v = length pre \<and> ty = JSON_INTEGER
            \<and> p = length pre + length sg + length ds + (if t \<in> set ''}]'' then 0 else 1))"
  using assms by (rule numValue_integer)

theorem json_integer_range_witness:
  "\<exists>m'. numValue (''['' @ [] @ ''9223372036854775808'' @ CHR '']'' # [NUL]) (length ''['') (length ''['')
     = Some (m', None)"
proof -
  have i: "int_text ''9223372036854775808''"
    by (simp add: int_text_def digits_def isdigit_def chr_code_def)
  have e: "isEndOfPrimitive CHR '']''"
    by (simp add: isEndOfPrimitive_def blank_def endofblock_def)
  have "dec_val ''9223372036854775808'' = 9223372036854775808" by (simp add: chr_code_def)
  then have v: "\<not> (- (2 ^ 63) \<le> signed_val [] ''9223372036854775808''
      \<and> signed_val [] ''9223372036854775808'' < 2 ^ 63)"
    by (simp only: signed_val_def) simp
  obtain m' r where
    "numValue (''['' @ [] @ ''9223372036854775808'' @ CHR '']'' # [NUL]) (length ''['') (length ''['')
     = Some (m', r)" "r = None"
    using json_integer_range [OF i disjI1 [OF refl] e, of "''[''" "[NUL]"] v by blast
  then show ?thesis by blast
qed

end
