(* ===== verification/Http.thy ===== *)
theory Http
  imports TinyJson
begin

text \<open>
  Model of http.c: the HTTP client used to fetch package data, its TLS policy and its persisted
  settings.  The console's HTTP library is the record \<open>http_lib\<close> of functions on the world; any
  of them may fail on any call.  The file-level statics are the record \<open>http\<close>.  A result is an
  \<open>option\<close> because of the copies the download callback makes into its buffer: \<open>None\<close> is a copy
  past the end of it.
\<close>

section \<open>The HTTP library\<close>

record 'w http_lib =
  hl_posix :: "'w posix"
  sceSslInit :: "nat \<Rightarrow> 'w \<Rightarrow> cint \<times> 'w"
  sceSslTerm :: "cint \<Rightarrow> 'w \<Rightarrow> cint \<times> 'w"
  sceHttpInit :: "cint \<Rightarrow> cint \<Rightarrow> nat \<Rightarrow> 'w \<Rightarrow> cint \<times> 'w"
  sceHttpTerm :: "cint \<Rightarrow> 'w \<Rightarrow> cint \<times> 'w"
  sceHttpCreateTemplate :: "cint \<Rightarrow> 'w \<Rightarrow> cint \<times> 'w"
  sceHttpDeleteTemplate :: "cint \<Rightarrow> 'w \<Rightarrow> cint \<times> 'w"
  sceHttpsEnableOption :: "cint \<Rightarrow> u32 \<Rightarrow> 'w \<Rightarrow> cint \<times> 'w"
  sceHttpsDisableOption :: "cint \<Rightarrow> u32 \<Rightarrow> 'w \<Rightarrow> cint \<times> 'w"
  sceHttpsLoadCert :: "cint \<Rightarrow> string \<Rightarrow> 'w \<Rightarrow> cint \<times> 'w"
  sceHttpsUnloadCert :: "cint \<Rightarrow> 'w \<Rightarrow> cint \<times> 'w"
  sceHttpCreateConnectionWithURL :: "cint \<Rightarrow> string \<Rightarrow> 'w \<Rightarrow> cint \<times> 'w"
  sceHttpDeleteConnection :: "cint \<Rightarrow> 'w \<Rightarrow> cint \<times> 'w"
  sceHttpCreateRequestWithURL :: "cint \<Rightarrow> cint \<Rightarrow> string \<Rightarrow> nat \<Rightarrow> 'w \<Rightarrow> cint \<times> 'w"
  sceHttpDeleteRequest :: "cint \<Rightarrow> 'w \<Rightarrow> cint \<times> 'w"
  sceHttpAddRequestHeader :: "cint \<Rightarrow> string \<Rightarrow> string \<Rightarrow> 'w \<Rightarrow> cint \<times> 'w"
  sceHttpSendRequest :: "cint \<Rightarrow> string option \<Rightarrow> 'w \<Rightarrow> cint \<times> 'w"
  sceHttpGetLastErrno :: "cint \<Rightarrow> 'w \<Rightarrow> (cint \<times> cint) \<times> 'w"
  sceHttpGetStatusCode :: "cint \<Rightarrow> 'w \<Rightarrow> (cint \<times> cint) \<times> 'w"
  sceHttpGetResponseContentLength :: "cint \<Rightarrow> 'w \<Rightarrow> (cint \<times> cint \<times> u64) \<times> 'w"
  sceHttpReadData :: "cint \<Rightarrow> nat \<Rightarrow> 'w \<Rightarrow> (cint \<times> string) \<times> 'w"
  sceHttpUriUnescape :: "nat option \<Rightarrow> string \<Rightarrow> 'w \<Rightarrow> (cint \<times> nat \<times> string) \<times> 'w"
  sceNpUtilJsonEscape :: "nat \<Rightarrow> string \<Rightarrow> 'w \<Rightarrow> (cint \<times> string) \<times> 'w"
  ORBIS_HTTP_CONTENTLEN_EXIST :: cint
  ORBIS_METHOD_GET :: cint
  O_TRUNC :: u32

definition HTTP_SSL_VERIFY_DEFAULT :: cint where "HTTP_SSL_VERIFY_DEFAULT = -1"
definition HTTP_SSL_VERIFY_OFF :: cint where "HTTP_SSL_VERIFY_OFF = 0"
definition HTTP_SSL_VERIFY_ON :: cint where "HTTP_SSL_VERIFY_ON = 1"

lemmas ssl_mode_defs = HTTP_SSL_VERIFY_DEFAULT_def HTTP_SSL_VERIFY_OFF_def HTTP_SSL_VERIFY_ON_def

definition SCE_HTTP_ERROR_INVALID_ID :: cint where "SCE_HTTP_ERROR_INVALID_ID = 0x80431100"
definition SCE_HTTP_ERROR_OUT_OF_MEMORY :: cint where "SCE_HTTP_ERROR_OUT_OF_MEMORY = 0x80431022"
definition SCE_HTTP_ERROR_NO_CONTENT_LENGTH :: cint where
  "SCE_HTTP_ERROR_NO_CONTENT_LENGTH = 0x80431071"
definition SCE_HTTP_ERROR_INVALID_VALUE :: cint where "SCE_HTTP_ERROR_INVALID_VALUE = 0x804311fe"

lemmas http_error_defs = SCE_HTTP_ERROR_INVALID_ID_def SCE_HTTP_ERROR_OUT_OF_MEMORY_def
  SCE_HTTP_ERROR_NO_CONTENT_LENGTH_def SCE_HTTP_ERROR_INVALID_VALUE_def

definition SCE_HTTPS_FLAG_CLIENT_VERIFY :: u32 where "SCE_HTTPS_FLAG_CLIENT_VERIFY = 0x02"

text \<open>Server, common name, validity period and issuer checks.\<close>

definition SSL_SERVER_CHECKS :: u32 where
  "SSL_SERVER_CHECKS = 0x01 OR 0x04 OR 0x08 OR 0x10 OR 0x20"

section \<open>State\<close>

record http =
  s_libssl_ctx_id :: cint
  s_libhttp_ctx_id :: cint
  s_http_initialized :: bool
  s_ssl_verify_mode :: cint
  s_ca_bundle_path :: string
  s_ca_bundle_data :: "string option"
  s_ca_bundle_loaded :: bool
  s_last_error :: string

definition HTTP_CONFIG_PATH :: string where "HTTP_CONFIG_PATH = ''/data/rpi_config.json''"
definition HTTP_CA_BUNDLE_PATH :: string where "HTTP_CA_BUNDLE_PATH = ''/data/rpi_cacert.pem''"

definition http_static :: http where
  "http_static =
     \<lparr>s_libssl_ctx_id = -1, s_libhttp_ctx_id = -1, s_http_initialized = False,
      s_ssl_verify_mode = HTTP_SSL_VERIFY_ON, s_ca_bundle_path = HTTP_CA_BUNDLE_PATH,
      s_ca_bundle_data = None, s_ca_bundle_loaded = False, s_last_error = []\<rparr>"

definition set_last_error :: "string \<Rightarrow> http \<Rightarrow> http" where
  "set_last_error msg H = H\<lparr>s_last_error := trunc_cpy 512 msg\<rparr>"

definition http_clear_last_error :: "http \<Rightarrow> http" where
  "http_clear_last_error H = H\<lparr>s_last_error := []\<rparr>"

definition http_set_ssl_verify :: "cint \<Rightarrow> http \<Rightarrow> http" where
  "http_set_ssl_verify mode H =
     H\<lparr>s_ssl_verify_mode := (if mode = HTTP_SSL_VERIFY_OFF then HTTP_SSL_VERIFY_OFF else HTTP_SSL_VERIFY_ON)\<rparr>"

text \<open>\<open>0x%08X\<close> and \<open>%d\<close>.\<close>

definition fmt_08X :: "cint \<Rightarrow> string" where
  "fmt_08X x = ''0x'' @ pad_left CHR ''0'' 8 (show_HEX (unat x))"

definition fmt_d :: "cint \<Rightarrow> string" where
  "fmt_d x = show_int (sint x)"

definition is_good_status :: "cint \<Rightarrow> bool" where
  "is_good_status status_code \<longleftrightarrow> status_code = 200 \<or> status_code = 206"

section \<open>Certificate bundle\<close>

definition unload_ca_bundle :: "'w http_lib \<Rightarrow> http \<Rightarrow> 'w \<Rightarrow> http \<times> 'w" where
  "unload_ca_bundle L H w =
     (let w = (if s_ca_bundle_loaded H then snd (sceHttpsUnloadCert L (s_libhttp_ctx_id H) w) else w)
      in (H\<lparr>s_ca_bundle_loaded := False, s_ca_bundle_data := None\<rparr>, w))"

definition CA_BUNDLE_MAX_SIZE :: nat where "CA_BUNDLE_MAX_SIZE = 1024 * 1024"
definition CONFIG_MAX_SIZE :: nat where "CONFIG_MAX_SIZE = 64 * 1024"

definition http_load_ca_bundle ::
    "'w http_lib \<Rightarrow> string option \<Rightarrow> http \<Rightarrow> 'w \<Rightarrow> (bool \<times> http \<times> 'w) option" where
  "http_load_ca_bundle L path H w =
     (if \<not> s_http_initialized H then Some (False, set_last_error ''HTTP is not initialized.'' H, w)
      else case path of
        None \<Rightarrow> Some (False, set_last_error ''Empty CA bundle path.'' H, w)
      | Some path \<Rightarrow>
          if path = [] then Some (False, set_last_error ''Empty CA bundle path.'' H, w)
          else case read_text_file (hl_posix L) path CA_BUNDLE_MAX_SIZE w of
            None \<Rightarrow> None
          | Some (None, w) \<Rightarrow>
              Some (False, set_last_error (''Unable to read CA bundle '' @ [CHR 0x27] @ path @ [CHR 0x27] @ ''.'') H, w)
          | Some (Some data, w) \<Rightarrow>
              if data = [] then
                Some (False, set_last_error (''CA bundle '' @ [CHR 0x27] @ path @ [CHR 0x27] @ '' is empty.'') H, w)
              else case unload_ca_bundle L H w of (H, w) \<Rightarrow>
                (case sceHttpsLoadCert L (s_libhttp_ctx_id H) data w of (ret, w) \<Rightarrow>
                   if ret \<noteq> 0 then
                     Some (False, set_last_error (''Unable to load CA bundle '' @ [CHR 0x27] @ path @ [CHR 0x27]
                                     @ '': '' @ fmt_08X ret @ ''.'') H, w)
                   else Some (True, H\<lparr>s_ca_bundle_data := Some data, s_ca_bundle_loaded := True,
                                s_ca_bundle_path := trunc_cpy 256 path\<rparr>, w)))"

section \<open>Settings\<close>

text \<open>The stack array of the parser is uninitialised; its contents are the argument \<open>pool\<close>.\<close>

definition config_apply :: "char list \<Rightarrow> json_t list \<Rightarrow> http \<Rightarrow> http option" where
  "config_apply m mem H = do {
     f \<leftarrow> json_getProperty m mem 0 ''ssl_verify'';
     H \<leftarrow> (case f of None \<Rightarrow> Some H | Some i \<Rightarrow> do {
             ty \<leftarrow> json_getType mem i;
             if ty \<noteq> JSON_BOOLEAN then Some H
             else do {
               v \<leftarrow> json_getValue m mem i;
               Some (H\<lparr>s_ssl_verify_mode :=
                 (if v \<noteq> [] \<and> hd v = CHR ''t'' then HTTP_SSL_VERIFY_ON else HTTP_SSL_VERIFY_OFF)\<rparr>) } });
     f \<leftarrow> json_getProperty m mem 0 ''ca_bundle'';
     (case f of None \<Rightarrow> Some H | Some i \<Rightarrow> do {
        ty \<leftarrow> json_getType mem i;
        if ty \<noteq> JSON_TEXT then Some H
        else do {
          v \<leftarrow> json_getValue m mem i;
          Some (H\<lparr>s_ca_bundle_path := trunc_cpy 256 v\<rparr>) } }) }"

definition http_load_config ::
    "'w http_lib \<Rightarrow> json_t list \<Rightarrow> string option \<Rightarrow> http \<Rightarrow> 'w \<Rightarrow> (bool \<times> http \<times> 'w) option" where
  "http_load_config L pool path H w =
     (case path of None \<Rightarrow> Some (False, H, w)
      | Some path \<Rightarrow>
          (case read_text_file (hl_posix L) path CONFIG_MAX_SIZE w of
             None \<Rightarrow> None
           | Some (None, w) \<Rightarrow> Some (False, H, w)
           | Some (Some txt, w) \<Rightarrow>
               do {
                 (m, mem, root) \<leftarrow> json_create (txt @ [NUL]) pool;
                 if root = None then Some (False, H, w)
                 else do { H \<leftarrow> config_apply m mem H; Some (True, H, w) } }))"

definition http_escape_json_string ::
    "'w http_lib \<Rightarrow> nat \<Rightarrow> string option \<Rightarrow> http \<Rightarrow> 'w \<Rightarrow> string option \<times> 'w" where
  "http_escape_json_string L max_out_size inp H w =
     (if \<not> s_http_initialized H then (None, w)
      else case inp of None \<Rightarrow> (None, w)
      | Some s \<Rightarrow> (case sceNpUtilJsonEscape L max_out_size s w of ((ret, out), w) \<Rightarrow>
                     if ret \<noteq> 0 then (None, w) else (Some out, w)))"

definition config_text :: "cint \<Rightarrow> string \<Rightarrow> string" where
  "config_text mode escaped_path =
     ''{ '' @ [CHR 0x22] @ ''ssl_verify'' @ [CHR 0x22] @ '': ''
     @ (if mode = HTTP_SSL_VERIFY_ON then ''true'' else ''false'')
     @ '', '' @ [CHR 0x22] @ ''ca_bundle'' @ [CHR 0x22] @ '': '' @ [CHR 0x22] @ escaped_path @ [CHR 0x22]
     @ '' }'' @ [CHR 0x0A]"

definition http_save_config ::
    "'w http_lib \<Rightarrow> string option \<Rightarrow> http \<Rightarrow> 'w \<Rightarrow> (bool \<times> 'w) option" where
  "http_save_config L path H w =
     (case path of None \<Rightarrow> Some (False, w)
      | Some path \<Rightarrow>
          (case http_escape_json_string L 513 (Some (s_ca_bundle_path H)) H w of
             (None, w) \<Rightarrow> Some (False, w)
           | (Some escaped, w) \<Rightarrow>
               let buf = config_text (s_ssl_verify_mode H) escaped
               in if 512 \<le> length buf then Some (False, w)
                  else (case write_file_trunc (hl_posix L) (O_TRUNC L) path buf 384 w of
                          None \<Rightarrow> None
                        | Some ((ok, n), w) \<Rightarrow> Some (ok, w))))"

section \<open>Requests\<close>

text \<open>The policy is applied to a template before any connection is derived from it.\<close>

definition apply_ssl_options ::
    "'w http_lib \<Rightarrow> cint \<Rightarrow> string \<Rightarrow> cint \<Rightarrow> http \<Rightarrow> 'w \<Rightarrow> bool \<times> http \<times> 'w" where
  "apply_ssl_options L tpl_id url ssl_verify H w =
     (if ssl_verify = HTTP_SSL_VERIFY_OFF then
        (True, H, snd (sceHttpsDisableOption L tpl_id (SSL_SERVER_CHECKS OR SCE_HTTPS_FLAG_CLIENT_VERIFY) w))
      else
        let w = snd (sceHttpsDisableOption L tpl_id SCE_HTTPS_FLAG_CLIENT_VERIFY w) in
        (case sceHttpsEnableOption L tpl_id SSL_SERVER_CHECKS w of (ret, w) \<Rightarrow>
           if ret \<noteq> 0 then
             (False, set_last_error (''Unable to enable TLS verification for '' @ [CHR 0x27] @ url
                        @ [CHR 0x27] @ '': '' @ fmt_08X ret @ ''.'') H, w)
           else (True, H, w)))"

definition resolve_ssl_verify :: "http \<Rightarrow> cint \<Rightarrow> cint" where
  "resolve_ssl_verify H ssl_verify =
     (if ssl_verify = HTTP_SSL_VERIFY_OFF then HTTP_SSL_VERIFY_OFF
      else if ssl_verify = HTTP_SSL_VERIFY_ON then HTTP_SSL_VERIFY_ON
      else s_ssl_verify_mode H)"

text \<open>A callback gets its argument, the request, the status code, the content length and its
  type; it returns a code and its updated argument.\<close>

type_synonym ('w, 'a) request_cb =
  "'a \<Rightarrow> cint \<Rightarrow> cint \<Rightarrow> u64 \<Rightarrow> cint \<Rightarrow> 'w \<Rightarrow> ((cint \<times> 'a) \<times> 'w) option"

fun add_headers :: "'w http_lib \<Rightarrow> cint \<Rightarrow> (string \<times> string) list \<Rightarrow> 'w \<Rightarrow> cint \<times> 'w" where
  "add_headers L req_id [] w = (0, w)"
| "add_headers L req_id ((n, v) # hs) w =
     (case sceHttpAddRequestHeader L req_id n v w of (ret, w) \<Rightarrow>
        if ret \<noteq> 0 then (ret, w) else add_headers L req_id hs w)"

definition send_failed_msg :: "string \<Rightarrow> cint \<Rightarrow> cint \<Rightarrow> cint \<Rightarrow> http \<Rightarrow> string" where
  "send_failed_msg url ret last_errno ssl_verify H =
     ''Request to '' @ [CHR 0x27] @ url @ [CHR 0x27] @ '' failed ('' @ fmt_08X ret @ '', errno '' @ fmt_d last_errno
     @ (if ssl_verify = HTTP_SSL_VERIFY_ON \<and> starts_with url ''https://''
        then ''). With TLS verification on this is usually an untrusted or expired server certificate: add its issuer to ''
             @ s_ca_bundle_path H @ '', or turn ssl_verify off.''
        else '').'')"

text \<open>What happens on a request handle, up to its deletion: the status and the argument.\<close>

definition request_body ::
    "'w http_lib \<Rightarrow> string \<Rightarrow> string option \<Rightarrow> (string \<times> string) list \<Rightarrow> ('w, 'a) request_cb \<Rightarrow> 'a
      \<Rightarrow> cint \<Rightarrow> cint \<Rightarrow> http \<Rightarrow> 'w \<Rightarrow> (cint \<times> 'a \<times> http \<times> 'w) option" where
  "request_body L url data headers cb arg ssl_verify req_id H w =
     (case add_headers L req_id headers w of (ret, w) \<Rightarrow>
      if ret \<noteq> 0 then Some (ret, arg, H, w)
      else case sceHttpSendRequest L req_id data w of (ret, w) \<Rightarrow>
      if ret \<noteq> 0 then
        (case sceHttpGetLastErrno L req_id w of ((e, last_errno), w) \<Rightarrow>
           let last_errno = (if e \<noteq> 0 then 0 else last_errno)
           in Some (ret, arg, set_last_error (send_failed_msg url ret last_errno ssl_verify H) H, w))
      else case sceHttpGetStatusCode L req_id w of ((ret, status_code), w) \<Rightarrow>
      if sint ret < 0 then Some (ret, arg, H, w)
      else case (if is_good_status status_code then sceHttpGetResponseContentLength L req_id w
                 else ((0, -1, 0), w)) of ((ret, content_length_type, content_length), w) \<Rightarrow>
      if ret \<noteq> 0 then Some (ret, arg, H, w)
      else (case cb arg req_id status_code content_length content_length_type w of
              None \<Rightarrow> None
            | Some ((status, arg), w) \<Rightarrow> Some (status, arg, H, w)))"

definition connection_body ::
    "'w http_lib \<Rightarrow> string \<Rightarrow> cint \<Rightarrow> string option \<Rightarrow> (string \<times> string) list \<Rightarrow> ('w, 'a) request_cb \<Rightarrow> 'a
      \<Rightarrow> cint \<Rightarrow> cint \<Rightarrow> http \<Rightarrow> 'w \<Rightarrow> (cint \<times> 'a \<times> http \<times> 'w) option" where
  "connection_body L url meth data headers cb arg ssl_verify conn_id H w =
     (case sceHttpCreateRequestWithURL L conn_id meth url (case data of None \<Rightarrow> 0 | Some d \<Rightarrow> length d) w of
        (ret, w) \<Rightarrow>
      if sint ret < 0 then Some (ret, arg, H, w)
      else case request_body L url data headers cb arg ssl_verify ret H w of
        None \<Rightarrow> None
      | Some (status, arg, H, w) \<Rightarrow> Some (status, arg, H, snd (sceHttpDeleteRequest L ret w)))"

definition template_body ::
    "'w http_lib \<Rightarrow> string \<Rightarrow> cint \<Rightarrow> string option \<Rightarrow> (string \<times> string) list \<Rightarrow> ('w, 'a) request_cb \<Rightarrow> 'a
      \<Rightarrow> cint \<Rightarrow> cint \<Rightarrow> http \<Rightarrow> 'w \<Rightarrow> (cint \<times> 'a \<times> http \<times> 'w) option" where
  "template_body L url meth data headers cb arg ssl_verify tpl_id H w =
     (case apply_ssl_options L tpl_id url ssl_verify H w of (ok, H, w) \<Rightarrow>
      if \<not> ok then Some (SCE_HTTP_ERROR_INVALID_VALUE, arg, H, w)
      else case sceHttpCreateConnectionWithURL L tpl_id url w of (ret, w) \<Rightarrow>
      if sint ret < 0 then Some (ret, arg, H, w)
      else case connection_body L url meth data headers cb arg ssl_verify ret H w of
        None \<Rightarrow> None
      | Some (status, arg, H, w) \<Rightarrow> Some (status, arg, H, snd (sceHttpDeleteConnection L ret w)))"

definition do_request ::
    "'w http_lib \<Rightarrow> string option \<Rightarrow> cint \<Rightarrow> string option \<Rightarrow> (string \<times> string) list \<Rightarrow> ('w, 'a) request_cb
      \<Rightarrow> 'a \<Rightarrow> cint \<Rightarrow> http \<Rightarrow> 'w \<Rightarrow> (cint \<times> 'a \<times> http \<times> 'w) option" where
  "do_request L url meth data headers cb arg ssl_verify H w =
     (let H = http_clear_last_error H;
          ssl_verify = resolve_ssl_verify H ssl_verify
      in case url of None \<Rightarrow> Some (SCE_HTTP_ERROR_INVALID_VALUE, arg, H, w)
      | Some url \<Rightarrow>
          (case sceHttpCreateTemplate L (s_libhttp_ctx_id H) w of (ret, w) \<Rightarrow>
           if sint ret < 0 then Some (ret, arg, H, w)
           else case template_body L url meth data headers cb arg ssl_verify ret H w of
             None \<Rightarrow> None
           | Some (status, arg, H, w) \<Rightarrow> Some (status, arg, H, snd (sceHttpDeleteTemplate L ret w))))"

section \<open>Downloads\<close>

record download_file_cb_args =
  d_data :: "string option"
  d_data_size :: u64
  d_actual_size :: u64
  d_content_length :: u64
  d_chunk_size :: "nat option"
  d_want_partial :: bool
  d_range_ignored :: bool
  d_status_code :: cint

definition args_zero :: download_file_cb_args where
  "args_zero = \<lparr>d_data = None, d_data_size = 0, d_actual_size = 0, d_content_length = 0,
     d_chunk_size = None, d_want_partial = False, d_range_ignored = False, d_status_code = 0\<rparr>"

text \<open>The transfer: \<open>cap\<close> is the size of the allocated buffer, \<open>tot\<close> the number of bytes
  wanted, \<open>acc\<close> the bytes copied so far.  A copy past the buffer is \<open>None\<close>.\<close>

function xfer_loop ::
    "'w http_lib \<Rightarrow> cint \<Rightarrow> nat \<Rightarrow> nat \<Rightarrow> nat \<Rightarrow> string \<Rightarrow> 'w \<Rightarrow> ((cint \<times> string) \<times> 'w) option" where
  "xfer_loop L req_id chunk cap tot acc w =
     (if tot \<le> length acc then Some ((0, acc), w)
      else case sceHttpReadData L req_id (min chunk (tot - length acc)) w of ((ret, bs), w) \<Rightarrow>
        if sint ret < 0 then Some ((ret, acc), w)
        else if ret = 0 then Some ((0, acc), w)
        else if length bs \<noteq> unat ret \<or> cap < length acc + unat ret then None
        else xfer_loop L req_id chunk cap tot (acc @ bs) w)"
  by pat_completeness auto
termination
  by (relation "measure (\<lambda>(L, req_id, chunk, cap, tot, acc, w). tot - length acc)")
     (auto intro!: diff_less_mono2 simp: unat_gt_0)

declare xfer_loop.simps [simp del]

text \<open>An unknown content length counts as the largest; the size to transfer is the smaller of it
  and the size asked for, where \<open>-1\<close> asks for everything.\<close>

definition known_length :: "'w http_lib \<Rightarrow> u64 \<Rightarrow> cint \<Rightarrow> u64" where
  "known_length L content_length content_length_type =
     (if content_length_type \<noteq> ORBIS_HTTP_CONTENTLEN_EXIST L then -1 else content_length)"

definition wanted_size :: "download_file_cb_args \<Rightarrow> u64 \<Rightarrow> u64" where
  "wanted_size args content_length =
     (if d_data_size args = -1 then content_length
      else if content_length < d_data_size args then content_length
      else d_data_size args)"

text \<open>The tail of the callback: allocation, zeroing and the transfer.  One byte more than the
  size is allocated, in 64-bit arithmetic.\<close>

definition cb_transfer ::
    "'w http_lib \<Rightarrow> download_file_cb_args \<Rightarrow> cint \<Rightarrow> u64 \<Rightarrow> u64 \<Rightarrow> 'w
      \<Rightarrow> ((cint \<times> download_file_cb_args) \<times> 'w) option" where
  "cb_transfer L args req_id content_length total_size w =
     (if 0 < total_size \<and> d_chunk_size args = None
      then Some ((SCE_HTTP_ERROR_INVALID_VALUE, args), w)
      else
        let args = args\<lparr>d_data_size := total_size, d_content_length := content_length\<rparr> in
        (case px_malloc (hl_posix L) (unat (total_size + 1)) w of
           (False, w) \<Rightarrow>
             Some ((SCE_HTTP_ERROR_OUT_OF_MEMORY, args\<lparr>d_data := None, d_actual_size := 0\<rparr>), w)
         | (True, w) \<Rightarrow>
             (case xfer_loop L req_id (case d_chunk_size args of None \<Rightarrow> 0 | Some n \<Rightarrow> n)
                     (unat (total_size + 1)) (unat total_size) [] w of
                None \<Rightarrow> None
              | Some ((ret, bs), w) \<Rightarrow>
                  Some ((ret, args\<lparr>d_data := Some bs, d_actual_size := word_of_nat (length bs)\<rparr>), w))))"

definition download_file_cb :: "'w http_lib \<Rightarrow> ('w, download_file_cb_args) request_cb" where
  "download_file_cb L args req_id status_code content_length content_length_type w =
     (let args = args\<lparr>d_status_code := status_code\<rparr> in
      if sint req_id < 0 then Some ((SCE_HTTP_ERROR_INVALID_ID, args), w)
      else if \<not> is_good_status status_code then Some ((404, args), w)
      else if d_want_partial args \<and> status_code \<noteq> 206 then
        Some ((SCE_HTTP_ERROR_INVALID_VALUE, args\<lparr>d_range_ignored := True\<rparr>), w)
      else if d_data_size args = -1 \<and> content_length_type \<noteq> ORBIS_HTTP_CONTENTLEN_EXIST L then
        Some ((SCE_HTTP_ERROR_NO_CONTENT_LENGTH, args), w)
      else
        let content_length = known_length L content_length content_length_type
        in cb_transfer L args req_id content_length (wanted_size args content_length) w)"

definition http_get_file_size ::
    "'w http_lib \<Rightarrow> string option \<Rightarrow> cint \<Rightarrow> http \<Rightarrow> 'w \<Rightarrow> (u64 option \<times> http \<times> 'w) option" where
  "http_get_file_size L url ssl_verify H w =
     (if \<not> s_http_initialized H then Some (None, H, w)
      else case url of None \<Rightarrow> Some (None, H, w)
      | Some u \<Rightarrow>
          (case do_request L url (ORBIS_METHOD_GET L) None [] (download_file_cb L) args_zero ssl_verify H w of
             None \<Rightarrow> None
           | Some (ret, args, H, w) \<Rightarrow>
               if ret \<noteq> 0 then Some (None, H, w)
               else if \<not> is_good_status (d_status_code args) then
                 Some (None, set_last_error (''Unexpected HTTP status '' @ fmt_d (d_status_code args)
                                @ '' for '' @ [CHR 0x27] @ u @ [CHR 0x27] @ ''.'') H, w)
               else if d_content_length args = -1 then
                 Some (None, set_last_error (''Server did not report a size for '' @ [CHR 0x27] @ u
                                @ [CHR 0x27] @ ''.'') H, w)
               else Some (Some (d_content_length args), H, w)))"

definition DOWNLOAD_CHUNK_SIZE :: nat where "DOWNLOAD_CHUNK_SIZE = 16384"

definition range_value :: "u64 \<Rightarrow> u64 \<Rightarrow> string" where
  "range_value offset n = ''bytes='' @ show_dec (unat offset) @ ''-'' @ show_dec (unat (offset + n - 1))"

text \<open>On success: the data, its size and the total size.  \<open>data_size\<close> is the size wanted, if
  the caller gave one.\<close>

definition http_download_file ::
    "'w http_lib \<Rightarrow> string option \<Rightarrow> u64 option \<Rightarrow> u64 \<Rightarrow> cint \<Rightarrow> http \<Rightarrow> 'w
      \<Rightarrow> ((string \<times> u64 \<times> u64) option \<times> http \<times> 'w) option" where
  "http_download_file L url data_size offset ssl_verify H w =
     (if \<not> s_http_initialized H then Some (None, H, w)
      else case url of None \<Rightarrow> Some (None, H, w)
      | Some u \<Rightarrow>
          let want = (case data_size of None \<Rightarrow> -1 | Some n \<Rightarrow> n);
              partial = (0 < offset \<and> 0 < want);
              args = args_zero\<lparr>d_data_size := want, d_chunk_size := Some DOWNLOAD_CHUNK_SIZE,
                               d_want_partial := partial\<rparr>;
              headers = (''Accept-Encoding'', ''identity'')
                        # (if partial then [(''Range'', trunc_cpy 48 (range_value offset want))] else [])
          in case do_request L url (ORBIS_METHOD_GET L) None headers (download_file_cb L) args ssl_verify H w of
             None \<Rightarrow> None
           | Some (ret, args, H, w) \<Rightarrow>
               if d_range_ignored args then
                 Some (None, set_last_error (''Server answered a range request for '' @ [CHR 0x27] @ u @ [CHR 0x27]
                     @ '' with HTTP '' @ fmt_d (d_status_code args)
                     @ '' instead of 206, so it cannot serve partial content.'') H, w)
               else if ret \<noteq> 0 then Some (None, H, w)
               else if \<not> is_good_status (d_status_code args) then
                 Some (None, set_last_error (''Unexpected HTTP status '' @ fmt_d (d_status_code args)
                                @ '' for '' @ [CHR 0x27] @ u @ [CHR 0x27] @ ''.'') H, w)
               else (case d_data args of None \<Rightarrow> None
                     | Some bs \<Rightarrow> Some (Some (bs, d_actual_size args, d_content_length args), H, w)))"

section \<open>Unescaping\<close>

definition http_unescape_uri ::
    "'w http_lib \<Rightarrow> string option \<Rightarrow> http \<Rightarrow> 'w \<Rightarrow> string option \<times> 'w" where
  "http_unescape_uri L inp H w =
     (if \<not> s_http_initialized H then (None, w)
      else case inp of None \<Rightarrow> (None, w)
      | Some s \<Rightarrow>
          (case sceHttpUriUnescape L None s w of ((ret, tmp_size, u), w) \<Rightarrow>
           if ret \<noteq> 0 then (None, w)
           else case px_malloc (hl_posix L) tmp_size w of
             (False, w) \<Rightarrow> (None, w)
           | (True, w) \<Rightarrow>
               (case sceHttpUriUnescape L (Some tmp_size) s w of ((ret, out_size, out), w) \<Rightarrow>
                  if ret \<noteq> 0 then (None, w) else (Some out, w))))"

section \<open>Start and stop\<close>

definition HTTP_HEAP_SIZE :: nat where "HTTP_HEAP_SIZE = 1024 * 1024"
definition SSL_HEAP_SIZE :: nat where "SSL_HEAP_SIZE = 128 * 1024"

text \<open>\<open>net\<close> is the memory pool of the network layer when that is initialised.\<close>

definition http_init ::
    "'w http_lib \<Rightarrow> cint option \<Rightarrow> json_t list \<Rightarrow> http \<Rightarrow> 'w \<Rightarrow> (bool \<times> http \<times> 'w) option" where
  "http_init L net pool H w =
     (if s_http_initialized H then Some (True, H, w)
      else case net of None \<Rightarrow> Some (False, H, w)
      | Some mem_id \<Rightarrow>
          (case sceSslInit L SSL_HEAP_SIZE w of (ret, w) \<Rightarrow>
           if sint ret < 0 then Some (False, H, w)
           else let H = H\<lparr>s_libssl_ctx_id := ret\<rparr> in
             (case sceHttpInit L mem_id (s_libssl_ctx_id H) HTTP_HEAP_SIZE w of (ret, w) \<Rightarrow>
              if sint ret < 0 then
                Some (False, H\<lparr>s_libssl_ctx_id := -1\<rparr>, snd (sceSslTerm L (s_libssl_ctx_id H) w))
              else
                let H = H\<lparr>s_libhttp_ctx_id := ret, s_http_initialized := True\<rparr> in
                (case http_load_config L pool (Some HTTP_CONFIG_PATH) H w of
                   None \<Rightarrow> None
                 | Some (ok, H, w) \<Rightarrow>
                     (case http_load_ca_bundle L (Some (s_ca_bundle_path H)) H w of
                        None \<Rightarrow> None
                      | Some (ok, H, w) \<Rightarrow>
                          Some (True, if ok then H else http_clear_last_error H, w))))))"

definition http_fini :: "'w http_lib \<Rightarrow> http \<Rightarrow> 'w \<Rightarrow> http \<times> 'w" where
  "http_fini L H w =
     (if \<not> s_http_initialized H then (H, w)
      else case unload_ca_bundle L H w of (H, w) \<Rightarrow>
        let w = snd (sceHttpTerm L (s_libhttp_ctx_id H) w);
            w = snd (sceSslTerm L (s_libssl_ctx_id H) w)
        in (H\<lparr>s_libhttp_ctx_id := -1, s_libssl_ctx_id := -1, s_http_initialized := False\<rparr>, w))"

section \<open>Handles\<close>

text \<open>\<open>live\<close> observes the handles that exist.  Creating one adds it, deleting one removes it,
  nothing else changes the set.\<close>

datatype handle = Tpl cint | Conn cint | Req cint

definition handles_created :: "'w http_lib \<Rightarrow> ('w \<Rightarrow> handle set) \<Rightarrow> bool" where
  "handles_created L live \<longleftrightarrow>
     (\<forall>c w r w'. sceHttpCreateTemplate L c w = (r, w') \<longrightarrow>
        (if sint r < 0 then live w' = live w else Tpl r \<notin> live w \<and> live w' = insert (Tpl r) (live w))) \<and>
     (\<forall>c u w r w'. sceHttpCreateConnectionWithURL L c u w = (r, w') \<longrightarrow>
        (if sint r < 0 then live w' = live w else Conn r \<notin> live w \<and> live w' = insert (Conn r) (live w))) \<and>
     (\<forall>c m u n w r w'. sceHttpCreateRequestWithURL L c m u n w = (r, w') \<longrightarrow>
        (if sint r < 0 then live w' = live w else Req r \<notin> live w \<and> live w' = insert (Req r) (live w)))"

definition handles_deleted :: "'w http_lib \<Rightarrow> ('w \<Rightarrow> handle set) \<Rightarrow> bool" where
  "handles_deleted L live \<longleftrightarrow>
     (\<forall>i w. live (snd (sceHttpDeleteTemplate L i w)) = live w - {Tpl i}) \<and>
     (\<forall>i w. live (snd (sceHttpDeleteConnection L i w)) = live w - {Conn i}) \<and>
     (\<forall>i w. live (snd (sceHttpDeleteRequest L i w)) = live w - {Req i})"

definition handles_kept :: "'w http_lib \<Rightarrow> ('w \<Rightarrow> handle set) \<Rightarrow> bool" where
  "handles_kept L live \<longleftrightarrow>
     (\<forall>i f w. live (snd (sceHttpsEnableOption L i f w)) = live w) \<and>
     (\<forall>i f w. live (snd (sceHttpsDisableOption L i f w)) = live w) \<and>
     (\<forall>i n v w. live (snd (sceHttpAddRequestHeader L i n v w)) = live w) \<and>
     (\<forall>i d w. live (snd (sceHttpSendRequest L i d w)) = live w) \<and>
     (\<forall>i w. live (snd (sceHttpGetLastErrno L i w)) = live w) \<and>
     (\<forall>i w. live (snd (sceHttpGetStatusCode L i w)) = live w) \<and>
     (\<forall>i w. live (snd (sceHttpGetResponseContentLength L i w)) = live w) \<and>
     (\<forall>i n w. live (snd (sceHttpReadData L i n w)) = live w) \<and>
     (\<forall>n w. live (snd (px_malloc (hl_posix L) n w)) = live w)"

definition http_handles :: "'w http_lib \<Rightarrow> ('w \<Rightarrow> handle set) \<Rightarrow> bool" where
  "http_handles L live \<longleftrightarrow> handles_created L live \<and> handles_deleted L live \<and> handles_kept L live"

lemma http_handles_created:
  assumes "http_handles L live"
  shows "sceHttpCreateTemplate L c w = (r, w') \<Longrightarrow>
      (if sint r < 0 then live w' = live w else Tpl r \<notin> live w \<and> live w' = insert (Tpl r) (live w))"
    and "sceHttpCreateConnectionWithURL L c u w = (r, w') \<Longrightarrow>
      (if sint r < 0 then live w' = live w else Conn r \<notin> live w \<and> live w' = insert (Conn r) (live w))"
    and "sceHttpCreateRequestWithURL L c m u n w = (r, w') \<Longrightarrow>
      (if sint r < 0 then live w' = live w else Req r \<notin> live w \<and> live w' = insert (Req r) (live w))"
  using assms unfolding http_handles_def handles_created_def by blast+

lemma http_handles_simps:
  assumes "http_handles L live"
  shows "live (snd (sceHttpDeleteTemplate L i w)) = live w - {Tpl i}"
    and "live (snd (sceHttpDeleteConnection L i w)) = live w - {Conn i}"
    and "live (snd (sceHttpDeleteRequest L i w)) = live w - {Req i}"
    and "live (snd (sceHttpsDisableOption L i f w)) = live w"
    and "live (snd (sceHttpsEnableOption L i f w)) = live w"
    and "live (snd (sceHttpAddRequestHeader L i hn hv w)) = live w"
    and "live (snd (sceHttpSendRequest L i d w)) = live w"
    and "live (snd (sceHttpGetLastErrno L i w)) = live w"
    and "live (snd (sceHttpGetStatusCode L i w)) = live w"
    and "live (snd (sceHttpGetResponseContentLength L i w)) = live w"
    and "live (snd (sceHttpReadData L i k w)) = live w"
    and "live (snd (px_malloc (hl_posix L) k w)) = live w"
  using assms unfolding http_handles_def handles_deleted_def handles_kept_def by simp_all

lemma http_handles_kept:
  assumes "http_handles L live"
  shows "sceHttpsDisableOption L i f w = (r, w') \<Longrightarrow> live w' = live w"
    and "sceHttpsEnableOption L i f w = (r, w') \<Longrightarrow> live w' = live w"
    and "sceHttpAddRequestHeader L i hn hv w = (r, w') \<Longrightarrow> live w' = live w"
    and "sceHttpSendRequest L i d w = (r, w') \<Longrightarrow> live w' = live w"
    and "sceHttpGetLastErrno L i w = (x, w') \<Longrightarrow> live w' = live w"
    and "sceHttpGetStatusCode L i w = (x, w') \<Longrightarrow> live w' = live w"
    and "sceHttpGetResponseContentLength L i w = (y, w') \<Longrightarrow> live w' = live w"
    and "sceHttpReadData L i k w = (z, w') \<Longrightarrow> live w' = live w"
    and "px_malloc (hl_posix L) k w = (b, w') \<Longrightarrow> live w' = live w"
  using http_handles_simps(4-12) [OF assms] by (metis snd_conv)+

text \<open>A callback that leaves the handles alone.\<close>

definition cb_keeps :: "('w \<Rightarrow> 'h) \<Rightarrow> ('w, 'a) request_cb \<Rightarrow> bool" where
  "cb_keeps live cb \<longleftrightarrow> (\<forall>a i s n ty w x w'. cb a i s n ty w = Some (x, w') \<longrightarrow> live w' = live w)"

lemma add_headers_live:
  assumes "http_handles L live"
  shows "add_headers L i hs w = (r, w') \<Longrightarrow> live w' = live w"
proof (induction hs arbitrary: w)
  case (Cons h hs)
  obtain n v where h: "h = (n, v)" by (cases h)
  obtain r1 w1 where c: "sceHttpAddRequestHeader L i n v w = (r1, w1)" by fastforce
  from Cons h c http_handles_kept(3) [OF assms c] show ?case by (auto split: if_splits)
qed simp

lemma request_body_live:
  assumes "http_handles L live" and "cb_keeps live cb"
    and "request_body L url data hs cb arg v i H w = Some (st, arg', H', w')"
  shows "live w' = live w"
proof -
  note K = http_handles_kept [OF assms(1)]
  obtain r1 w1 where 1: "add_headers L i hs w = (r1, w1)" by fastforce
  obtain r2 w2 where 2: "sceHttpSendRequest L i data w1 = (r2, w2)" by fastforce
  obtain e le w3 where 3: "sceHttpGetLastErrno L i w2 = ((e, le), w3)" by (metis prod.collapse)
  obtain r4 sc w4 where 4: "sceHttpGetStatusCode L i w2 = ((r4, sc), w4)" by (metis prod.collapse)
  obtain r5 ty n w5 where 5: "sceHttpGetResponseContentLength L i w4 = ((r5, ty, n), w5)"
    by (metis prod.collapse)
  have cb: "cb arg i s n ty w = Some (x, w') \<Longrightarrow> live w' = live w" for s n ty w x w'
    using assms(2) unfolding cb_keeps_def by blast
  show ?thesis
    using assms(3) add_headers_live [OF assms(1) 1] K(4) [OF 2] K(5) [OF 3] K(6) [OF 4] K(7) [OF 5]
    by (auto simp: request_body_def 1 2 3 4 5 Let_def split: if_splits option.splits dest!: cb)
qed

lemma connection_body_live:
  assumes "http_handles L live" and "cb_keeps live cb"
    and "connection_body L url mt data hs cb arg v i H w = Some (st, arg', H', w')"
  shows "live w' = live w"
proof -
  note D = http_handles_created [OF assms(1)] and S = http_handles_simps [OF assms(1)]
  obtain r w1 where 1: "sceHttpCreateRequestWithURL L i mt url (case data of None \<Rightarrow> 0 | Some d \<Rightarrow> length d) w = (r, w1)"
    by fastforce
  from assms(3) D(3) [OF 1] show ?thesis
    by (auto simp: connection_body_def 1 S(3) split: if_splits option.splits
        dest!: request_body_live [OF assms(1,2)])
qed

lemma apply_ssl_options_live:
  assumes "http_handles L live" and "apply_ssl_options L i url v H w = (ok, H', w')"
  shows "live w' = live w"
proof -
  note S = http_handles_simps [OF assms(1)]
  let ?w1 = "snd (sceHttpsDisableOption L i SCE_HTTPS_FLAG_CLIENT_VERIFY w)"
  obtain r w2 where 2: "sceHttpsEnableOption L i SSL_SERVER_CHECKS ?w1 = (r, w2)" by fastforce
  have w2: "live w2 = live w" using http_handles_kept(2) [OF assms(1) 2] S(4) by simp
  show ?thesis
  proof (cases "v = HTTP_SSL_VERIFY_OFF")
    case True
    with assms(2) have "w' = snd (sceHttpsDisableOption L i (SSL_SERVER_CHECKS OR SCE_HTTPS_FLAG_CLIENT_VERIFY) w)"
      by (simp add: apply_ssl_options_def)
    then show ?thesis by (simp only: S(4))
  next
    case False
    with assms(2) have "w' = w2"
      by (simp add: apply_ssl_options_def 2 split: if_splits)
    with w2 show ?thesis by simp
  qed
qed

lemma template_body_live:
  assumes "http_handles L live" and "cb_keeps live cb"
    and "template_body L url mt data hs cb arg v i H w = Some (st, arg', H', w')"
  shows "live w' = live w"
proof -
  note D = http_handles_created [OF assms(1)] and S = http_handles_simps [OF assms(1)]
  obtain ok H1 w1 where 1: "apply_ssl_options L i url v H w = (ok, H1, w1)" by (metis prod.collapse)
  obtain r w2 where 2: "sceHttpCreateConnectionWithURL L i url w1 = (r, w2)" by fastforce
  from assms(3) apply_ssl_options_live [OF assms(1) 1] D(2) [OF 2] show ?thesis
    by (auto simp: template_body_def 1 2 S(2) split: if_splits option.splits
        dest!: connection_body_live [OF assms(1,2)])
qed

lemma do_request_live:
  assumes "http_handles L live" and "cb_keeps live cb"
    and "do_request L url mt data hs cb arg v H w = Some (st, arg', H', w')"
  shows "live w' = live w"
proof -
  note D = http_handles_created [OF assms(1)] and S = http_handles_simps [OF assms(1)]
  obtain r w1 where 1: "sceHttpCreateTemplate L (s_libhttp_ctx_id (http_clear_last_error H)) w = (r, w1)"
    by fastforce
  from assms(3) D(1) [OF 1] show ?thesis
    by (auto simp: do_request_def Let_def 1 S(1) split: if_splits option.splits
        dest!: template_body_live [OF assms(1,2)])
qed

lemma xfer_loop_live:
  assumes "http_handles L live"
  shows "xfer_loop L i ch cap tot acc w = Some (x, w') \<Longrightarrow> live w' = live w"
proof (induction "tot - length acc" arbitrary: acc w rule: less_induct)
  case less
  obtain ret bs w1 where r: "sceHttpReadData L i (min ch (tot - length acc)) w = ((ret, bs), w1)"
    by (metis prod.collapse)
  note l = http_handles_kept(8) [OF assms r]
  have "tot - (length acc + length bs) < tot - length acc"
    if "\<not> tot \<le> length acc" "ret \<noteq> 0" "length bs = unat ret"
    using that by (auto intro!: diff_less_mono2 simp: unat_gt_0)
  with less.prems less.hyps [of "acc @ bs" w1] l show ?case
    by (subst (asm) xfer_loop.simps) (auto simp: r split: if_splits)
qed

lemma download_file_cb_keeps:
  assumes "http_handles L live"
  shows "cb_keeps live (download_file_cb L)"
  unfolding cb_keeps_def
  by (auto simp: download_file_cb_def cb_transfer_def Let_def split: prod.splits if_splits option.splits bool.splits
      dest!: xfer_loop_live [OF assms] http_handles_kept(9) [OF assms])

lemma http_download_file_live:
  assumes "http_handles L live"
    and "http_download_file L url n off v H w = Some (r, H', w')"
  shows "live w' = live w"
  using assms(2) unfolding http_download_file_def
  by (auto simp: Let_def split: prod.splits if_splits option.splits
      dest!: do_request_live [OF assms(1) download_file_cb_keeps [OF assms(1)]])

lemma http_get_file_size_live:
  assumes "http_handles L live"
    and "http_get_file_size L url v H w = Some (r, H', w')"
  shows "live w' = live w"
  using assms(2) unfolding http_get_file_size_def
  by (auto simp: Let_def split: prod.splits if_splits option.splits
      dest!: do_request_live [OF assms(1) download_file_cb_keeps [OF assms(1)]])

section \<open>Transfers\<close>

text \<open>What the library promises of \<open>sceHttpReadData\<close>: \<open>body\<close> observes the part of the response
  body that has not been read; a read delivers the next bytes of it, at most as many as asked
  for, and reports the end only when nothing is left.  Allocating memory does not read.\<close>

definition reads_stream :: "'w http_lib \<Rightarrow> (cint \<Rightarrow> 'w \<Rightarrow> string) \<Rightarrow> bool" where
  "reads_stream L body \<longleftrightarrow>
     (\<forall>i n w ret bs w'. sceHttpReadData L i n w = ((ret, bs), w') \<longrightarrow> \<not> sint ret < 0 \<longrightarrow>
        unat ret \<le> n \<and> length bs = unat ret \<and> bs = take (unat ret) (body i w)
        \<and> body i w' = drop (unat ret) (body i w) \<and> (ret = 0 \<longrightarrow> 0 < n \<longrightarrow> body i w = [])) \<and>
     (\<forall>i n w. body i (snd (px_malloc (hl_posix L) n w)) = body i w)"

lemma reads_streamD:
  assumes "reads_stream L body" and "sceHttpReadData L i n w = ((ret, bs), w')" and "\<not> sint ret < 0"
  shows "unat ret \<le> n" "length bs = unat ret" "bs = take (unat ret) (body i w)"
    "body i w' = drop (unat ret) (body i w)" "ret = 0 \<Longrightarrow> 0 < n \<Longrightarrow> body i w = []"
  using assms unfolding reads_stream_def by blast+

lemma xfer_loop_spec:
  assumes st: "reads_stream L body" and cap: "tot \<le> cap" and ch: "0 < ch"
  shows "length acc \<le> tot \<Longrightarrow> \<exists>r bs w'. xfer_loop L i ch cap tot acc w = Some ((r, acc @ bs), w')
     \<and> length acc + length bs \<le> tot \<and> (r = 0 \<longrightarrow> bs = take (tot - length acc) (body i w))
     \<and> (r \<noteq> 0 \<longrightarrow> sint r < 0)"
proof (induction "tot - length acc" arbitrary: acc w rule: less_induct)
  case less
  obtain ret bs w1 where r: "sceHttpReadData L i (min ch (tot - length acc)) w = ((ret, bs), w1)"
    by (metis prod.collapse)
  show ?case
  proof (cases "tot \<le> length acc \<or> sint ret < 0 \<or> ret = 0")
    case True
    moreover have "body i w = []" if "\<not> tot \<le> length acc" "ret = 0"
      using reads_streamD(5) [OF st r] that ch by simp
    ultimately show ?thesis using less.prems by (subst xfer_loop.simps) (auto simp: r)
  next
    case False
    note d = reads_streamD(1-4) [OF st r]
    have n: "0 < unat ret" "length bs = unat ret" "length acc + length bs \<le> tot"
      using False d(1,2) by (auto simp: unat_gt_0)
    then have "tot - length (acc @ bs) < tot - length acc" "length (acc @ bs) \<le> tot" by auto
    from less.hyps [OF this, of w1] obtain r' bs' w' where
      x: "xfer_loop L i ch cap tot (acc @ bs) w1 = Some ((r', (acc @ bs) @ bs'), w')"
      "length (acc @ bs) + length bs' \<le> tot"
      "r' = 0 \<longrightarrow> bs' = take (tot - length (acc @ bs)) (body i w1)" "r' \<noteq> 0 \<longrightarrow> sint r' < 0" by blast
    have "bs @ take (tot - length (acc @ bs)) (body i w1) = take (tot - length acc) (body i w)"
    proof -
      have k: "tot - length acc = unat ret + (tot - length (acc @ bs))" using n by simp
      show ?thesis using d(3,4) False
        by (subst k) (simp add: take_add [symmetric] add.commute)
    qed
    then show ?thesis using x False n cap
      by (subst xfer_loop.simps) (auto simp: r intro!: exI [of _ "bs @ bs'"])
  qed
qed

lemma wanted_size_le: "d_data_size args \<noteq> -1 \<Longrightarrow> wanted_size args n \<le> d_data_size args"
  by (auto simp: wanted_size_def)

lemma u64_succ: "n \<noteq> (-1::u64) \<Longrightarrow> unat (n + 1) = unat n + 1"
  by (metis add.commute add_eq_0_iff unatSuc Suc_eq_plus1)

lemma cb_transfer_spec:
  assumes st: "reads_stream L body" and ch: "d_chunk_size args = Some ch" "0 < ch"
    and sz: "sz \<noteq> -1"
  shows "\<exists>r args' w'. cb_transfer L args i n sz w = Some ((r, args'), w')
     \<and> d_range_ignored args' = d_range_ignored args \<and> d_status_code args' = d_status_code args
     \<and> (r = 0 \<longrightarrow> d_data args' = Some (take (unat sz) (body i w))
         \<and> unat (d_actual_size args') = length (take (unat sz) (body i w))
         \<and> d_content_length args' = n)"
proof -
  obtain b w1 where m: "px_malloc (hl_posix L) (unat (sz + 1)) w = (b, w1)" by fastforce
  have "\<forall>i n w. body i (snd (px_malloc (hl_posix L) n w)) = body i w"
    using st unfolding reads_stream_def by blast
  then have body: "body i w1 = body i w" using m by (metis snd_conv)
  obtain r bs w2 where x: "xfer_loop L i ch (unat (sz + 1)) (unat sz) [] w1 = Some ((r, bs), w2)"
    "length bs \<le> unat sz" "r = 0 \<longrightarrow> bs = take (unat sz) (body i w)"
    using xfer_loop_spec [OF st _ ch(2), of "unat sz" "unat (sz + 1)" "[]" i w1]
    by (auto simp: u64_succ [OF sz] body)
  have len: "unat (word_of_nat (length bs) :: u64) = length bs"
    using le_less_trans [OF x(2) unsigned_less] by (simp add: unat_of_nat)
  show ?thesis
  proof (cases b)
    case True
    with m x ch len show ?thesis by (simp add: cb_transfer_def Let_def del: length_take)
  next
    case False
    with m ch show ?thesis by (simp add: cb_transfer_def Let_def http_error_defs)
  qed
qed

lemma download_file_cb_spec:
  assumes st: "reads_stream L body" and ch: "d_chunk_size args = Some ch" "0 < ch"
    and sz: "d_data_size args \<noteq> -1 \<or> known_length L n ty \<noteq> -1"
  defines "sz \<equiv> wanted_size args (known_length L n ty)"
  shows "\<exists>r args' w'. download_file_cb L args i status n ty w = Some ((r, args'), w')
     \<and> d_status_code args' = status
     \<and> (r = 0 \<longrightarrow> is_good_status status \<and> (d_want_partial args \<longrightarrow> status = 206)
         \<and> d_data args' = Some (take (unat sz) (body i w))
         \<and> unat (d_actual_size args') = length (take (unat sz) (body i w))
         \<and> d_content_length args' = known_length L n ty)"
proof -
  have "sz \<noteq> -1" using sz by (auto simp: sz_def wanted_size_def)
  moreover have "wanted_size (args\<lparr>d_status_code := status\<rparr>) c = wanted_size args c" for c
    by (simp add: wanted_size_def)
  ultimately show ?thesis
    using cb_transfer_spec [OF st, of "args\<lparr>d_status_code := status\<rparr>" ch sz i "known_length L n ty" w] ch
    by (auto simp: download_file_cb_def Let_def http_error_defs sz_def simp del: length_take)
qed

section \<open>Whole requests\<close>

text \<open>A callback that never faults on an argument, and one that succeeded on it.\<close>

definition cb_runs :: "('w, 'a) request_cb \<Rightarrow> 'a \<Rightarrow> bool" where
  "cb_runs cb arg \<longleftrightarrow> (\<forall>i s n ty w. cb arg i s n ty w \<noteq> None)"

definition cb_ok :: "('w, 'a) request_cb \<Rightarrow> 'a \<Rightarrow> 'a \<Rightarrow> bool" where
  "cb_ok cb arg arg' \<longleftrightarrow> (\<exists>i s n ty w w'. cb arg i s n ty w = Some ((0, arg'), w'))"

lemma cb_okI: "cb arg i s n ty w = Some ((0, arg'), w') \<Longrightarrow> cb_ok cb arg arg'"
  unfolding cb_ok_def by blast

lemma request_body_total: "cb_runs cb arg \<Longrightarrow> request_body L url data hs cb arg v i H w \<noteq> None"
  unfolding cb_runs_def request_body_def
  by (simp add: Let_def split: prod.split option.split del: not_None_eq)

lemma connection_body_total: "cb_runs cb arg \<Longrightarrow> connection_body L url mt data hs cb arg v i H w \<noteq> None"
  using request_body_total [of cb arg L url data hs v] unfolding connection_body_def
  by (cases data) (simp_all split: prod.split option.split del: not_None_eq)

lemma template_body_total: "cb_runs cb arg \<Longrightarrow> template_body L url mt data hs cb arg v i H w \<noteq> None"
  using connection_body_total [of cb arg L url mt data hs v] unfolding template_body_def
  by (simp split: prod.split option.split del: not_None_eq)

lemma do_request_total: "cb_runs cb arg \<Longrightarrow> do_request L url mt data hs cb arg v H w \<noteq> None"
  using template_body_total [of cb arg L _ mt data hs] unfolding do_request_def
  by (simp add: Let_def split: prod.split option.split del: not_None_eq)

lemma request_body_ok:
  "request_body L url data hs cb arg v i H w = Some (0, arg', H', w') \<Longrightarrow> cb_ok cb arg arg'"
  unfolding request_body_def
  by (auto simp: Let_def split: prod.splits option.splits if_splits intro: cb_okI)

lemma connection_body_ok:
  "connection_body L url mt data hs cb arg v i H w = Some (0, arg', H', w') \<Longrightarrow> cb_ok cb arg arg'"
  unfolding connection_body_def
  by (auto split: prod.splits option.splits if_splits dest: request_body_ok)

lemma template_body_ok:
  "template_body L url mt data hs cb arg v i H w = Some (0, arg', H', w') \<Longrightarrow> cb_ok cb arg arg'"
  unfolding template_body_def
  by (auto simp: http_error_defs split: prod.splits option.splits if_splits dest: connection_body_ok)

text \<open>A request that reports success ended in a successful callback.\<close>

lemma do_request_ok:
  "do_request L url mt data hs cb arg v H w = Some (0, arg', H', w') \<Longrightarrow> cb_ok cb arg arg'"
  unfolding do_request_def
  by (auto simp: Let_def http_error_defs split: prod.splits option.splits if_splits dest: template_body_ok)

lemma http_download_file_total:
  assumes st: "reads_stream L body" and n: "n \<noteq> -1"
  shows "\<exists>r H' w'. http_download_file L url (Some n) off v H w = Some (r, H', w')
     \<and> (\<forall>bs sz tot. r = Some (bs, sz, tot) \<longrightarrow> unat sz = length bs \<and> length bs \<le> unat n)"
proof (cases "s_http_initialized H \<and> url \<noteq> None")
  case False
  then show ?thesis by (auto simp: http_download_file_def split: option.splits)
next
  case True
  then obtain u where u: "url = Some u" by auto
  let ?part = "0 < off \<and> 0 < n"
  let ?args = "args_zero\<lparr>d_data_size := n, d_chunk_size := Some DOWNLOAD_CHUNK_SIZE, d_want_partial := ?part\<rparr>"
  let ?hs = "(''Accept-Encoding'', ''identity'')
      # (if ?part then [(''Range'', trunc_cpy 48 (range_value off n))] else [])"
  have cb: "\<exists>r args' w'. download_file_cb L ?args i s c ty w = Some ((r, args'), w')
     \<and> (r = 0 \<longrightarrow> (\<exists>bs. d_data args' = Some bs \<and> unat (d_actual_size args') = length bs \<and> length bs \<le> unat n))"
    for i s c ty w
  proof -
    have "unat (wanted_size ?args (known_length L c ty)) \<le> unat n"
      using n wanted_size_le [of ?args "known_length L c ty"] by (simp add: word_le_nat_alt)
    with download_file_cb_spec [OF st, of ?args DOWNLOAD_CHUNK_SIZE c ty i s w] n show ?thesis
      by (auto simp: DOWNLOAD_CHUNK_SIZE_def)
  qed
  then have "cb_runs (download_file_cb L) ?args"
    unfolding cb_runs_def by (metis option.distinct(1))
  from do_request_total [OF this]
  obtain ret args' H' w' where d: "do_request L url (ORBIS_METHOD_GET L) None ?hs (download_file_cb L) ?args v H w
      = Some (ret, args', H', w')"
    by (metis not_Some_eq prod_cases4)
  have ok: "\<exists>bs. d_data args' = Some bs \<and> unat (d_actual_size args') = length bs \<and> length bs \<le> unat n"
    if "ret = 0"
    using do_request_ok [OF d [unfolded that]] cb unfolding cb_ok_def
    by (metis fst_conv option.inject snd_conv)
  from True u d ok show ?thesis
    by (auto simp: http_download_file_def Let_def split: option.splits)
qed

section \<open>Frames\<close>

text \<open>A relation between worlds that every operation of the library respects is respected by the
  client as a whole: what the library does not touch, a download does not touch.\<close>

definition http_frame :: "'w http_lib \<Rightarrow> ('w \<Rightarrow> 'w \<Rightarrow> bool) \<Rightarrow> bool" where
  "http_frame L R \<longleftrightarrow> reflp R \<and> transp R \<and>
     (\<forall>c w. R w (snd (sceHttpCreateTemplate L c w))) \<and>
     (\<forall>i w. R w (snd (sceHttpDeleteTemplate L i w))) \<and>
     (\<forall>c u w. R w (snd (sceHttpCreateConnectionWithURL L c u w))) \<and>
     (\<forall>i w. R w (snd (sceHttpDeleteConnection L i w))) \<and>
     (\<forall>c m u n w. R w (snd (sceHttpCreateRequestWithURL L c m u n w))) \<and>
     (\<forall>i w. R w (snd (sceHttpDeleteRequest L i w))) \<and>
     (\<forall>i f w. R w (snd (sceHttpsEnableOption L i f w))) \<and>
     (\<forall>i f w. R w (snd (sceHttpsDisableOption L i f w))) \<and>
     (\<forall>i n v w. R w (snd (sceHttpAddRequestHeader L i n v w))) \<and>
     (\<forall>i d w. R w (snd (sceHttpSendRequest L i d w))) \<and>
     (\<forall>i w. R w (snd (sceHttpGetLastErrno L i w))) \<and>
     (\<forall>i w. R w (snd (sceHttpGetStatusCode L i w))) \<and>
     (\<forall>i w. R w (snd (sceHttpGetResponseContentLength L i w))) \<and>
     (\<forall>i n w. R w (snd (sceHttpReadData L i n w))) \<and>
     (\<forall>n w. R w (snd (px_malloc (hl_posix L) n w)))"

lemma http_frame_refl: "http_frame L R \<Longrightarrow> R w w"
  by (simp add: http_frame_def reflp_def)

lemma http_frame_trans: "http_frame L R \<Longrightarrow> R a b \<Longrightarrow> R b c \<Longrightarrow> R a c"
  by (auto simp: http_frame_def dest: transpD)

lemma http_frame_ops:
  assumes "http_frame L R"
  shows "R w (snd (sceHttpCreateTemplate L c w))" "R w (snd (sceHttpDeleteTemplate L i w))"
    "R w (snd (sceHttpCreateConnectionWithURL L c u w))" "R w (snd (sceHttpDeleteConnection L i w))"
    "R w (snd (sceHttpCreateRequestWithURL L c m u k w))" "R w (snd (sceHttpDeleteRequest L i w))"
    "R w (snd (sceHttpsEnableOption L i f w))" "R w (snd (sceHttpsDisableOption L i f w))"
    "R w (snd (sceHttpAddRequestHeader L i n v w))" "R w (snd (sceHttpSendRequest L i d w))"
    "R w (snd (sceHttpGetLastErrno L i w))" "R w (snd (sceHttpGetStatusCode L i w))"
    "R w (snd (sceHttpGetResponseContentLength L i w))" "R w (snd (sceHttpReadData L i k w))"
    "R w (snd (px_malloc (hl_posix L) k w))"
  using assms by (simp_all add: http_frame_def)

definition cb_frame :: "('w \<Rightarrow> 'w \<Rightarrow> bool) \<Rightarrow> ('w, 'a) request_cb \<Rightarrow> bool" where
  "cb_frame R cb \<longleftrightarrow> (\<forall>a i s n ty w x w'. cb a i s n ty w = Some (x, w') \<longrightarrow> R w w')"

lemma add_headers_frame: "http_frame L R \<Longrightarrow> R w (snd (add_headers L i hs w))"
proof (induction hs arbitrary: w)
  case (Cons h hs)
  obtain n v where h: "h = (n, v)" by (cases h)
  obtain r w1 where c: "sceHttpAddRequestHeader L i n v w = (r, w1)" by fastforce
  have "R w w1" using http_frame_ops(9) [OF Cons.prems, of w i n v] c by simp
  with Cons.IH [OF Cons.prems, of w1] http_frame_trans [OF Cons.prems] h c show ?case by auto
qed (simp add: http_frame_refl)

lemma request_body_frame:
  assumes F: "http_frame L R" and cb: "cb_frame R cb"
    and r: "request_body L url data hs cb arg v i H w = Some (st, arg', H', w')"
  shows "R w w'"
proof -
  note T = http_frame_trans [OF F] and O = http_frame_ops [OF F]
  obtain r1 w1 where 1: "add_headers L i hs w = (r1, w1)" by fastforce
  obtain r2 w2 where 2: "sceHttpSendRequest L i data w1 = (r2, w2)" by fastforce
  obtain e le w3 where 3: "sceHttpGetLastErrno L i w2 = ((e, le), w3)" by (metis prod.collapse)
  obtain r4 sc w4 where 4: "sceHttpGetStatusCode L i w2 = ((r4, sc), w4)" by (metis prod.collapse)
  obtain r5 ty n w5 where 5: "sceHttpGetResponseContentLength L i w4 = ((r5, ty, n), w5)"
    by (metis prod.collapse)
  have R1: "R w w1" using add_headers_frame [OF F, of w i hs] 1 by simp
  have R2: "R w w2" using T [OF R1] O(10) [of w1 i data] 2 by simp
  have R3: "R w w3" using T [OF R2] O(11) [of w2 i] 3 by simp
  have R4: "R w w4" using T [OF R2] O(12) [of w2 i] 4 by simp
  have R5: "R w w5" using T [OF R4] O(13) [of w4 i] 5 by simp
  have C: "cb a i s n ty u = Some (x, u') \<Longrightarrow> R w u \<Longrightarrow> R w u'" for a s n ty u x u'
    using cb T unfolding cb_frame_def by blast
  show ?thesis using r R1 R2 R3 R4 R5
    by (auto simp: request_body_def 1 2 3 4 5 Let_def split: if_splits option.splits dest: C)
qed

lemma connection_body_frame:
  assumes F: "http_frame L R" and cb: "cb_frame R cb"
    and r: "connection_body L url mt data hs cb arg v i H w = Some (st, arg', H', w')"
  shows "R w w'"
proof -
  let ?n = "case data of None \<Rightarrow> 0 | Some d \<Rightarrow> length d"
  obtain q w1 where 1: "sceHttpCreateRequestWithURL L i mt url ?n w = (q, w1)" by fastforce
  have R1: "R w w1" using http_frame_ops(5) [OF F, of w i mt url ?n] 1 by simp
  show ?thesis
  proof (cases "sint q < 0")
    case True
    with r R1 1 show ?thesis by (simp add: connection_body_def)
  next
    case False
    with r 1 obtain s a H1 w2 where 2: "request_body L url data hs cb arg v q H w1 = Some (s, a, H1, w2)"
      and w': "w' = snd (sceHttpDeleteRequest L q w2)"
      by (auto simp: connection_body_def split: option.splits)
    from request_body_frame [OF F cb 2] R1 http_frame_ops(6) [OF F, of w2 q] w' show ?thesis
      using http_frame_trans [OF F] by blast
  qed
qed

lemma apply_ssl_options_frame:
  assumes F: "http_frame L R" and r: "apply_ssl_options L i url v H w = (ok, H', w')"
  shows "R w w'"
proof -
  let ?w1 = "snd (sceHttpsDisableOption L i SCE_HTTPS_FLAG_CLIENT_VERIFY w)"
  obtain q w2 where 2: "sceHttpsEnableOption L i SSL_SERVER_CHECKS ?w1 = (q, w2)" by fastforce
  have "R ?w1 w2" using http_frame_ops(7) [OF F, of ?w1 i SSL_SERVER_CHECKS] 2 by simp
  then have "R w w2" using http_frame_trans [OF F] http_frame_ops(8) [OF F] by blast
  with r http_frame_ops(8) [OF F] 2 show ?thesis
    by (cases "v = HTTP_SSL_VERIFY_OFF") (auto simp: apply_ssl_options_def split: if_splits)
qed

lemma template_body_frame:
  assumes F: "http_frame L R" and cb: "cb_frame R cb"
    and r: "template_body L url mt data hs cb arg v i H w = Some (st, arg', H', w')"
  shows "R w w'"
proof -
  note T = http_frame_trans [OF F]
  obtain ok H1 w1 where 1: "apply_ssl_options L i url v H w = (ok, H1, w1)" by (metis prod.collapse)
  obtain q w2 where 2: "sceHttpCreateConnectionWithURL L i url w1 = (q, w2)" by fastforce
  have R1: "R w w1" by (rule apply_ssl_options_frame [OF F 1])
  have R2: "R w w2" using T [OF R1] http_frame_ops(3) [OF F, of w1 i url] 2 by simp
  show ?thesis
  proof (cases "\<not> ok \<or> sint q < 0")
    case True
    with r R1 R2 1 2 show ?thesis by (auto simp: template_body_def split: if_splits)
  next
    case False
    with r 1 2 obtain s a H3 w3 where 3: "connection_body L url mt data hs cb arg v q H1 w2 = Some (s, a, H3, w3)"
      and w': "w' = snd (sceHttpDeleteConnection L q w3)"
      by (auto simp: template_body_def split: option.splits)
    from connection_body_frame [OF F cb 3] R2 http_frame_ops(4) [OF F, of w3 q] w' show ?thesis
      using T by blast
  qed
qed

lemma do_request_frame:
  assumes F: "http_frame L R" and cb: "cb_frame R cb"
    and r: "do_request L url mt data hs cb arg v H w = Some (st, arg', H', w')"
  shows "R w w'"
proof (cases url)
  case None
  with r http_frame_refl [OF F] show ?thesis by (simp add: do_request_def Let_def)
next
  case (Some u)
  let ?H = "http_clear_last_error H"
  obtain q w1 where 1: "sceHttpCreateTemplate L (s_libhttp_ctx_id ?H) w = (q, w1)" by fastforce
  have R1: "R w w1" using http_frame_ops(1) [OF F, of w "s_libhttp_ctx_id ?H"] 1 by simp
  show ?thesis
  proof (cases "sint q < 0")
    case True
    with r R1 1 Some show ?thesis by (simp add: do_request_def Let_def)
  next
    case False
    with r 1 Some obtain s a H2 w2 where
      2: "template_body L u mt data hs cb arg (resolve_ssl_verify ?H v) q ?H w1 = Some (s, a, H2, w2)"
      and w': "w' = snd (sceHttpDeleteTemplate L q w2)"
      by (auto simp: do_request_def Let_def split: option.splits)
    from template_body_frame [OF F cb 2] R1 http_frame_ops(2) [OF F, of w2 q] w' show ?thesis
      using http_frame_trans [OF F] by blast
  qed
qed

lemma xfer_loop_frame:
  assumes F: "http_frame L R"
  shows "xfer_loop L i ch cap tot acc w = Some (x, w') \<Longrightarrow> R w w'"
proof (induction "tot - length acc" arbitrary: acc w rule: less_induct)
  case less
  obtain ret bs w1 where r: "sceHttpReadData L i (min ch (tot - length acc)) w = ((ret, bs), w1)"
    by (metis prod.collapse)
  have R1: "R w w1" using http_frame_ops(14) [OF F, of w i "min ch (tot - length acc)"] r by simp
  have dec: "tot - length (acc @ bs) < tot - length acc"
    if "\<not> tot \<le> length acc" "ret \<noteq> 0" "length bs = unat ret"
    using that by (auto intro!: diff_less_mono2 simp: unat_gt_0)
  consider "tot \<le> length acc" | "\<not> tot \<le> length acc" "sint ret < 0 \<or> ret = 0"
    | "\<not> tot \<le> length acc" "\<not> sint ret < 0" "ret \<noteq> 0" by blast
  then show ?case
  proof cases
    case 1
    with less.prems http_frame_refl [OF F] show ?thesis by (subst (asm) xfer_loop.simps) simp
  next
    case 2
    with less.prems R1 show ?thesis by (subst (asm) xfer_loop.simps) (auto simp: r split: if_splits)
  next
    case 3
    with less.prems have "length bs = unat ret" "xfer_loop L i ch cap tot (acc @ bs) w1 = Some (x, w')"
      by (subst (asm) xfer_loop.simps, simp add: r split: if_splits)+
    with less.hyps [of "acc @ bs" w1] dec 3 R1 show ?thesis using http_frame_trans [OF F] by blast
  qed
qed

lemma download_file_cb_frame:
  assumes F: "http_frame L R"
  shows "cb_frame R (download_file_cb L)"
proof -
  have "R w w'" if c: "cb_transfer L a i n s w = Some (x, w')" for a i n s w x w'
  proof -
    obtain b w1 where 1: "px_malloc (hl_posix L) (unat (s + 1)) w = (b, w1)" by fastforce
    have "R w w1" using http_frame_ops(15) [OF F, of w "unat (s + 1)"] 1 by simp
    with c 1 http_frame_refl [OF F] http_frame_trans [OF F] show ?thesis
      by (auto simp: cb_transfer_def Let_def split: if_splits bool.splits option.splits prod.splits
          dest!: xfer_loop_frame [OF F])
  qed
  with http_frame_refl [OF F] show ?thesis
    by (auto simp: cb_frame_def download_file_cb_def Let_def split: if_splits)
qed

lemma http_download_file_frame:
  assumes F: "http_frame L R" and r: "http_download_file L url n off v H w = Some (x, H', w')"
  shows "R w w'"
  using r http_frame_refl [OF F]
  by (auto simp: http_download_file_def Let_def split: if_splits option.splits
      dest!: do_request_frame [OF F download_file_cb_frame [OF F]])

lemma http_get_file_size_frame:
  assumes F: "http_frame L R" and r: "http_get_file_size L url v H w = Some (x, H', w')"
  shows "R w w'"
  using r http_frame_refl [OF F]
  by (auto simp: http_get_file_size_def Let_def split: if_splits option.splits
      dest!: do_request_frame [OF F download_file_cb_frame [OF F]])

section \<open>A small server\<close>

text \<open>A concrete library for evaluating the definitions: one handle of each kind at a time, a
  fixed 14-byte body served with status 206, at most five bytes per read.  Its world is the list
  of live handles and the number of bytes read.\<close>

definition tiny_body :: string where
  "tiny_body = ''Hello, package''"

definition tiny_new :: "handle \<Rightarrow> handle list \<times> nat \<Rightarrow> cint \<times> (handle list \<times> nat)" where
  "tiny_new h w = (if h \<in> set (fst w) then (-1, w) else (1, (h # fst w, snd w)))"

definition tiny_del :: "handle \<Rightarrow> handle list \<times> nat \<Rightarrow> cint \<times> (handle list \<times> nat)" where
  "tiny_del h w = (0, (filter (\<lambda>x. x \<noteq> h) (fst w), snd w))"

definition tiny_http_posix :: "(handle list \<times> nat) posix" where
  "tiny_http_posix =
     \<lparr>px_malloc = (\<lambda>n w. (True, w)), px_open = (\<lambda>p m fl w. (-1, w)), px_fstat = (\<lambda>fd w. (None, w)),
      px_read = (\<lambda>fd n w. ((0, []), w)), px_write = (\<lambda>fd d w. (0, w)), px_close = (\<lambda>fd w. w),
      px_unlink = (\<lambda>p w. w), px_stat = (\<lambda>p w. ((-1, False), w))\<rparr>"

definition tiny_http :: "cint \<Rightarrow> (handle list \<times> nat) http_lib" where
  "tiny_http tls =
     \<lparr>hl_posix = tiny_http_posix,
      sceSslInit = (\<lambda>n w. (1, w)), sceSslTerm = (\<lambda>i w. (0, w)),
      sceHttpInit = (\<lambda>m s n w. (1, w)), sceHttpTerm = (\<lambda>i w. (0, w)),
      sceHttpCreateTemplate = (\<lambda>c w. tiny_new (Tpl 1) w),
      sceHttpDeleteTemplate = (\<lambda>i w. tiny_del (Tpl i) w),
      sceHttpsEnableOption = (\<lambda>i f w. (tls, w)), sceHttpsDisableOption = (\<lambda>i f w. (0, w)),
      sceHttpsLoadCert = (\<lambda>i d w. (0, w)), sceHttpsUnloadCert = (\<lambda>i w. (0, w)),
      sceHttpCreateConnectionWithURL = (\<lambda>i u w. tiny_new (Conn 1) w),
      sceHttpDeleteConnection = (\<lambda>i w. tiny_del (Conn i) w),
      sceHttpCreateRequestWithURL = (\<lambda>i m u n w. tiny_new (Req 1) w),
      sceHttpDeleteRequest = (\<lambda>i w. tiny_del (Req i) w),
      sceHttpAddRequestHeader = (\<lambda>i n v w. (0, w)), sceHttpSendRequest = (\<lambda>i d w. (0, w)),
      sceHttpGetLastErrno = (\<lambda>i w. ((0, 0), w)), sceHttpGetStatusCode = (\<lambda>i w. ((0, 206), w)),
      sceHttpGetResponseContentLength = (\<lambda>i w. ((0, 0, 14), w)),
      sceHttpReadData = (\<lambda>i n w. let k = min n (min 5 (length tiny_body - snd w)) in
         ((word_of_nat k, take k (drop (snd w) tiny_body)), (fst w, snd w + k))),
      sceHttpUriUnescape = (\<lambda>n s w. ((0, length s + 1, s), w)),
      sceNpUtilJsonEscape = (\<lambda>n s w. ((0, s), w)),
      ORBIS_HTTP_CONTENTLEN_EXIST = 0, ORBIS_METHOD_GET = 0, O_TRUNC = 0x400\<rparr>"

definition tiny_handles :: "handle list \<times> nat \<Rightarrow> handle set" where
  "tiny_handles w = set (fst w)"

definition tiny_rest :: "cint \<Rightarrow> handle list \<times> nat \<Rightarrow> string" where
  "tiny_rest i w = drop (snd w) tiny_body"

lemma tiny_http_handles: "http_handles (tiny_http tls) tiny_handles"
  by (auto simp: http_handles_def handles_created_def handles_deleted_def handles_kept_def
      tiny_http_def tiny_http_posix_def tiny_handles_def tiny_new_def tiny_del_def Let_def
      split: if_splits)

lemma tiny_reads_stream: "reads_stream (tiny_http tls) tiny_rest"
proof -
  have u: "unat (word_of_nat (min n (min 5 k)) :: cint) = min n (min 5 k)" for n k
    by (rule unat_u32) (simp add: min_def)
  have z: "word_of_nat (min n (min 5 k)) = (0 :: cint) \<Longrightarrow> min n (min 5 k) = 0" for n k
    using u [of n k] by simp
  show ?thesis
    unfolding reads_stream_def
    by (auto simp: tiny_http_def tiny_http_posix_def tiny_rest_def Let_def u add.commute
        dest!: z)
qed

section \<open>Properties\<close>

text \<open>C24: Whatever fails on the way, a download or a size query deletes every template,
  connection and request it created and no other: the set of live handles is unchanged.\<close>

theorem http_handles_balanced:
  assumes "http_handles L live"
  shows "(\<forall>r H' w'. http_download_file L url n off v H w = Some (r, H', w') \<longrightarrow> live w' = live w)
    \<and> (\<forall>r H' w'. http_get_file_size L url v H w = Some (r, H', w') \<longrightarrow> live w' = live w)"
  using http_download_file_live [OF assms] http_get_file_size_live [OF assms] by blast

definition ready :: http where
  "ready = http_static\<lparr>s_http_initialized := True, s_libhttp_ctx_id := 1\<rparr>"

theorem http_handles_balanced_witness:
  "case http_download_file (tiny_http 0) (Some ''https://h/p'') (Some 4) 0 (-1) ready ([], 0) of
     None \<Rightarrow> False | Some (r, H', w') \<Rightarrow> tiny_handles w' = {}"
proof -
  let ?d = "http_download_file (tiny_http 0) (Some ''https://h/p'') (Some 4) 0 (-1) ready ([], 0)"
  obtain r H' w' where d: "?d = Some (r, H', w')"
    using http_download_file_total [OF tiny_reads_stream, of 4] by fastforce
  with http_handles_balanced [OF tiny_http_handles] have "tiny_handles w' = tiny_handles ([], 0)"
    by blast
  with d show ?thesis by (simp add: tiny_handles_def)
qed

text \<open>C12: TLS fails closed.  When verification applies to a request (it was asked for, or the
  configured mode is on and was not overridden) and the server checks cannot be armed on the
  template, the request returns an error after deleting the template: no connection is
  created, nothing is sent, the callback does not run, and the error text is set.\<close>

theorem tls_fails_closed:
  assumes "resolve_ssl_verify H v \<noteq> HTTP_SSL_VERIFY_OFF"
    and "sceHttpCreateTemplate L (s_libhttp_ctx_id H) w = (tpl, w1)" and "0 \<le> sint tpl"
    and "sceHttpsEnableOption L tpl SSL_SERVER_CHECKS
           (snd (sceHttpsDisableOption L tpl SCE_HTTPS_FLAG_CLIENT_VERIFY w1)) = (ret, w2)"
    and "ret \<noteq> 0"
  shows "\<exists>H'. do_request L (Some url) m data hs cb arg v H w
      = Some (SCE_HTTP_ERROR_INVALID_VALUE, arg, H', snd (sceHttpDeleteTemplate L tpl w2))
    \<and> s_last_error H' \<noteq> []"
proof -
  have "resolve_ssl_verify (http_clear_last_error H) v \<noteq> HTTP_SSL_VERIFY_OFF"
    using assms(1) by (auto simp: resolve_ssl_verify_def http_clear_last_error_def split: if_splits)
  moreover have "s_libhttp_ctx_id (http_clear_last_error H) = s_libhttp_ctx_id H"
    by (simp add: http_clear_last_error_def)
  ultimately show ?thesis using assms(2-5)
    by (simp add: do_request_def Let_def template_body_def apply_ssl_options_def set_last_error_def
        trunc_cpy_def)
qed

theorem tls_fails_closed_witness:
  "\<exists>H'. do_request (tiny_http 7) (Some ''https://h/p'') 0 None [] (download_file_cb (tiny_http 7)) args_zero
       HTTP_SSL_VERIFY_ON ready ([], 0)
     = Some (SCE_HTTP_ERROR_INVALID_VALUE, args_zero, H', ([], 0)) \<and> s_last_error H' \<noteq> []"
  using tls_fails_closed [of ready HTTP_SSL_VERIFY_ON "tiny_http 7" "([], 0)" 1 "([Tpl 1], 0)" 7 "([Tpl 1], 0)"
      "''https://h/p''" 0 None "[]" "download_file_cb (tiny_http 7)" args_zero]
  by (simp add: resolve_ssl_verify_def ssl_mode_defs tiny_http_def tiny_new_def tiny_del_def)

text \<open>C18: The download callback returns for every response, and when it reports success the
  status was good, and 206 if a range was asked for; the data are exactly the first bytes of
  the response body, as many as were wanted or as there are, and the recorded size is their
  number.  (The transfer must not want \<open>2 ^ 64 - 1\<close> bytes, the largest 64-bit size.)\<close>

theorem download_callback_exact:
  assumes "reads_stream L body" and "d_chunk_size args = Some ch" and "0 < ch"
    and "d_data_size args \<noteq> -1 \<or> known_length L n ty \<noteq> -1"
  shows "\<exists>r args' w'. download_file_cb L args i status n ty w = Some ((r, args'), w')
     \<and> (r = 0 \<longrightarrow> is_good_status status \<and> (d_want_partial args \<longrightarrow> status = 206)
         \<and> (let k = unat (wanted_size args (known_length L n ty))
            in d_data args' = Some (take k (body i w))
               \<and> unat (d_actual_size args') = length (take k (body i w))))"
  using download_file_cb_spec [OF assms, of i status w] unfolding Let_def by metis

theorem download_callback_exact_witness:
  "\<exists>args' w'. download_file_cb (tiny_http 0)
       (args_zero\<lparr>d_data_size := 8, d_chunk_size := Some 3, d_want_partial := True\<rparr>) 1 206 14 0 ([], 6)
     = Some ((0, args'), w') \<and> d_data args' = Some '' package''"
proof -
  let ?a = "args_zero\<lparr>d_data_size := 8, d_chunk_size := Some 3, d_want_partial := True\<rparr>"
  let ?c = "download_file_cb (tiny_http 0) ?a 1 206 14 0 ([], 6)"
  have ok: "map_option (\<lambda>x. fst (fst x)) ?c = Some 0" by code_simp
  have "d_chunk_size ?a = Some 3" "d_data_size ?a = 8" by (simp_all add: args_zero_def)
  then obtain r args' w' where c: "?c = Some ((r, args'), w')"
    and d: "r = 0 \<Longrightarrow> d_data args' = Some (take (unat (wanted_size ?a (known_length (tiny_http 0) 14 0))) (tiny_rest 1 ([], 6)))"
    using download_callback_exact [OF tiny_reads_stream, of ?a 3 0 14 0 1 206 "([], 6)"]
    by (auto simp: Let_def)
  from c ok have "r = 0" by simp
  with c d show ?thesis
    by (simp add: wanted_size_def known_length_def tiny_http_def args_zero_def tiny_rest_def tiny_body_def)
qed

text \<open>C30: A download of a bounded size always returns, never writes outside its buffer, and on
  success delivers at most as many bytes as were asked for and reports their number.\<close>

theorem download_bounded:
  assumes "reads_stream L body" and "n \<noteq> -1"
  shows "\<exists>r H' w'. http_download_file L url (Some n) off v H w = Some (r, H', w')
     \<and> (\<forall>bs sz tot. r = Some (bs, sz, tot) \<longrightarrow> unat sz = length bs \<and> length bs \<le> unat n)"
  using assms by (rule http_download_file_total)

theorem download_bounded_witness:
  "http_download_file (tiny_http 0) (Some ''http://h/p'') (Some 4) 2 1 ready ([], 2) \<noteq> None"
  using download_bounded [OF tiny_reads_stream, of 4 0 "Some ''http://h/p''" 2 1 ready "([], 2)"] by auto

text \<open>C40: The buffer size is computed in 64 bits without a check.  When everything is asked for
  and the server announces \<open>2 ^ 64 - 1\<close> bytes, zero bytes are allocated and the first byte
  that arrives is written outside the buffer.\<close>

theorem download_size_wraps:
  assumes "d_data_size args = -1" and "d_chunk_size args = Some ch" and "0 \<le> sint i"
    and "is_good_status status" and "\<not> d_want_partial args"
    and "px_malloc (hl_posix L) 0 w = (True, w1)"
    and "sceHttpReadData L i (min ch (2 ^ 64 - 1)) w1 = ((ret, bs), w2)" and "0 < sint ret"
  shows "download_file_cb L args i status (-1) (ORBIS_HTTP_CONTENTLEN_EXIST L) w = None"
proof -
  have "ret \<noteq> 0" using assms(8) by auto
  then have "0 < unat ret" by (simp add: unat_gt_0)
  then have "xfer_loop L i ch 0 (2 ^ 64 - 1) [] w1 = None"
    using assms(7,8) \<open>ret \<noteq> 0\<close> by (subst xfer_loop.simps) auto
  moreover have "unat (-1 :: u64) = 2 ^ 64 - 1"
    by (simp add: unsigned_minus_1_eq_mask mask_eq_exp_minus_1)
  ultimately show ?thesis using assms(1-6)
    by (simp add: download_file_cb_def cb_transfer_def known_length_def wanted_size_def Let_def)
qed

theorem download_size_wraps_witness:
  "download_file_cb (tiny_http 0) (args_zero\<lparr>d_data_size := -1, d_chunk_size := Some 16\<rparr>) 1 200 (-1) 0 ([], 0)
     = None"
proof -
  let ?args = "args_zero\<lparr>d_data_size := -1, d_chunk_size := Some 16\<rparr>"
  have a: "d_data_size ?args = -1" "d_chunk_size ?args = Some 16" "\<not> d_want_partial ?args"
    by (simp_all add: args_zero_def)
  have m: "px_malloc (hl_posix (tiny_http 0)) 0 ([], 0) = (True, ([], 0))"
    by (simp add: tiny_http_def tiny_http_posix_def)
  have r: "sceHttpReadData (tiny_http 0) 1 (min 16 (2 ^ 64 - 1)) ([], 0) = ((5, ''Hello''), ([], 5))"
    by (simp add: tiny_http_def tiny_body_def Let_def)
  have e: "ORBIS_HTTP_CONTENTLEN_EXIST (tiny_http 0) = 0" by (simp add: tiny_http_def)
  have p: "0 \<le> sint (1 :: cint)" "is_good_status 200" "0 < sint (5 :: cint)"
    by (simp_all add: is_good_status_def)
  show ?thesis
    using download_size_wraps [OF a(1,2) p(1,2) a(3) m r p(3)] by (simp add: e)
qed

end
