(* ===== verification/Sfo.thy ===== *)
theory Sfo
  imports Util
begin

text \<open>
  Model of sfo.c, the reader of \<open>param.sfo\<close>.  A file image is the list of its bytes.  Fields are
  loaded little-endian at the offsets the packed structs give them.  The header offsets are not
  checked against the size of the image by the code, so the loads through them are checked here:
  \<open>None\<close> is a read outside the image.  The doubly linked list of entries is the list of its
  elements in order (\<open>DL_APPEND\<close> adds at the end, \<open>DL_FOREACH\<close> walks from the front).
\<close>

definition SFO_MAGIC :: "char list" where
  "SFO_MAGIC = [NUL, CHR ''P'', CHR ''S'', CHR ''F'']"

definition SIZEOF_SFO_HEADER :: nat where
  "SIZEOF_SFO_HEADER = 0x14"

definition SIZEOF_SFO_TABLE_ENTRY :: nat where
  "SIZEOF_SFO_TABLE_ENTRY = 0x10"

definition SFO_FORMAT_STRING :: u16 where
  "SFO_FORMAT_STRING = 0x204"

record sfo_entry =
  e_key :: string
  e_size :: nat
  e_area :: nat
  e_value :: "char list"
  e_format :: u16

record sfo =
  sfo_entries :: "sfo_entry list"

text \<open>\<open>sfo_alloc\<close> returns a zeroed object when memory is available.\<close>

definition sfo_alloc :: "'w posix \<Rightarrow> 'w \<Rightarrow> sfo option \<times> 'w" where
  "sfo_alloc P w =
     (case px_malloc P 8 w of (ok, w) \<Rightarrow> (if ok then Some \<lparr>sfo_entries = []\<rparr> else None, w))"

section \<open>Loads\<close>

definition ld16 :: "char list \<Rightarrow> nat \<Rightarrow> u16 option" where
  "ld16 m i = (if i + 2 \<le> length m then Some (le_word (take 2 (drop i m))) else None)"

definition ld32 :: "char list \<Rightarrow> nat \<Rightarrow> u32 option" where
  "ld32 m i = (if i + 4 \<le> length m then Some (le_word (take 4 (drop i m))) else None)"

definition ld_bytes :: "char list \<Rightarrow> nat \<Rightarrow> nat \<Rightarrow> char list option" where
  "ld_bytes m i n = (if n = 0 then Some [] else if i + n \<le> length m then Some (take n (drop i m)) else None)"

section \<open>Loading\<close>

text \<open>The outcome of a load: the entries now owned by the object, or failure with the entries
  that were already linked into the local list and are not released.\<close>

datatype load_result = Loaded "sfo_entry list" | Failed "sfo_entry list"

definition sfo_load_entry ::
    "'w posix \<Rightarrow> char list \<Rightarrow> nat \<Rightarrow> nat \<Rightarrow> nat \<Rightarrow> 'w \<Rightarrow> (sfo_entry option \<times> 'w) option" where
  "sfo_load_entry P data key_table value_table i w =
     (let entry = SIZEOF_SFO_HEADER + i * SIZEOF_SFO_TABLE_ENTRY in
      case px_malloc P 56 w of
        (False, w) \<Rightarrow> Some (None, w)
      | (True, w) \<Rightarrow> do {
          key_offset \<leftarrow> ld16 data (entry + 0x00);
          format \<leftarrow> ld16 data (entry + 0x02);
          sz \<leftarrow> ld32 data (entry + 0x04);
          area \<leftarrow> ld32 data (entry + 0x08);
          value_offset \<leftarrow> ld32 data (entry + 0x0C);
          if area < sz then Some (None, w)
          else do {
            key \<leftarrow> cstr_at data (key_table + unat key_offset);
            case px_malloc P (length key + 1) w of
              (False, w) \<Rightarrow> Some (None, w)
            | (True, w) \<Rightarrow>
                (case px_malloc P (unat area) w of
                   (False, w) \<Rightarrow> Some (None, w)
                 | (True, w) \<Rightarrow> do {
                     bytes \<leftarrow> ld_bytes data (value_table + unat value_offset) (unat sz);
                     Some (Some \<lparr>e_key = key, e_size = unat sz, e_area = unat area,
                                 e_value = bytes @ replicate (unat area - unat sz) NUL,
                                 e_format = format\<rparr>, w)
                   })
          }
        })"

text \<open>The loop over the table: \<open>i\<close> entries are done, the last argument counts the rest.\<close>

fun sfo_load_loop ::
    "'w posix \<Rightarrow> char list \<Rightarrow> nat \<Rightarrow> nat \<Rightarrow> sfo_entry list \<Rightarrow> nat \<Rightarrow> nat \<Rightarrow> 'w
      \<Rightarrow> (load_result \<times> 'w) option" where
  "sfo_load_loop P data kt vt entries i 0 w = Some (Loaded entries, w)"
| "sfo_load_loop P data kt vt entries i (Suc n) w =
     (case sfo_load_entry P data kt vt i w of
        None \<Rightarrow> None
      | Some (None, w) \<Rightarrow> Some (Failed entries, w)
      | Some (Some e, w) \<Rightarrow> sfo_load_loop P data kt vt (entries @ [e]) (Suc i) n w)"

definition sfo_load_from_memory ::
    "'w posix \<Rightarrow> char list \<Rightarrow> 'w \<Rightarrow> (load_result \<times> 'w) option" where
  "sfo_load_from_memory P data w =
     (if length data < SIZEOF_SFO_HEADER then Some (Failed [], w)
      else if take 4 data \<noteq> SFO_MAGIC then Some (Failed [], w)
      else do {
        entry_count \<leftarrow> ld32 data 0x10;
        if length data < SIZEOF_SFO_HEADER + unat entry_count * SIZEOF_SFO_TABLE_ENTRY
        then Some (Failed [], w)
        else do {
          key_table \<leftarrow> ld32 data 0x08;
          value_table \<leftarrow> ld32 data 0x0C;
          sfo_load_loop P data (unat key_table) (unat value_table) [] 0 (unat entry_count) w
        }
      })"

text \<open>The file is read with one \<open>read\<close>: a short one is a failure.\<close>

definition sfo_load_from_file ::
    "'w posix \<Rightarrow> string \<Rightarrow> 'w \<Rightarrow> (load_result \<times> 'w) option" where
  "sfo_load_from_file P path w =
     (case px_open P path None 0 w of (fd, w) \<Rightarrow>
      if sint fd < 0 then Some (Failed [], w)
      else case px_fstat P fd w of
        (None, w) \<Rightarrow> Some (Failed [], px_close P fd w)
      | (Some data_size, w) \<Rightarrow>
          (case px_malloc P data_size w of
             (False, w) \<Rightarrow> Some (Failed [], px_close P fd w)
           | (True, w) \<Rightarrow>
               (case px_read P fd data_size w of ((nread, data), w) \<Rightarrow>
                if nread < 0 \<or> nread \<noteq> int data_size then Some (Failed [], px_close P fd w)
                else if length data \<noteq> data_size then None
                else case sfo_load_from_memory P data w of
                  None \<Rightarrow> None
                | Some (r, w) \<Rightarrow> Some (r, px_close P fd w))))"

fun sfo_find_in :: "sfo_entry list \<Rightarrow> string \<Rightarrow> sfo_entry option" where
  "sfo_find_in [] key = None"
| "sfo_find_in (e # es) key = (if e_key e = key then Some e else sfo_find_in es key)"

definition sfo_find_entry :: "sfo \<Rightarrow> string \<Rightarrow> sfo_entry option" where
  "sfo_find_entry s key = sfo_find_in (sfo_entries s) key"

section \<open>Writing an image\<close>

text \<open>The file format, as a serialiser: header, table, keys, values.\<close>

fun le_bytes :: "nat \<Rightarrow> nat \<Rightarrow> char list" where
  "le_bytes 0 n = []"
| "le_bytes (Suc k) n = char_of (n mod 256) # le_bytes k (n div 256)"

fun sfo_rows :: "nat \<Rightarrow> nat \<Rightarrow> sfo_entry list \<Rightarrow> char list" where
  "sfo_rows ko vo [] = []"
| "sfo_rows ko vo (e # es) =
     le_bytes 2 ko @ le_bytes 2 (unat (e_format e)) @ le_bytes 4 (e_size e) @ le_bytes 4 (e_area e)
       @ le_bytes 4 vo @ sfo_rows (ko + length (e_key e) + 1) (vo + e_area e) es"

definition sfo_keys :: "sfo_entry list \<Rightarrow> char list" where
  "sfo_keys es = concat (map (\<lambda>e. e_key e @ [NUL]) es)"

definition sfo_values :: "sfo_entry list \<Rightarrow> char list" where
  "sfo_values es = concat (map e_value es)"

definition sfo_image :: "sfo_entry list \<Rightarrow> char list" where
  "sfo_image es =
     (let kt = 0x14 + 0x10 * length es; vt = kt + length (sfo_keys es)
      in SFO_MAGIC @ le_bytes 4 0x101 @ le_bytes 4 kt @ le_bytes 4 vt @ le_bytes 4 (length es)
         @ sfo_rows 0 0 es @ sfo_keys es @ sfo_values es)"

text \<open>What an entry must satisfy to be representable.\<close>

definition sfo_entry_wf :: "sfo_entry \<Rightarrow> bool" where
  "sfo_entry_wf e \<longleftrightarrow> cstring (e_key e) \<and> e_size e \<le> e_area e \<and> length (e_value e) = e_area e
     \<and> drop (e_size e) (e_value e) = replicate (e_area e - e_size e) NUL"

lemma length_le_bytes [simp]: "length (le_bytes k n) = k"
  by (induction k arbitrary: n) auto

lemma le_bytes_nth: "i < k \<Longrightarrow> le_bytes k n ! i = char_of (n div 256 ^ i)"
proof (induction k arbitrary: n i)
  case (Suc k)
  then show ?case by (cases i) (auto simp: div_mult2_eq)
qed simp

lemma of_char_char_of_bit: "bit (of_char (char_of (m::nat)) :: nat) j \<longleftrightarrow> j < 8 \<and> bit m j"
proof -
  have "(of_char (char_of m) :: nat) = take_bit 8 m" by (simp add: take_bit_eq_mod)
  then show ?thesis by (simp only: bit_take_bit_iff)
qed

lemma le_word_le_bytes:
  assumes "LENGTH('a::len) \<le> 8 * k"
  shows "(le_word (le_bytes k n) :: 'a word) = word_of_nat n"
proof (rule bit_word_eqI)
  fix j assume j: "j < LENGTH('a)"
  with assms have "j div 8 < k" by (simp add: less_mult_imp_div_less mult.commute)
  then have "bit (of_char (le_bytes k n ! (j div 8)) :: nat) (j mod 8)
      \<longleftrightarrow> bit (n div 256 ^ (j div 8)) (j mod 8)"
    by (simp only: le_bytes_nth of_char_char_of_bit) simp
  also have "(256::nat) ^ (j div 8) = 2 ^ (8 * (j div 8))" by (simp add: power_mult)
  also have "bit (n div 2 ^ (8 * (j div 8))) (j mod 8) \<longleftrightarrow> bit n j"
    by (simp add: bit_iff_odd flip: div_mult2_eq power_add)
  finally show "bit (le_word (le_bytes k n) :: 'a word) j = bit (word_of_nat n :: 'a word) j"
    using j assms by (simp add: bit_le_word bit_of_nat_iff)
qed

section \<open>Loading a written image\<close>

lemma ld16_le_bytes:
  assumes "drop i m = le_bytes 2 n @ rest"
  shows "ld16 m i = Some (word_of_nat n)"
proof -
  have "length m - i = 2 + length rest" using arg_cong [OF assms, of length] by simp
  then have "i + 2 \<le> length m" by linarith
  then show ?thesis by (simp add: ld16_def assms le_word_le_bytes)
qed

lemma ld32_le_bytes:
  assumes "drop i m = le_bytes 4 n @ rest"
  shows "ld32 m i = Some (word_of_nat n)"
proof -
  have "length m - i = 4 + length rest" using arg_cong [OF assms, of length] by simp
  then have "i + 4 \<le> length m" by linarith
  then show ?thesis by (simp add: ld32_def assms le_word_le_bytes)
qed

lemma drop_through: "drop i m = xs @ rest \<Longrightarrow> k = i + length xs \<Longrightarrow> drop k m = rest"
  by (metis add.commute append_eq_conv_conj drop_drop)

lemma cstr_at_drop: "drop i m = s @ NUL # rest \<Longrightarrow> cstring s \<Longrightarrow> cstr_at m i = Some s"
  using cstr_at_append [of s "[]" rest] by (simp add: cstr_at_def)

lemma ld_bytes_drop: "drop i m = xs @ rest \<Longrightarrow> n \<le> length xs \<Longrightarrow> ld_bytes m i n = Some (take n xs)"
proof -
  assume d: "drop i m = xs @ rest" and n: "n \<le> length xs"
  from d have "length m - i = length xs + length rest" by (metis length_append length_drop)
  with d n show ?thesis by (auto simp: ld_bytes_def)
qed

definition always_allocates :: "'w posix \<Rightarrow> bool" where
  "always_allocates P \<longleftrightarrow> (\<forall>n w. fst (px_malloc P n w))"

lemma always_allocatesE:
  assumes "always_allocates P"
  obtains w' where "px_malloc P n w = (True, w')"
  using assms unfolding always_allocates_def by (metis prod.collapse)

lemma sfo_load_entry_row:
  assumes mem: "always_allocates P" and wf: "sfo_entry_wf e"
    and row: "drop (SIZEOF_SFO_HEADER + i * SIZEOF_SFO_TABLE_ENTRY) data = sfo_rows ko vo (e # es) @ rest"
    and key: "drop (kt + ko) data = (e_key e @ [NUL]) @ krest"
    and val: "drop (vt + vo) data = e_value e @ vrest"
    and bnd: "ko < 0x10000" "vo < 0x100000000" "e_area e < 0x100000000"
  shows "\<exists>w'. sfo_load_entry P data kt vt i w = Some (Some e, w')"
proof -
  let ?b = "SIZEOF_SFO_HEADER + i * SIZEOF_SFO_TABLE_ENTRY"
  obtain r1 where r1: "drop ?b data = le_bytes 2 ko @ r1"
    and r1': "r1 = le_bytes 2 (unat (e_format e)) @ le_bytes 4 (e_size e) @ le_bytes 4 (e_area e)
       @ le_bytes 4 vo @ sfo_rows (ko + length (e_key e) + 1) (vo + e_area e) es @ rest"
    using row by simp
  have d2: "drop (?b + 2) data = r1" by (rule drop_through [OF r1]) simp
  note d2' = d2 [unfolded r1']
  have d4: "drop (?b + 4) data = le_bytes 4 (e_size e) @ le_bytes 4 (e_area e)
       @ le_bytes 4 vo @ sfo_rows (ko + length (e_key e) + 1) (vo + e_area e) es @ rest"
    by (rule drop_through [OF d2']) simp
  have d8: "drop (?b + 8) data = le_bytes 4 (e_area e)
       @ le_bytes 4 vo @ sfo_rows (ko + length (e_key e) + 1) (vo + e_area e) es @ rest"
    by (rule drop_through [OF d4]) simp
  have d12: "drop (?b + 12) data =
       le_bytes 4 vo @ sfo_rows (ko + length (e_key e) + 1) (vo + e_area e) es @ rest"
    by (rule drop_through [OF d8]) simp
  note lds = ld16_le_bytes [OF r1] ld16_le_bytes [OF d2'] ld32_le_bytes [OF d4]
    ld32_le_bytes [OF d8] ld32_le_bytes [OF d12]
  have sz: "e_size e \<le> e_area e" "length (e_value e) = e_area e" "cstring (e_key e)"
    "drop (e_size e) (e_value e) = replicate (e_area e - e_size e) NUL"
    using wf by (auto simp: sfo_entry_wf_def)
  have s32: "e_size e < 0x100000000" using sz(1) bnd(3) by linarith
  note u = unat_u16 [OF bnd(1)] unat_u32 [OF bnd(2)] unat_u32 [OF bnd(3)] unat_u32 [OF s32]
  have k: "cstr_at data (kt + ko) = Some (e_key e)"
    using key sz(3) by (intro cstr_at_drop) auto
  have v: "ld_bytes data (vt + vo) (e_size e) = Some (take (e_size e) (e_value e))"
    using val sz by (intro ld_bytes_drop) auto
  have nl: "\<not> (word_of_nat (e_area e) :: u32) < word_of_nat (e_size e)"
    using sz(1) u by (simp add: word_less_nat_alt)
  have e: "\<lparr>e_key = e_key e, e_size = e_size e, e_area = e_area e,
      e_value = take (e_size e) (e_value e) @ replicate (e_area e - e_size e) NUL,
      e_format = e_format e\<rparr> = e"
    using sz(4) append_take_drop_id [of "e_size e" "e_value e"] by simp
  obtain w1 where w1: "px_malloc P 56 w = (True, w1)" using always_allocatesE [OF mem] .
  obtain w2 where w2: "px_malloc P (length (e_key e) + 1) w1 = (True, w2)"
    using always_allocatesE [OF mem] .
  obtain w3 where w3: "px_malloc P (e_area e) w2 = (True, w3)" using always_allocatesE [OF mem] .
  show ?thesis
    unfolding sfo_load_entry_def Let_def
    using lds k v nl w1 w2 w3 u e by (simp add: add.commute del: Suc_eq_plus1)
qed

lemma length_sfo_rows [simp]: "length (sfo_rows ko vo es) = 0x10 * length es"
  by (induction ko vo es rule: sfo_rows.induct) auto

lemma sfo_load_loop_rows:
  assumes mem: "always_allocates P" and wf: "\<forall>e \<in> set es. sfo_entry_wf e"
    and row: "drop (SIZEOF_SFO_HEADER + i * SIZEOF_SFO_TABLE_ENTRY) data = sfo_rows ko vo es @ rest"
    and key: "drop (kt + ko) data = sfo_keys es @ krest"
    and val: "drop (vt + vo) data = sfo_values es @ vrest"
    and bnd: "ko + length (sfo_keys es) < 0x10000" "vo + length (sfo_values es) < 0x100000000"
  shows "\<exists>w'. sfo_load_loop P data kt vt acc i (length es) w = Some (Loaded (acc @ es), w')"
  using wf row key val bnd
proof (induction es arbitrary: acc i ko vo w)
  case Nil
  then show ?case by simp
next
  case (Cons e es)
  have area: "length (e_value e) = e_area e"
    using Cons.prems(1) by (simp add: sfo_entry_wf_def)
  have k: "drop (kt + ko) data = (e_key e @ [NUL]) @ sfo_keys es @ krest"
    using Cons.prems(3) by (simp add: sfo_keys_def)
  have v: "drop (vt + vo) data = e_value e @ sfo_values es @ vrest"
    using Cons.prems(4) by (simp add: sfo_values_def)
  have b: "ko < 0x10000" "vo < 0x100000000" "e_area e < 0x100000000"
    using Cons.prems(5,6) area by (simp_all add: sfo_values_def)
  from sfo_load_entry_row [OF mem _ Cons.prems(2) k v b] Cons.prems(1)
  obtain w1 where e: "sfo_load_entry P data kt vt i w = Some (Some e, w1)" by fastforce
  let ?ko = "ko + length (e_key e) + 1" and ?vo = "vo + e_area e"
  have "\<exists>w'. sfo_load_loop P data kt vt (acc @ [e]) (Suc i) (length es) w1
      = Some (Loaded ((acc @ [e]) @ es), w')"
  proof (rule Cons.IH)
    show "\<forall>e \<in> set es. sfo_entry_wf e" using Cons.prems(1) by simp
    have "drop (SIZEOF_SFO_HEADER + i * SIZEOF_SFO_TABLE_ENTRY) data
        = (le_bytes 2 ko @ le_bytes 2 (unat (e_format e)) @ le_bytes 4 (e_size e)
             @ le_bytes 4 (e_area e) @ le_bytes 4 vo) @ sfo_rows ?ko ?vo es @ rest"
      using Cons.prems(2) by simp
    from drop_through [OF this refl]
    show "drop (SIZEOF_SFO_HEADER + Suc i * SIZEOF_SFO_TABLE_ENTRY) data
        = sfo_rows ?ko ?vo es @ rest"
      by (simp add: SIZEOF_SFO_TABLE_ENTRY_def add.commute add.left_commute)
    show "drop (kt + ?ko) data = sfo_keys es @ krest"
      by (rule drop_through [OF k]) simp
    show "drop (vt + ?vo) data = sfo_values es @ vrest"
      by (rule drop_through [OF v]) (simp add: area)
    show "?ko + length (sfo_keys es) < 0x10000"
      using Cons.prems(5) by (simp add: sfo_keys_def)
    show "?vo + length (sfo_values es) < 0x100000000"
      using Cons.prems(6) area by (simp add: sfo_values_def)
  qed
  with e show ?case by simp
qed

lemma sfo_load_image:
  assumes mem: "always_allocates P" and wf: "\<forall>e \<in> set es. sfo_entry_wf e"
    and bnd: "length (sfo_keys es) < 0x10000" "length (sfo_image es) < 0x100000000"
  shows "\<exists>w'. sfo_load_from_memory P (sfo_image es) w = Some (Loaded es, w')"
proof -
  let ?kt = "0x14 + 0x10 * length es" and ?vt = "0x14 + 0x10 * length es + length (sfo_keys es)"
  let ?m = "sfo_image es"
  have img: "?m = SFO_MAGIC @ le_bytes 4 0x101 @ le_bytes 4 ?kt @ le_bytes 4 ?vt
      @ le_bytes 4 (length es) @ sfo_rows 0 0 es @ sfo_keys es @ sfo_values es"
    by (simp add: sfo_image_def Let_def)
  have lm: "length SFO_MAGIC = 4" by (simp add: SFO_MAGIC_def)
  have len: "length ?m = ?vt + length (sfo_values es)" unfolding img by (simp add: lm)
  have d8: "drop 8 ?m = le_bytes 4 ?kt @ le_bytes 4 ?vt
      @ le_bytes 4 (length es) @ sfo_rows 0 0 es @ sfo_keys es @ sfo_values es"
    unfolding img by (simp add: lm)
  have d12: "drop 12 ?m = le_bytes 4 ?vt
      @ le_bytes 4 (length es) @ sfo_rows 0 0 es @ sfo_keys es @ sfo_values es"
    by (rule drop_through [OF d8]) simp
  have d16: "drop 16 ?m = le_bytes 4 (length es) @ sfo_rows 0 0 es @ sfo_keys es @ sfo_values es"
    by (rule drop_through [OF d12]) simp
  have d20: "drop 20 ?m = sfo_rows 0 0 es @ sfo_keys es @ sfo_values es"
    by (rule drop_through [OF d16]) simp
  have dk: "drop ?kt ?m = sfo_keys es @ sfo_values es"
    by (rule drop_through [OF d20]) simp
  have dv: "drop ?vt ?m = sfo_values es @ []"
    using drop_through [OF dk, of ?vt] by simp
  have u: "unat (word_of_nat (length es) :: u32) = length es" "unat (word_of_nat ?kt :: u32) = ?kt"
    "unat (word_of_nat ?vt :: u32) = ?vt"
    using bnd(2) unfolding len by (intro unat_u32; linarith)+
  obtain w' where "sfo_load_loop P ?m ?kt ?vt [] 0 (length es) w = Some (Loaded ([] @ es), w')"
    using sfo_load_loop_rows [OF mem wf, of 0 ?m 0 0 "sfo_keys es @ sfo_values es" ?kt
      "sfo_values es" ?vt "[]" "[]" w] d20 dk dv bnd len
    by (auto simp: SIZEOF_SFO_HEADER_def)
  moreover have "take 4 ?m = SFO_MAGIC" unfolding img by (simp add: lm)
  ultimately show ?thesis
    using ld32_le_bytes [OF d8] ld32_le_bytes [OF d12] ld32_le_bytes [OF d16] u
    by (simp add: sfo_load_from_memory_def SIZEOF_SFO_HEADER_def SIZEOF_SFO_TABLE_ENTRY_def len
        del: of_nat_add of_nat_Suc of_nat_mult)
qed

lemma sfo_find_in_map_of:
  "sfo_find_in es key = map_of (map (\<lambda>e. (e_key e, e)) es) key"
  by (induction es) auto

lemma cstr_at_beyond: "length m \<le> i \<Longrightarrow> cstr_at m i = None"
  by (simp add: cstr_at_def)

lemma ld_in: "i + 4 \<le> length m \<Longrightarrow> ld32 m i \<noteq> None" "i + 2 \<le> length m \<Longrightarrow> ld16 m i \<noteq> None"
  by (simp_all add: ld32_def ld16_def)

lemma sfo_load_entry_overrun:
  assumes mem: "always_allocates P" and row: "0x24 \<le> length data" and kt: "length data \<le> kt"
    and sz: "ld32 data 0x18 = Some sz" "ld32 data 0x1C = Some area" "\<not> area < sz"
  shows "sfo_load_entry P data kt vt 0 w = None"
proof -
  obtain w1 where w1: "px_malloc P 56 w = (True, w1)" using always_allocatesE [OF mem] .
  obtain a b c where "ld16 data 0x14 = Some a" "ld16 data 0x16 = Some b" "ld32 data 0x20 = Some c"
    using ld_in [of _ data] row by fastforce
  moreover have "cstr_at data (kt + k) = None" for k using kt by (simp add: cstr_at_beyond)
  ultimately show ?thesis
    using sz w1 by (simp add: sfo_load_entry_def Let_def SIZEOF_SFO_HEADER_def)
qed

section \<open>Properties\<close>

text \<open>C16: Loading the serialised image of any list of representable entries gives back exactly
  these entries, in order, without reading outside the image, when the allocations succeed and
  the tables fit their offset fields.\<close>

theorem sfo_image_roundtrip:
  assumes "always_allocates P" and "\<forall>e \<in> set es. sfo_entry_wf e"
    and "length (sfo_keys es) < 0x10000" and "length (sfo_image es) < 0x100000000"
  shows "\<exists>w'. sfo_load_from_memory P (sfo_image es) w = Some (Loaded es, w')"
  using assms by (rule sfo_load_image)

definition sfo_sample :: "sfo_entry list" where
  "sfo_sample =
     [\<lparr>e_key = ''APP_TYPE'', e_size = 4, e_area = 4, e_value = [CHR 0x01, NUL, NUL, NUL],
       e_format = 0x404\<rparr>,
      \<lparr>e_key = ''TITLE'', e_size = 5, e_area = 8, e_value = ''Game'' @ [NUL, NUL, NUL, NUL],
       e_format = 0x204\<rparr>]"

theorem sfo_image_roundtrip_witness:
  "\<exists>w'. sfo_load_from_memory tiny_posix (sfo_image sfo_sample) [] = Some (Loaded sfo_sample, w')"
proof (rule sfo_image_roundtrip)
  show "always_allocates tiny_posix" by (simp add: always_allocates_def tiny_posix_def)
  show "\<forall>e \<in> set sfo_sample. sfo_entry_wf e"
    by (simp add: sfo_sample_def sfo_entry_wf_def cstring_def eval_nat_numeral)
qed (simp_all add: sfo_sample_def sfo_keys_def sfo_values_def sfo_image_def SFO_MAGIC_def)

text \<open>C39: The loader does not check the table offsets of the header.  Any image that passes its
  checks, announces at least one entry with \<open>size \<le> area\<close>, and whose key table offset lies at or
  beyond the end of the image makes it read outside the buffer.\<close>

theorem sfo_key_table_unchecked:
  assumes "always_allocates P" and "take 4 data = SFO_MAGIC"
    and "ld32 data 0x10 = Some n" and "0 < unat n" and "0x14 + unat n * 0x10 \<le> length data"
    and "ld32 data 0x08 = Some kt" and "length data \<le> unat kt"
    and "ld32 data 0x18 = Some sz" and "ld32 data 0x1C = Some area" and "sz \<le> area"
  shows "sfo_load_from_memory P data w = None"
proof -
  have len: "0x24 \<le> length data" using assms(4,5) by linarith
  then obtain vt where vt: "ld32 data 0x0C = Some vt" using ld_in(1) [of 12 data] by auto
  have "sfo_load_entry P data (unat kt) (unat vt) 0 w = None"
    using sfo_load_entry_overrun [OF assms(1) len assms(7-9)] assms(10) by simp
  moreover obtain k where "unat n = Suc k" using assms(4) by (cases "unat n") auto
  ultimately show ?thesis using assms len vt
    by (simp add: sfo_load_from_memory_def SIZEOF_SFO_HEADER_def SIZEOF_SFO_TABLE_ENTRY_def)
qed

definition sfo_overrun :: "char list" where
  "sfo_overrun = SFO_MAGIC @ le_bytes 4 0x101 @ le_bytes 4 0x1000 @ le_bytes 4 0x1000 @ le_bytes 4 1
     @ replicate 16 NUL"

theorem sfo_key_table_unchecked_witness:
  "sfo_load_from_memory tiny_posix sfo_overrun [] = None"
proof -
  have m: "length SFO_MAGIC = 4" by (simp add: SFO_MAGIC_def)
  have d8: "drop 8 sfo_overrun = le_bytes 4 0x1000 @ le_bytes 4 0x1000 @ le_bytes 4 1
      @ replicate 16 NUL" by (simp add: sfo_overrun_def m)
  have d16: "drop 16 sfo_overrun = le_bytes 4 1 @ replicate 16 NUL"
    by (simp add: sfo_overrun_def m)
  have z: "replicate k NUL = le_bytes 4 0 @ replicate (k - 4) NUL" if "4 \<le> k" for k
    using that by (intro nth_equalityI) (auto simp: nth_append le_bytes_nth char_of_def)
  have d24: "drop 24 sfo_overrun = le_bytes 4 0 @ replicate 8 NUL"
    and d28: "drop 28 sfo_overrun = le_bytes 4 0 @ replicate 4 NUL"
    using z [of 12] z [of 8] by (simp_all add: sfo_overrun_def m)
  show ?thesis
    by (rule sfo_key_table_unchecked
          [OF _ _ ld32_le_bytes [OF d16] _ _ ld32_le_bytes [OF d8] _ ld32_le_bytes [OF d24]
             ld32_le_bytes [OF d28]])
       (simp_all add: always_allocates_def tiny_posix_def sfo_overrun_def m)
qed

end
