(* ===== verification/Pkg.thy ===== *)
theory Pkg
  imports Http Sfo
begin

text \<open>
  Model of pkg.c: content identifiers, the package header and entry table, the reference package
  document and the files an installation needs.  A package image is a list of bytes; the fields
  of the packed structs are read big-endian at the offsets pkg.h gives them.
\<close>

definition PKG_TITLE_ID_SIZE :: nat where "PKG_TITLE_ID_SIZE = 0x9"
definition PKG_SERVICE_ID_SIZE :: nat where "PKG_SERVICE_ID_SIZE = 0x13"
definition PKG_CONTENT_ID_SIZE :: nat where "PKG_CONTENT_ID_SIZE = 0x24"
definition PKG_LABEL_SIZE :: nat where "PKG_LABEL_SIZE = 0x10"
definition PKG_DIGEST_SIZE :: nat where "PKG_DIGEST_SIZE = 0x20"
definition PKG_MINI_DIGEST_SIZE :: nat where "PKG_MINI_DIGEST_SIZE = 0x14"

lemmas pkg_size_defs = PKG_TITLE_ID_SIZE_def PKG_SERVICE_ID_SIZE_def PKG_CONTENT_ID_SIZE_def
  PKG_LABEL_SIZE_def PKG_DIGEST_SIZE_def PKG_MINI_DIGEST_SIZE_def

section \<open>Content identifiers\<close>

record pkg_content_info =
  ci_content_id :: string
  ci_service_id :: string
  ci_title_id :: string
  ci_label :: string

definition pkg_parse_content_id :: "string option \<Rightarrow> pkg_content_info option" where
  "pkg_parse_content_id content_id =
     (case content_id of None \<Rightarrow> None
      | Some c \<Rightarrow>
          if length c \<noteq> PKG_CONTENT_ID_SIZE then None
          else case strchr c CHR ''-'' of
            None \<Rightarrow> None
          | Some i \<Rightarrow>
              let p1 = i + 1 in
              (case strchr (drop p1 c) CHR ''-'' of
                 None \<Rightarrow> None
               | Some j \<Rightarrow>
                   if p1 + j \<noteq> PKG_SERVICE_ID_SIZE then None
                   else
                     let service_id = trunc_cpy (PKG_SERVICE_ID_SIZE + 1) c in
                     if length service_id \<noteq> PKG_SERVICE_ID_SIZE then None
                     else if strchr (drop p1 c) CHR ''_'' = None then None
                     else
                       let title_id = trunc_cpy (PKG_TITLE_ID_SIZE + 1) (drop p1 c) in
                       if length title_id \<noteq> PKG_TITLE_ID_SIZE then None
                       else case strrchr c CHR ''-'' of
                         None \<Rightarrow> None
                       | Some k \<Rightarrow>
                           let label = trunc_cpy (PKG_LABEL_SIZE + 1) (drop (k + 1) c) in
                           if length label \<noteq> PKG_LABEL_SIZE then None
                           else Some \<lparr>ci_content_id = trunc_cpy (PKG_CONTENT_ID_SIZE + 1) c,
                                      ci_service_id = service_id, ci_title_id = title_id,
                                      ci_label = label\<rparr>))"

section \<open>Header and entry table\<close>

definition SIZEOF_PKG_HEADER :: nat where "SIZEOF_PKG_HEADER = 0x2000"
definition SIZEOF_PKG_TABLE_ENTRY :: nat where "SIZEOF_PKG_TABLE_ENTRY = 0x20"

definition PKG_ENTRY_ID__PARAM_SFO :: u32 where "PKG_ENTRY_ID__PARAM_SFO = 0x1000"
definition PKG_ENTRY_ID__ICON0_PNG :: u32 where "PKG_ENTRY_ID__ICON0_PNG = 0x1200"

text \<open>The four content types an installation knows.\<close>

definition PKG_CONTENT_TYPE_GD :: u32 where "PKG_CONTENT_TYPE_GD = 0x1A"
definition PKG_CONTENT_TYPE_AC :: u32 where "PKG_CONTENT_TYPE_AC = 0x1B"
definition PKG_CONTENT_TYPE_AL :: u32 where "PKG_CONTENT_TYPE_AL = 0x1C"
definition PKG_CONTENT_TYPE_DP :: u32 where "PKG_CONTENT_TYPE_DP = 0x1E"

definition be32_at :: "char list \<Rightarrow> nat \<Rightarrow> u32" where
  "be32_at m off = BE32 (le_word (take 4 (drop off m)))"

definition be64_at :: "char list \<Rightarrow> nat \<Rightarrow> u64" where
  "be64_at m off = BE64 (le_word (take 8 (drop off m)))"

record pkg_header =
  h_magic :: "char list"
  h_entry_count :: u32
  h_entry_table_offset :: u32
  h_content_type :: u32
  h_content_flags :: u32
  h_package_size :: u64
  h_digest :: "char list"

text \<open>The fields as the code reads them, after \<open>BE32\<close> and \<open>BE64\<close>.\<close>

definition pkg_header_of :: "char list \<Rightarrow> pkg_header" where
  "pkg_header_of m =
     \<lparr>h_magic = take 4 m, h_entry_count = be32_at m 0x10, h_entry_table_offset = be32_at m 0x18,
      h_content_type = be32_at m 0x74, h_content_flags = be32_at m 0x78,
      h_package_size = be64_at m 0x430, h_digest = take PKG_DIGEST_SIZE (drop 0xFE0 m)\<rparr>"

definition PKG_MAGIC :: "char list" where
  "PKG_MAGIC = [CHR 0x7F, CHR ''C'', CHR ''N'', CHR ''T'']"

definition PKG_CONTENT_FLAGS_FIRST_PATCH :: u32 where "PKG_CONTENT_FLAGS_FIRST_PATCH = 0x00100000"
definition PKG_CONTENT_FLAGS_SUBSEQUENT_PATCH :: u32 where "PKG_CONTENT_FLAGS_SUBSEQUENT_PATCH = 0x40000000"
definition PKG_CONTENT_FLAGS_DELTA_PATCH :: u32 where "PKG_CONTENT_FLAGS_DELTA_PATCH = 0x41000000"
definition PKG_CONTENT_FLAGS_CUMULATIVE_PATCH :: u32 where "PKG_CONTENT_FLAGS_CUMULATIVE_PATCH = 0x60000000"

lemmas patch_flag_defs = PKG_CONTENT_FLAGS_FIRST_PATCH_def PKG_CONTENT_FLAGS_SUBSEQUENT_PATCH_def
  PKG_CONTENT_FLAGS_DELTA_PATCH_def PKG_CONTENT_FLAGS_CUMULATIVE_PATCH_def

definition pkg_is_patch :: "pkg_header \<Rightarrow> bool" where
  "pkg_is_patch hdr =
     (let flags = h_content_flags hdr in
      if flags AND PKG_CONTENT_FLAGS_FIRST_PATCH \<noteq> 0 then True
      else if flags AND PKG_CONTENT_FLAGS_SUBSEQUENT_PATCH \<noteq> 0 then True
      else if flags AND PKG_CONTENT_FLAGS_DELTA_PATCH \<noteq> 0 then True
      else if flags AND PKG_CONTENT_FLAGS_CUMULATIVE_PATCH \<noteq> 0 then True
      else False)"

text \<open>The scan of the entry table; the files found so far are accumulated.\<close>

record pkg_found =
  f_sfo_offset :: u32
  f_sfo_size :: u32
  f_icon_offset :: u32
  f_icon_size :: u32

definition found_none :: pkg_found where
  "found_none = \<lparr>f_sfo_offset = 0, f_sfo_size = 0, f_icon_offset = 0, f_icon_size = 0\<rparr>"

definition scan_entry :: "char list \<Rightarrow> nat \<Rightarrow> pkg_found \<Rightarrow> pkg_found" where
  "scan_entry tbl i f =
     (let e = i * SIZEOF_PKG_TABLE_ENTRY; id = be32_at tbl (e + 0x00) in
      if id = PKG_ENTRY_ID__PARAM_SFO then
        f\<lparr>f_sfo_offset := be32_at tbl (e + 0x10), f_sfo_size := be32_at tbl (e + 0x14)\<rparr>
      else if id = PKG_ENTRY_ID__ICON0_PNG then
        f\<lparr>f_icon_offset := be32_at tbl (e + 0x10), f_icon_size := be32_at tbl (e + 0x14)\<rparr>
      else f)"

fun scan_entries :: "char list \<Rightarrow> nat \<Rightarrow> nat \<Rightarrow> pkg_found \<Rightarrow> pkg_found" where
  "scan_entries tbl i 0 f = f"
| "scan_entries tbl i (Suc n) f = scan_entries tbl (Suc i) n (scan_entry tbl i f)"

section \<open>Piece addresses of a reference package document\<close>

text \<open>The parser pool is zeroed memory.\<close>

definition zero_node :: json_t where
  "zero_node = \<lparr>jsibling = None, jname = None, ju = UChildren None, jtype = JSON_OBJ\<rparr>"

definition PIECE_POOL_SIZE :: nat where "PIECE_POOL_SIZE = 256"

text \<open>The first pass checks every element of \<open>pieces\<close> and counts them.\<close>

partial_function (option) check_pieces ::
    "'w http_lib \<Rightarrow> char list \<Rightarrow> json_t list \<Rightarrow> http \<Rightarrow> nat option \<Rightarrow> nat \<Rightarrow> 'w \<Rightarrow> (nat option \<times> 'w) option" where
  "check_pieces L m mem H jval count w =
     (if jval = None then Some (Some count, w)
      else do {
        ty \<leftarrow> json_getType mem (the jval);
        if ty \<noteq> JSON_OBJ then Some (None, w)
        else do {
          prop_val \<leftarrow> json_getPropertyValue m mem (the jval) ''url'';
          if prop_val = None \<or> prop_val = Some [] then Some (None, w)
          else do {
            let (unescaped, w) = http_unescape_uri L prop_val H w;
            if unescaped = None then Some (None, w)
            else if \<not> starts_with (the unescaped) ''http://'' \<and> \<not> starts_with (the unescaped) ''https://''
            then Some (None, w)
            else do {
              nxt \<leftarrow> json_getSibling mem (the jval);
              check_pieces L m mem H nxt (count + 1) w } } } })"

text \<open>The second pass unescapes and re-encodes them.\<close>

partial_function (option) collect_pieces ::
    "'w http_lib \<Rightarrow> char list \<Rightarrow> json_t list \<Rightarrow> http \<Rightarrow> nat option \<Rightarrow> string list \<Rightarrow> 'w
      \<Rightarrow> (string list option \<times> 'w) option" where
  "collect_pieces L m mem H jval urls w =
     (if jval = None then Some (Some urls, w)
      else do {
        prop_val \<leftarrow> json_getPropertyValue m mem (the jval) ''url'';
        let (unescaped, w) = http_unescape_uri L prop_val H w;
        if unescaped = None then Some (None, w)
        else do {
          let (u, w) = url_encode (hl_posix L) (the unescaped) w;
          if u = None then Some (None, w)
          else do {
            nxt \<leftarrow> json_getSibling mem (the jval);
            collect_pieces L m mem H nxt (urls @ [the u]) w } } })"

declare check_pieces.simps [code] collect_pieces.simps [code]

definition pieces_of_json ::
    "'w http_lib \<Rightarrow> char list \<Rightarrow> http \<Rightarrow> 'w \<Rightarrow> (string list option \<times> 'w) option" where
  "pieces_of_json L text H w =
     (case px_malloc (hl_posix L) (40 * PIECE_POOL_SIZE) w of
        (False, w) \<Rightarrow> Some (None, w)
      | (True, w) \<Rightarrow> do {
          (m, mem, root) \<leftarrow> json_create (text @ [NUL]) (replicate PIECE_POOL_SIZE zero_node);
          if root = None then Some (None, w)
          else do {
            field \<leftarrow> json_getProperty m mem 0 ''pieces'';
            case field of None \<Rightarrow> Some (None, w)
            | Some f \<Rightarrow> do {
                ty \<leftarrow> json_getType mem f;
                if ty \<noteq> JSON_ARRAY then Some (None, w)
                else do {
                  c \<leftarrow> json_getChild mem f;
                  (count, w) \<leftarrow> check_pieces L m mem H c 0 w;
                  case count of None \<Rightarrow> Some (None, w)
                  | Some n \<Rightarrow>
                      if n = 0 then Some (None, w)
                      else (case px_malloc (hl_posix L) (n * 8) w of
                              (False, w) \<Rightarrow> Some (None, w)
                            | (True, w) \<Rightarrow> collect_pieces L m mem H c [] w) } } } })"

definition pkg_extract_piece_urls_from_ref_pkg_json ::
    "'w http_lib \<Rightarrow> string option \<Rightarrow> cint \<Rightarrow> http \<Rightarrow> 'w \<Rightarrow> (string list option \<times> http \<times> 'w) option" where
  "pkg_extract_piece_urls_from_ref_pkg_json L url ssl_verify H w =
     (if url = None then Some (None, H, w)
      else case http_download_file L url (Some (-1)) 0 ssl_verify H w of
        None \<Rightarrow> None
      | Some (None, H, w) \<Rightarrow> Some (None, H, w)
      | Some (Some (data, sz, total_size), H, w) \<Rightarrow>
          if total_size = 0 then Some (None, H, w)
          else (case pieces_of_json L data H w of
                  None \<Rightarrow> None
                | Some (r, w) \<Rightarrow> Some (r, H, w)))"

section \<open>Preparing an installation\<close>

text \<open>The C streams used for the reference document; what they return is not looked at.\<close>

record 'w pkg_env =
  pe_http :: "'w http_lib"
  pe_fopen :: "string \<Rightarrow> 'w \<Rightarrow> (cint option \<times> cint) \<times> 'w"
  pe_fputs :: "cint \<Rightarrow> string \<Rightarrow> 'w \<Rightarrow> 'w"
  pe_fclose :: "cint \<Rightarrow> 'w \<Rightarrow> 'w"
  pe_errors :: sdk_errors

text \<open>A phase ends in \<open>goto err\<close> with the message for the caller, or goes on with a value.\<close>

type_synonym ('w, 'a) phase = "((string + 'a) \<times> http \<times> 'w) option"

definition pkg_throw_http :: "string \<Rightarrow> http \<Rightarrow> string" where
  "pkg_throw_http msg H = (if s_last_error H \<noteq> [] then s_last_error H else msg)"

definition quoted :: "string \<Rightarrow> string" where
  "quoted s = [CHR 0x27] @ s @ [CHR 0x27]"

definition pkg_check_args :: "string list option \<Rightarrow> string \<Rightarrow> string \<Rightarrow> string \<Rightarrow> string option" where
  "pkg_check_args piece_urls ref_path sfo_path icon_path =
     (case piece_urls of None \<Rightarrow> Some (''No pieces URLs specified.'' @ [CHR 0x0A])
      | Some urls \<Rightarrow>
          if urls = [] then Some (''No pieces.'' @ [CHR 0x0A])
          else if ref_path = [] then
            Some (''Empty reference package json file path specified.'' @ [CHR 0x0A])
          else if sfo_path = [] then Some (''Empty param.sfo file path specified.'' @ [CHR 0x0A])
          else if icon_path = [] then Some (''Empty icon0.png file path specified.'' @ [CHR 0x0A])
          else None)"

text \<open>A download of exactly \<open>n\<close> bytes, with the messages for a failure and for a short answer.\<close>

definition fetch_exact ::
    "'w pkg_env \<Rightarrow> string \<Rightarrow> u64 \<Rightarrow> u64 \<Rightarrow> string \<Rightarrow> string \<Rightarrow> cint \<Rightarrow> http \<Rightarrow> 'w
      \<Rightarrow> ('w, char list \<times> u64) phase" where
  "fetch_exact E url n offset err_msg size_msg ssl_verify H w =
     (case http_download_file (pe_http E) (Some url) (Some n) offset ssl_verify H w of
        None \<Rightarrow> None
      | Some (None, H, w) \<Rightarrow> Some (Inl (pkg_throw_http err_msg H), H, w)
      | Some (Some (data, sz, total_size), H, w) \<Rightarrow>
          if sz \<noteq> n then Some (Inl size_msg, H, w) else Some (Inr (data, total_size), H, w))"

definition pkg_fetch_header ::
    "'w pkg_env \<Rightarrow> string \<Rightarrow> cint \<Rightarrow> http \<Rightarrow> 'w \<Rightarrow> ('w, pkg_header \<times> u64) phase" where
  "pkg_fetch_header E url ssl_verify H w =
     (case fetch_exact E url (word_of_nat SIZEOF_PKG_HEADER) 0
             (''Unable to download package header for '' @ quoted url @ ''.'' @ [CHR 0x0A])
             (''Package header size mismatch for '' @ quoted url @ ''.'' @ [CHR 0x0A]) ssl_verify H w of
        None \<Rightarrow> None
      | Some (Inl e, H, w) \<Rightarrow> Some (Inl e, H, w)
      | Some (Inr (data, total_size), H, w) \<Rightarrow>
          let hdr = pkg_header_of data in
          if h_magic hdr \<noteq> PKG_MAGIC then
            Some (Inl (''Invalid package format for '' @ quoted url @ ''.'' @ [CHR 0x0A]), H, w)
          else Some (Inr (hdr, total_size), H, w))"

definition pkg_fetch_table ::
    "'w pkg_env \<Rightarrow> string \<Rightarrow> pkg_header \<Rightarrow> cint \<Rightarrow> http \<Rightarrow> 'w \<Rightarrow> ('w, pkg_found) phase" where
  "pkg_fetch_table E url hdr ssl_verify H w =
     (let entry_count = unat (h_entry_count hdr);
          entry_table_size = (word_of_nat (entry_count * SIZEOF_PKG_TABLE_ENTRY) :: u64)
      in if entry_table_size = 0 then
           Some (Inl (''Empty entry table for '' @ quoted url @ ''.'' @ [CHR 0x0A]), H, w)
         else case fetch_exact E url entry_table_size (ucast (h_entry_table_offset hdr))
                (''Unable to download package entry table for '' @ quoted url @ ''.'' @ [CHR 0x0A])
                (''Package entry table size mismatch for '' @ quoted url @ ''.'' @ [CHR 0x0A]) ssl_verify H w of
           None \<Rightarrow> None
         | Some (Inl e, H, w) \<Rightarrow> Some (Inl e, H, w)
         | Some (Inr (tbl, _), H, w) \<Rightarrow>
             let f = scan_entries tbl 0 entry_count found_none in
             if f_sfo_offset f = 0 \<or> f_sfo_size f = 0 then
               Some (Inl (''No param.sfo entry in package '' @ quoted url @ ''.'' @ [CHR 0x0A]), H, w)
             else Some (Inr f, H, w))"

definition pkg_fetch_sfo ::
    "'w pkg_env \<Rightarrow> string \<Rightarrow> pkg_found \<Rightarrow> cint \<Rightarrow> http \<Rightarrow> 'w \<Rightarrow> ('w, char list) phase" where
  "pkg_fetch_sfo E url f ssl_verify H w =
     (case fetch_exact E url (ucast (f_sfo_size f)) (ucast (f_sfo_offset f))
             (''Unable to download param.sfo for '' @ quoted url @ ''.'' @ [CHR 0x0A])
             (''param.sfo size mismatch for '' @ quoted url @ ''.'' @ [CHR 0x0A]) ssl_verify H w of
        None \<Rightarrow> None
      | Some (Inl e, H, w) \<Rightarrow> Some (Inl e, H, w)
      | Some (Inr (data, _), H, w) \<Rightarrow>
          if f_sfo_size f < 4 \<or> take 4 data \<noteq> SFO_MAGIC then
            Some (Inl (''Invalid param.sfo contents for '' @ quoted url @ ''.'' @ [CHR 0x0A]), H, w)
          else Some (Inr data, H, w))"

text \<open>The icon is optional.\<close>

definition has_icon :: "pkg_found \<Rightarrow> bool" where
  "has_icon f \<longleftrightarrow> 0 < f_icon_offset f \<and> 0 < f_icon_size f"

definition pkg_fetch_icon ::
    "'w pkg_env \<Rightarrow> string \<Rightarrow> pkg_found \<Rightarrow> cint \<Rightarrow> http \<Rightarrow> 'w \<Rightarrow> ('w, char list) phase" where
  "pkg_fetch_icon E url f ssl_verify H w =
     (if \<not> has_icon f then Some (Inr [], H, w)
      else case fetch_exact E url (ucast (f_icon_size f)) (ucast (f_icon_offset f))
             (''Unable to download icon0.png for '' @ quoted url @ ''.'' @ [CHR 0x0A])
             (''icon0.png size mismatch for '' @ quoted url @ ''.'' @ [CHR 0x0A]) ssl_verify H w of
        None \<Rightarrow> None
      | Some (Inl e, H, w) \<Rightarrow> Some (Inl e, H, w)
      | Some (Inr (data, _), H, w) \<Rightarrow> Some (Inr data, H, w))"

text \<open>The text of the reference document.\<close>

definition json_quoted :: "string \<Rightarrow> string" where
  "json_quoted s = [CHR 0x22] @ s @ [CHR 0x22]"

definition ref_head :: "u64 \<Rightarrow> string \<Rightarrow> nat \<Rightarrow> string" where
  "ref_head package_size digest piece_count =
     ''{'' @ json_quoted ''originalFileSize'' @ '':'' @ show_dec (unat package_size) @ '',''
     @ json_quoted ''packageDigest'' @ '':'' @ json_quoted digest @ '',''
     @ json_quoted ''numberOfSplitFiles'' @ '':'' @ show_dec piece_count @ '','' @ json_quoted ''pieces'' @ '':[''"

definition ref_piece :: "string \<Rightarrow> u64 \<Rightarrow> u64 \<Rightarrow> string \<Rightarrow> string" where
  "ref_piece url offset total_size digest =
     ''{'' @ json_quoted ''url'' @ '':'' @ json_quoted url @ '',''
     @ json_quoted ''fileOffset'' @ '':'' @ show_dec (unat offset) @ '',''
     @ json_quoted ''fileSize'' @ '':'' @ show_dec (unat total_size) @ '',''
     @ json_quoted ''hashValue'' @ '':'' @ json_quoted digest @ ''}''"

text \<open>The loop over the pieces: \<open>first\<close> holds for the piece whose size is already known from the
  header download.  The result is the sum of the sizes, in 64 bits.\<close>

fun write_pieces ::
    "'w pkg_env \<Rightarrow> cint \<Rightarrow> string \<Rightarrow> cint \<Rightarrow> bool \<Rightarrow> u64 \<Rightarrow> u64 \<Rightarrow> string list \<Rightarrow> http \<Rightarrow> 'w
      \<Rightarrow> ('w, u64) phase" where
  "write_pieces E fp digest ssl_verify first offset total_size [] H w = Some (Inr offset, H, w)"
| "write_pieces E fp digest ssl_verify first offset total_size (u # us) H w =
     (case (if first then Some (Some total_size, H, w)
            else http_get_file_size (pe_http E) (Some u) ssl_verify H w) of
        None \<Rightarrow> None
      | Some (None, H, w) \<Rightarrow>
          Some (Inl (pkg_throw_http (''Unable to get file size for piece '' @ quoted u @ ''.'' @ [CHR 0x0A]) H), H, w)
      | Some (Some total_size, H, w) \<Rightarrow>
          let w = pe_fputs E fp (ref_piece u offset total_size digest) w;
              w = (if us \<noteq> [] then pe_fputs E fp '','' w else w)
          in write_pieces E fp digest ssl_verify False (offset + total_size) total_size us H w)"

text \<open>Everything between \<open>fopen\<close> and \<open>fclose\<close>.\<close>

definition pkg_write_files ::
    "'w pkg_env \<Rightarrow> cint \<Rightarrow> string list \<Rightarrow> string \<Rightarrow> string \<Rightarrow> pkg_header \<Rightarrow> u64 \<Rightarrow> pkg_found \<Rightarrow> char list
      \<Rightarrow> char list \<Rightarrow> string \<Rightarrow> string \<Rightarrow> cint \<Rightarrow> http \<Rightarrow> 'w \<Rightarrow> ('w, unit) phase" where
  "pkg_write_files E fp urls sfo_path icon_path hdr total_size f sfo_data icon_data
       pkg_digest piece_digest ssl_verify H w =
     (let P = hl_posix (pe_http E); trunc = O_TRUNC (pe_http E); url = hd urls;
          w = pe_fputs E fp (ref_head (h_package_size hdr) pkg_digest (length urls)) w
      in case write_pieces E fp piece_digest ssl_verify True 0 total_size urls H w of
        None \<Rightarrow> None
      | Some (Inl e, H, w) \<Rightarrow> Some (Inl e, H, w)
      | Some (Inr offset, H, w) \<Rightarrow>
          let w = pe_fputs E fp '']}'' w in
          if 0 < h_package_size hdr \<and> offset \<noteq> h_package_size hdr then
            Some (Inl (''Unexpected total file size for '' @ quoted url @ ''.'' @ [CHR 0x0A]), H, w)
          else (case write_file_trunc P trunc sfo_path sfo_data 384 w of
            None \<Rightarrow> None
          | Some ((ok, n), w) \<Rightarrow>
              if \<not> ok then
                Some (Inl (''Unable to write param.sfo file for '' @ quoted url @ ''.'' @ [CHR 0x0A]), H, w)
              else if \<not> has_icon f then Some (Inr (), H, w)
              else (case write_file_trunc P trunc icon_path icon_data 384 w of
                None \<Rightarrow> None
              | Some ((ok, n), w) \<Rightarrow>
                  if \<not> ok then
                    Some (Inl (''Unable to write icon0.png file for '' @ quoted url @ ''.'' @ [CHR 0x0A]), H, w)
                  else Some (Inr (), H, w))))"

text \<open>What the caller gets: the status with its outputs, the patch flag (set as soon as the header
  is valid), and the text of \<open>error_buf\<close>.\<close>

record pkg_setup =
  ps_ok :: "(u32 \<times> u64 \<times> bool) option"
  ps_is_patch :: "bool option"
  ps_error :: string

definition setup_error :: "nat \<Rightarrow> bool option \<Rightarrow> string \<Rightarrow> pkg_setup" where
  "setup_error error_buf_size is_patch msg =
     \<lparr>ps_ok = None, ps_is_patch = is_patch, ps_error = trunc_cpy error_buf_size msg\<rparr>"

text \<open>The downloads, from the header to the icon; \<open>is_patch\<close> is set once the header is valid.\<close>

definition pkg_fetch_all ::
    "'w pkg_env \<Rightarrow> string list \<Rightarrow> cint \<Rightarrow> http \<Rightarrow> 'w
      \<Rightarrow> (bool option \<times> (string + pkg_header \<times> u64 \<times> pkg_found \<times> char list \<times> char list) \<times> http \<times> 'w) option" where
  "pkg_fetch_all E urls ssl_verify H w =
     (let url = hd urls in
      case pkg_fetch_header E url ssl_verify H w of
        None \<Rightarrow> None
      | Some (Inl e, H, w) \<Rightarrow> Some (None, Inl e, H, w)
      | Some (Inr (hdr, total_size), H, w) \<Rightarrow>
          let patch = Some (pkg_is_patch hdr) in
          if length urls = 1 \<and> 0 < h_package_size hdr \<and> total_size \<noteq> h_package_size hdr then
            Some (patch, Inl (''Unexpected file size for '' @ quoted url @ ''.'' @ [CHR 0x0A]), H, w)
          else case pkg_fetch_table E url hdr ssl_verify H w of
            None \<Rightarrow> None
          | Some (Inl e, H, w) \<Rightarrow> Some (patch, Inl e, H, w)
          | Some (Inr f, H, w) \<Rightarrow>
              (case pkg_fetch_sfo E url f ssl_verify H w of
                 None \<Rightarrow> None
               | Some (Inl e, H, w) \<Rightarrow> Some (patch, Inl e, H, w)
               | Some (Inr sfo_data, H, w) \<Rightarrow>
                   (case pkg_fetch_icon E url f ssl_verify H w of
                      None \<Rightarrow> None
                    | Some (Inl e, H, w) \<Rightarrow> Some (patch, Inl e, H, w)
                    | Some (Inr icon_data, H, w) \<Rightarrow>
                        Some (patch, Inr (hdr, total_size, f, sfo_data, icon_data), H, w))))"

definition unlink_all :: "'w posix \<Rightarrow> string list \<Rightarrow> 'w \<Rightarrow> 'w" where
  "unlink_all P paths w = fold (px_unlink P) paths w"

definition pkg_setup_prerequisites ::
    "'w pkg_env \<Rightarrow> string list option \<Rightarrow> string \<Rightarrow> string \<Rightarrow> string \<Rightarrow> nat \<Rightarrow> cint \<Rightarrow> http \<Rightarrow> 'w
      \<Rightarrow> (pkg_setup \<times> http \<times> 'w) option" where
  "pkg_setup_prerequisites E piece_urls ref_path sfo_path icon_path error_buf_size ssl_verify H w =
     (case pkg_check_args piece_urls ref_path sfo_path icon_path of
        Some e \<Rightarrow> Some (setup_error error_buf_size None e, H, w)
      | None \<Rightarrow>
          let P = hl_posix (pe_http E); urls = the piece_urls;
              w = unlink_all P [ref_path, sfo_path, icon_path] w
          in case pkg_fetch_all E urls ssl_verify H w of
            None \<Rightarrow> None
          | Some (patch, Inl e, H, w) \<Rightarrow> Some (setup_error error_buf_size patch e, H, w)
          | Some (patch, Inr (hdr, total_size, f, sfo_data, icon_data), H, w) \<Rightarrow>
              let (rc, pkg_digest) = bytes_to_hex (pe_errors E) (Some (PKG_DIGEST_SIZE * 2 + 1)) (Some (h_digest hdr));
                  (rc', piece_digest) = bytes_to_hex (pe_errors E) (Some (PKG_MINI_DIGEST_SIZE * 2 + 1))
                     (Some (replicate PKG_MINI_DIGEST_SIZE NUL))
              in if rc \<noteq> 0 \<or> rc' \<noteq> 0 then
                   Some (setup_error error_buf_size patch
                     (''Unable to convert digest for '' @ quoted (hd urls) @ ''.'' @ [CHR 0x0A]), H, w)
                 else case pe_fopen E ref_path w of
                   ((None, errno), w) \<Rightarrow>
                     Some (setup_error error_buf_size patch
                       (''fopen('' @ ref_path @ '') failed: '' @ fmt_d errno @ [CHR 0x0A]), H, w)
                 | ((Some fp, _), w) \<Rightarrow>
                     (case pkg_write_files E fp urls sfo_path icon_path hdr total_size f sfo_data icon_data
                             (the pkg_digest) (the piece_digest) ssl_verify H w of
                        None \<Rightarrow> None
                      | Some (Inl e, H, w) \<Rightarrow>
                          let w = pe_fclose E fp w;
                              w = unlink_all P [icon_path, sfo_path, ref_path] w
                          in Some (setup_error error_buf_size patch e, H, w)
                      | Some (Inr (), H, w) \<Rightarrow>
                          let w = pe_fclose E fp w
                          in Some (\<lparr>ps_ok = Some (h_content_type hdr, h_package_size hdr, has_icon f),
                                    ps_is_patch = patch, ps_error = []\<rparr>, H, w)))"

section \<open>Lemmas: content identifiers\<close>

lemma drop_at: "k \<le> l \<Longrightarrow> l < length c \<Longrightarrow> drop k c ! (l - k) = c ! l"
  by simp

lemma strchr_drop_Some:
  assumes "strchr (drop k c) x = Some j"
  shows "k + j < length c" "c ! (k + j) = x" "k \<le> l \<Longrightarrow> l < k + j \<Longrightarrow> c ! l \<noteq> x"
proof -
  note d = strchr_SomeD [OF assms]
  show "k + j < length c" "c ! (k + j) = x" using d by auto
  show "c ! l \<noteq> x" if "k \<le> l" "l < k + j"
  proof
    assume "c ! l = x"
    moreover have "l < length c" using that d by auto
    ultimately have "take j (drop k c) ! (l - k) = x"
      using that drop_at [OF that(1)] by simp
    moreover have "l - k < length (take j (drop k c))" using that d by simp
    ultimately show False using d nth_mem by metis
  qed
qed

lemma strrchr_after:
  assumes "strrchr c x = Some k" and "k < l" and "l < length c"
  shows "c ! l \<noteq> x"
proof
  assume "c ! l = x"
  then have "drop (Suc k) c ! (l - Suc k) = x" using assms(2,3) drop_at [of "Suc k" l c] by simp
  moreover have "l - Suc k < length (drop (Suc k) c)" using assms(2,3) by simp
  ultimately show False using strrchr_SomeD [OF assms(1)] nth_mem by metis
qed

text \<open>The shape of an accepted identifier: 36 characters, exactly two dashes, the second at
  position 19, and an underscore after the first.\<close>

definition content_id_shape :: "string \<Rightarrow> nat \<Rightarrow> bool" where
  "content_id_shape c i \<longleftrightarrow> length c = 36 \<and> i < 19
     \<and> (\<forall>k < 36. c ! k = CHR ''-'' \<longleftrightarrow> k = i \<or> k = 19) \<and> CHR ''_'' \<in> set (drop (Suc i) c)"

definition content_id_fields :: "string \<Rightarrow> nat \<Rightarrow> pkg_content_info" where
  "content_id_fields c i = \<lparr>ci_content_id = c, ci_service_id = take 19 c,
     ci_title_id = take 9 (drop (Suc i) c), ci_label = drop 20 c\<rparr>"

lemma content_id_shape_parse:
  assumes "content_id_shape c i"
  shows "pkg_parse_content_id (Some c) = Some (content_id_fields c i)"
proof -
  have len: "length c = 36" and i: "i < 19" and us: "CHR ''_'' \<in> set (drop (Suc i) c)"
    and at: "\<And>k. k < 36 \<Longrightarrow> c ! k = CHR ''-'' \<longleftrightarrow> k = i \<or> k = 19"
    using assms by (auto simp: content_id_shape_def)
  have s1: "strchr c CHR ''-'' = Some i"
    by (rule strchr_SomeI) (use len i at in \<open>auto simp: in_set_conv_nth\<close>)
  have s2: "strchr (drop (Suc i) c) CHR ''-'' = Some (18 - i)"
    by (rule strchr_SomeI) (use len i at in \<open>auto simp: in_set_conv_nth\<close>)
  have c19: "c ! 19 = CHR ''-''" using at [of 19] by simp
  have s3: "strrchr c CHR ''-'' = Some 19"
  proof (cases "strrchr c CHR ''-''")
    case None
    moreover have "c ! 19 \<in> set c" using len by simp
    ultimately show ?thesis using c19 by (simp add: strrchr_None_iff)
  next
    case (Some k)
    have "\<not> k < 19" using strrchr_after [OF Some, of 19] c19 len by auto
    moreover have "k = i \<or> k = 19" using strrchr_SomeD [OF Some] at [of k] len by simp
    ultimately show ?thesis using i Some by auto
  qed
  have s4: "strchr (drop (Suc i) c) CHR ''_'' \<noteq> None" using us by (simp add: strchr_None_iff)
  show ?thesis
    using len i s1 s2 s3 s4
    by (simp add: pkg_parse_content_id_def pkg_size_defs trunc_cpy_def content_id_fields_def)
qed

lemma parse_content_id_shape:
  assumes "pkg_parse_content_id (Some c) = Some info"
  shows "\<exists>i. content_id_shape c i"
proof -
  from assms obtain i j k where
    len: "length c = 36" and s1: "strchr c CHR ''-'' = Some i"
    and s2: "strchr (drop (Suc i) c) CHR ''-'' = Some j" and ij: "Suc i + j = 19"
    and s3: "strrchr c CHR ''-'' = Some k" and us: "CHR ''_'' \<in> set (drop (Suc i) c)"
    and lab: "16 \<le> 35 - k"
    by (auto simp: pkg_parse_content_id_def pkg_size_defs trunc_cpy_def Let_def strchr_None_iff
        split: option.splits if_splits)
  note d1 = strchr_drop_Some [of 0 c, simplified, OF s1] and d2 = strchr_drop_Some [OF s2]
  have c19: "c ! 19 = CHR ''-''" using d2(2) ij by simp
  have "\<not> k < 19" using strrchr_after [OF s3, of 19] c19 len by auto
  with lab have k: "k = 19" by linarith
  have dash: "c ! l = CHR ''-'' \<longleftrightarrow> l = i \<or> l = 19" if l: "l < 36" for l
  proof -
    have "c ! l \<noteq> CHR ''-''" if "19 < l"
      using strrchr_after [OF s3, of l] that l k len by auto
    moreover have "c ! l \<noteq> CHR ''-''" if "l < i" using d1(3) [OF that] .
    moreover have "c ! l \<noteq> CHR ''-''" if "i < l" "l < 19" using d2(3) [of l] that ij by simp
    moreover consider "l < i" | "l = i" | "i < l" "l < 19" | "l = 19" | "19 < l" by linarith
    ultimately show ?thesis using d1(2) c19 ij by cases auto
  qed
  have "i < 19" using ij by simp
  then show ?thesis using len us dash unfolding content_id_shape_def by blast
qed

section \<open>Lemmas: the entry table\<close>

text \<open>The index of the last of the first \<open>n\<close> entries that has an identifier.\<close>

definition entry_id :: "char list \<Rightarrow> nat \<Rightarrow> u32" where
  "entry_id tbl k = be32_at tbl (k * SIZEOF_PKG_TABLE_ENTRY)"

fun last_entry :: "char list \<Rightarrow> u32 \<Rightarrow> nat \<Rightarrow> nat option" where
  "last_entry tbl eid 0 = None"
| "last_entry tbl eid (Suc n) = (if entry_id tbl n = eid then Some n else last_entry tbl eid n)"

lemma last_entry_Some:
  "last_entry tbl eid n = Some k \<longleftrightarrow>
     k < n \<and> entry_id tbl k = eid \<and> (\<forall>l. k < l \<longrightarrow> l < n \<longrightarrow> entry_id tbl l \<noteq> eid)"
  by (induction n) (auto simp: less_Suc_eq)

lemma last_entry_None: "last_entry tbl eid n = None \<longleftrightarrow> (\<forall>l < n. entry_id tbl l \<noteq> eid)"
  by (induction n) (auto simp: less_Suc_eq)

definition entry_offset :: "char list \<Rightarrow> nat \<Rightarrow> u32" where
  "entry_offset tbl k = be32_at tbl (k * SIZEOF_PKG_TABLE_ENTRY + 0x10)"

definition entry_size :: "char list \<Rightarrow> nat \<Rightarrow> u32" where
  "entry_size tbl k = be32_at tbl (k * SIZEOF_PKG_TABLE_ENTRY + 0x14)"

lemma scan_entries_snoc: "scan_entries tbl i (Suc n) f = scan_entry tbl (i + n) (scan_entries tbl i n f)"
  by (induction n arbitrary: i f) simp_all

definition found_at :: "(nat \<Rightarrow> 'a) \<Rightarrow> 'a \<Rightarrow> nat option \<Rightarrow> 'a" where
  "found_at g d r = (case r of None \<Rightarrow> d | Some k \<Rightarrow> g k)"

lemma found_at_simps [simp]: "found_at g d None = d" "found_at g d (Some k) = g k"
  by (simp_all add: found_at_def)

lemma scan_entry_fields:
  "scan_entry tbl i f =
     (if entry_id tbl i = PKG_ENTRY_ID__PARAM_SFO
      then f\<lparr>f_sfo_offset := entry_offset tbl i, f_sfo_size := entry_size tbl i\<rparr>
      else if entry_id tbl i = PKG_ENTRY_ID__ICON0_PNG
      then f\<lparr>f_icon_offset := entry_offset tbl i, f_icon_size := entry_size tbl i\<rparr> else f)"
  by (simp add: scan_entry_def Let_def entry_id_def entry_offset_def entry_size_def)

lemma scan_entries_spec:
  "scan_entries tbl 0 n found_none =
     \<lparr>f_sfo_offset = found_at (entry_offset tbl) 0 (last_entry tbl PKG_ENTRY_ID__PARAM_SFO n),
      f_sfo_size = found_at (entry_size tbl) 0 (last_entry tbl PKG_ENTRY_ID__PARAM_SFO n),
      f_icon_offset = found_at (entry_offset tbl) 0 (last_entry tbl PKG_ENTRY_ID__ICON0_PNG n),
      f_icon_size = found_at (entry_size tbl) 0 (last_entry tbl PKG_ENTRY_ID__ICON0_PNG n)\<rparr>"
proof (induction n)
  case 0
  then show ?case by (simp add: found_none_def)
next
  case (Suc n)
  have "PKG_ENTRY_ID__PARAM_SFO \<noteq> PKG_ENTRY_ID__ICON0_PNG"
    by (simp add: PKG_ENTRY_ID__PARAM_SFO_def PKG_ENTRY_ID__ICON0_PNG_def)
  then show ?case
    unfolding scan_entries_snoc Suc.IH by (simp add: scan_entry_fields)
qed

lemma pkg_is_patch_mask: "pkg_is_patch hdr \<longleftrightarrow> h_content_flags hdr AND 0x61100000 \<noteq> 0"
proof -
  have m: "(0x61100000 :: u32) = 0x00100000 OR (0x40000000 OR (0x41000000 OR 0x60000000))" by simp
  show ?thesis
    unfolding m bit.conj_disj_distrib or_eq_0_iff
    by (simp add: pkg_is_patch_def Let_def patch_flag_defs)
qed

section \<open>Lemmas: the reference document\<close>

text \<open>The pieces with running offsets, separated by commas.\<close>

fun ref_pieces :: "string \<Rightarrow> u64 \<Rightarrow> (string \<times> u64) list \<Rightarrow> string" where
  "ref_pieces digest offset [] = []"
| "ref_pieces digest offset ((u, n) # ps) =
     ref_piece u offset n digest @ (if ps \<noteq> [] then '','' else []) @ ref_pieces digest (offset + n) ps"

definition ref_document :: "u64 \<Rightarrow> string \<Rightarrow> string \<Rightarrow> (string \<times> u64) list \<Rightarrow> string" where
  "ref_document package_size digest piece_digest ps =
     ref_head package_size digest (length ps) @ ref_pieces piece_digest 0 ps @ '']}''"

text \<open>\<open>written\<close> observes what a stream has been given; only \<open>fputs\<close> changes it.\<close>

definition stream_ok :: "'w pkg_env \<Rightarrow> (cint \<Rightarrow> 'w \<Rightarrow> string) \<Rightarrow> bool" where
  "stream_ok E written \<longleftrightarrow>
     (\<forall>fp s w. written fp (pe_fputs E fp s w) = written fp w @ s) \<and>
     (\<forall>fp p m fl w. written fp (snd (px_open (hl_posix (pe_http E)) p m fl w)) = written fp w) \<and>
     (\<forall>fp fd d w. written fp (snd (px_write (hl_posix (pe_http E)) fd d w)) = written fp w) \<and>
     (\<forall>fp fd w. written fp (px_close (hl_posix (pe_http E)) fd w) = written fp w) \<and>
     (\<forall>fp. http_frame (pe_http E) (\<lambda>w w'. written fp w' = written fp w))"

lemma write_pieces_ref:
  assumes ok: "stream_ok E written"
  shows "write_pieces E fp digest v first off tot urls H w = Some (Inr off', H', w') \<Longrightarrow>
    \<exists>ps. map fst ps = urls \<and> (first \<longrightarrow> urls \<noteq> [] \<longrightarrow> snd (hd ps) = tot)
      \<and> written fp w' = written fp w @ ref_pieces digest off ps \<and> off' = off + sum_list (map snd ps)"
proof (induction urls arbitrary: first off tot H w)
  case Nil
  then show ?case by (intro exI [of _ "[]"]) simp
next
  case (Cons u us)
  have puts: "written fp (pe_fputs E fp s w) = written fp w @ s" for s w
    using ok unfolding stream_ok_def by blast
  have fr: "http_frame (pe_http E) (\<lambda>w w'. written fp w' = written fp w)"
    using ok unfolding stream_ok_def by blast
  let ?sz = "if first then Some (Some tot, H, w) else http_get_file_size (pe_http E) (Some u) v H w"
  obtain n H1 w1 where sz: "?sz = Some (Some n, H1, w1)"
    using Cons.prems by (auto split: option.splits)
  have w1: "written fp w1 = written fp w"
    using sz http_get_file_size_frame [OF fr] by (auto split: if_splits)
  have n: "first \<Longrightarrow> n = tot" using sz by simp
  let ?w2 = "pe_fputs E fp (ref_piece u off n digest) w1"
  let ?w3 = "if us \<noteq> [] then pe_fputs E fp '','' ?w2 else ?w2"
  have "write_pieces E fp digest v False (off + n) n us H1 ?w3 = Some (Inr off', H', w')"
    using Cons.prems sz by (simp add: Let_def)
  from Cons.IH [OF this] obtain ps where ps: "map fst ps = us"
    "written fp w' = written fp ?w3 @ ref_pieces digest (off + n) ps"
    "off' = off + n + sum_list (map snd ps)" by blast
  have "us \<noteq> [] \<longleftrightarrow> ps \<noteq> []" using ps(1) by auto
  then show ?case using ps w1 n
    by (intro exI [of _ "(u, n) # ps"]) (auto simp: puts add.assoc)
qed

lemma write_file_trunc_keeps:
  assumes ok: "\<And>w. obs (snd (px_open P p (Some m) fl w)) = obs w"
    "\<And>fd d w. obs (snd (px_write P fd d w)) = obs w" "\<And>fd w. obs (px_close P fd w) = obs w"
    and r: "write_file_trunc P fl p d m w = Some (x, w')"
  shows "obs w' = obs w"
proof -
  have wl: "write_loop P fd buf t w = Some (k, w') \<Longrightarrow> obs w' = obs w" for fd buf t w k w'
  proof (induction "length buf" arbitrary: buf t w rule: less_induct)
    case less
    obtain n w1 where c: "px_write P fd buf w = (n, w1)" by fastforce
    have "obs w1 = obs w" using ok(2) [of fd buf w] c by simp
    with less.prems less.hyps [of "drop (nat n) buf" "t + nat n" w1] show ?case
      by (subst (asm) write_loop.simps) (auto simp: c split: if_splits)
  qed
  obtain fd w1 where o1: "px_open P p (Some m) fl w = (fd, w1)" by fastforce
  have "obs w1 = obs w" using ok(1) [of w] o1 by simp
  with r show ?thesis
    by (auto simp: write_file_trunc_def write_file_def o1 ok(3) split: if_splits option.splits dest!: wl)
qed

lemma pkg_write_files_ref:
  assumes ok: "stream_ok E written" and urls: "urls \<noteq> []"
    and r: "pkg_write_files E fp urls sfo icon hdr tot f sd idt pd qd v H w = Some (Inr (), H', w')"
  shows "\<exists>ps. map fst ps = urls \<and> snd (hd ps) = tot
    \<and> written fp w' = written fp w @ ref_document (h_package_size hdr) pd qd ps
    \<and> (0 < h_package_size hdr \<longrightarrow> sum_list (map snd ps) = h_package_size hdr)"
proof -
  let ?P = "hl_posix (pe_http E)" and ?T = "O_TRUNC (pe_http E)"
  have puts: "written fp (pe_fputs E fp s w) = written fp w @ s" for s w
    using ok unfolding stream_ok_def by blast
  have wft: "write_file_trunc ?P ?T p d m w = Some (x, w') \<Longrightarrow> written fp w' = written fp w" for p d m w x w'
    by (rule write_file_trunc_keeps) (use ok in \<open>simp_all add: stream_ok_def\<close>)
  let ?w0 = "pe_fputs E fp (ref_head (h_package_size hdr) pd (length urls)) w"
  obtain off H1 w1 where 1: "write_pieces E fp qd v True 0 tot urls H ?w0 = Some (Inr off, H1, w1)"
    using r by (auto simp: pkg_write_files_def Let_def split: option.splits sum.splits)
  from write_pieces_ref [OF ok 1] urls obtain ps where ps: "map fst ps = urls" "snd (hd ps) = tot"
    "written fp w1 = written fp ?w0 @ ref_pieces qd 0 ps" "off = sum_list (map snd ps)" by auto
  note step = r [unfolded pkg_write_files_def Let_def 1 option.case prod.case sum.case]
  let ?w2 = "pe_fputs E fp '']}'' w1"
  have sz: "\<not> (0 < h_package_size hdr \<and> off \<noteq> h_package_size hdr)" using step by (auto split: if_splits)
  note step2 = step [unfolded if_not_P [OF sz]]
  obtain n3 w3 where 3: "write_file_trunc ?P ?T sfo sd 384 ?w2 = Some ((True, n3), w3)"
    using step2 by (auto split: option.splits if_splits)
  have "written fp w' = written fp w3"
  proof (cases "has_icon f")
    case False
    with step2 3 show ?thesis by simp
  next
    case True
    with step2 3 obtain x where "write_file_trunc ?P ?T icon idt 384 w3 = Some (x, w')"
      by (auto split: option.splits if_splits)
    from wft [OF this] show ?thesis .
  qed
  with wft [OF 3] ps sz show ?thesis
    by (intro exI [of _ ps]) (auto simp: puts ref_document_def)
qed

section \<open>Lemmas: piece addresses\<close>

lemma pool_node:
  assumes "pool_closed ml mem nf" and "i < nf"
  shows "i < length mem" "node_ok ml nf i (mem ! i)" "forward nf i (mem ! i)"
  using assms by (auto simp: pool_closed_def)

lemma node_ok_obj: "node_ok ml nf i j \<Longrightarrow> jtype j = JSON_OBJ \<or> jtype j = JSON_ARRAY \<Longrightarrow> container j"
  by (auto simp: node_ok_def container_def split: json_u.splits)

definition piece_ok :: "string \<Rightarrow> bool" where
  "piece_ok u \<longleftrightarrow> (\<forall>c \<in> set u. url_safe_char c \<or> c = CHR ''%'')"

lemma url_encode_piece_ok: "url_encode P s w = (Some u, w') \<Longrightarrow> piece_ok u"
  using url_encode_loop_chars by (auto simp: url_encode_def piece_ok_def split: prod.splits if_splits)

lemma pieces_run:
  assumes m: "nulterm m" and pc: "pool_closed (length m) mem nf"
  shows "(\<And>i. jval = Some i \<Longrightarrow> i < nf) \<Longrightarrow>
    run (check_pieces L m mem H jval count w) (\<lambda>(r, w'). \<forall>n. r = Some n \<longrightarrow> count \<le> n \<and>
      (\<forall>urls w2. run (collect_pieces L m mem H jval urls w2)
        (\<lambda>(r', w3). \<forall>us. r' = Some us \<longrightarrow>
           (\<exists>vs. us = urls @ vs \<and> length vs = n - count \<and> (\<forall>u \<in> set vs. piece_ok u)))))"
proof (induction "nf - the jval" arbitrary: jval count w rule: less_induct)
  case less
  show ?case
  proof (cases jval)
    case None
    then show ?thesis
      by (subst check_pieces.simps, subst collect_pieces.simps) (simp add: run_simps)
  next
    case (Some i)
    then have i: "i < nf" using less.prems by simp
    note nd = pool_node [OF pc i]
    let ?ty = "jtype (mem ! i)"
    have ty: "json_getType mem i = Some ?ty" using nd(1) by (simp add: json_getType_def)
    have sib: "json_getSibling mem i = Some (jsibling (mem ! i))"
      using nd(1) by (simp add: json_getSibling_def)
    show ?thesis
    proof (cases "?ty = JSON_OBJ")
      case False
      with Some ty show ?thesis by (subst check_pieces.simps) (simp add: run_simps)
    next
      case True
      then have "container (mem ! i)" using nd(2) node_ok_obj by blast
      from json_getPropertyValue_run [OF m pc i this, of "''url''"]
      obtain pv where pv: "json_getPropertyValue m mem i ''url'' = Some pv"
        by (auto simp: run_def)
      obtain un w1 where un: "http_unescape_uri L pv H w = (un, w1)" by fastforce
      have rec: "run (check_pieces L m mem H (jsibling (mem ! i)) (count + 1) w1)
        (\<lambda>(r, w'). \<forall>n. r = Some n \<longrightarrow> count + 1 \<le> n \<and>
          (\<forall>urls w2. run (collect_pieces L m mem H (jsibling (mem ! i)) urls w2)
            (\<lambda>(r', w3). \<forall>us. r' = Some us \<longrightarrow>
               (\<exists>vs. us = urls @ vs \<and> length vs = n - (count + 1) \<and> (\<forall>u \<in> set vs. piece_ok u)))))"
      proof (cases "jsibling (mem ! i)")
        case None
        then show ?thesis
          by (subst check_pieces.simps, subst collect_pieces.simps) (simp add: run_simps)
      next
        case (Some j)
        then have "i < j" "j < nf" using nd(3) by (auto simp: forward_def)
        then show ?thesis using less.hyps [of "Some j" "count + 1" w1] \<open>jval = Some i\<close> Some by auto
      qed
      have step: "run (collect_pieces L m mem H jval urls w2)
          (\<lambda>(r', w3). \<forall>us. r' = Some us \<longrightarrow>
             (\<exists>vs. us = urls @ vs \<and> length vs = n - count \<and> (\<forall>u \<in> set vs. piece_ok u)))"
        if n: "count + 1 \<le> n" and c: "\<And>urls w2. run (collect_pieces L m mem H (jsibling (mem ! i)) urls w2)
            (\<lambda>(r', w3). \<forall>us. r' = Some us \<longrightarrow>
               (\<exists>vs. us = urls @ vs \<and> length vs = n - (count + 1) \<and> (\<forall>u \<in> set vs. piece_ok u)))"
        for n urls w2
      proof -
        obtain un w3 where un: "http_unescape_uri L pv H w2 = (un, w3)" by fastforce
        show ?thesis
        proof (cases un)
          case None
          with Some pv un show ?thesis by (subst collect_pieces.simps) (simp add: run_simps)
        next
          case u: (Some s)
          obtain e w4 where e: "url_encode (hl_posix L) s w3 = (e, w4)" by fastforce
          show ?thesis
          proof (cases e)
            case None
            with Some pv un u e show ?thesis by (subst collect_pieces.simps) (simp add: run_simps)
          next
            case x: (Some x)
            have px: "piece_ok x" by (rule url_encode_piece_ok [OF e [unfolded x]])
            have "run (collect_pieces L m mem H (jsibling (mem ! i)) (urls @ [x]) w4)
              (\<lambda>(r', w3). \<forall>us. r' = Some us \<longrightarrow>
                 (\<exists>vs. us = urls @ vs \<and> length vs = n - count \<and> (\<forall>u \<in> set vs. piece_ok u)))"
            proof (rule run_mono [OF c])
              fix q :: "string list option \<times> 'a"
              assume q: "case q of (r', w3) \<Rightarrow> \<forall>us. r' = Some us \<longrightarrow>
                 (\<exists>vs. us = (urls @ [x]) @ vs \<and> length vs = n - (count + 1) \<and> (\<forall>u \<in> set vs. piece_ok u))"
              have "\<exists>vs. us = urls @ vs \<and> length vs = n - count \<and> (\<forall>u \<in> set vs. piece_ok u)"
                if "fst q = Some us" for us
              proof -
                from q that obtain vs where "us = (urls @ [x]) @ vs" "length vs = n - (count + 1)"
                  "\<forall>u \<in> set vs. piece_ok u" by (auto simp: split_beta)
                with n px show ?thesis by (intro exI [of _ "x # vs"]) auto
              qed
              then show "case q of (r', w3) \<Rightarrow> \<forall>us. r' = Some us \<longrightarrow>
                 (\<exists>vs. us = urls @ vs \<and> length vs = n - count \<and> (\<forall>u \<in> set vs. piece_ok u))"
                by (simp add: split_beta)
            qed
            with Some pv un u e x sib show ?thesis
              by (subst collect_pieces.simps) (simp add: run_simps)
          qed
        qed
      qed
      show ?thesis
      proof (cases "pv = None \<or> pv = Some [] \<or> un = None
          \<or> \<not> starts_with (the un) ''http://'' \<and> \<not> starts_with (the un) ''https://''")
        case True
        with Some ty pv un \<open>?ty = JSON_OBJ\<close> show ?thesis
          by (subst check_pieces.simps) (auto simp: run_simps)
      next
        case False
        have "run (check_pieces L m mem H (jsibling (mem ! i)) (count + 1) w1)
          (\<lambda>(r, w'). \<forall>n. r = Some n \<longrightarrow> count \<le> n \<and>
            (\<forall>urls w2. run (collect_pieces L m mem H jval urls w2)
              (\<lambda>(r', w3). \<forall>us. r' = Some us \<longrightarrow>
                 (\<exists>vs. us = urls @ vs \<and> length vs = n - count \<and> (\<forall>u \<in> set vs. piece_ok u)))))"
          by (rule run_mono [OF rec]) (use step in auto)
        with False Some ty pv un sib \<open>?ty = JSON_OBJ\<close> show ?thesis
          by (subst check_pieces.simps) (simp add: run_simps del: split_paired_All)
      qed
    qed
  qed
qed

lemma pieces_of_json_run:
  "run (pieces_of_json L doc H w)
    (\<lambda>(r, w'). \<forall>us. r = Some us \<longrightarrow> us \<noteq> [] \<and> (\<forall>u \<in> set us. piece_ok u))"
proof -
  have m: "nulterm (doc @ [NUL])" by (simp add: nulterm_def)
  have z: "replicate PIECE_POOL_SIZE zero_node \<noteq> []" by (simp add: PIECE_POOL_SIZE_def)
  obtain b w1 where w1: "px_malloc (hl_posix L) (40 * PIECE_POOL_SIZE) w = (b, w1)" by fastforce
  obtain m' mem' r where c: "json_create (doc @ [NUL]) (replicate PIECE_POOL_SIZE zero_node) = Some (m', mem', r)"
    and nt: "nulterm m'" and r: "r \<noteq> None \<Longrightarrow> \<exists>nf. pool_closed (length m') mem' nf"
    using json_create_run [OF m z] by (fastforce simp: run_def)
  show ?thesis
  proof (cases "b \<and> r \<noteq> None")
    case False
    with w1 c show ?thesis by (cases b) (auto simp: pieces_of_json_def run_simps)
  next
    case True
    with r obtain nf where pc: "pool_closed (length m') mem' nf" by blast
    then have nf: "0 < nf" "container (mem' ! 0)" by (auto simp: pool_closed_def)
    obtain f where f: "json_getProperty m' mem' 0 ''pieces'' = Some f"
      and fk: "\<And>k. f = Some k \<Longrightarrow> k < nf"
      using json_getProperty_run [OF nt pc nf, of "''pieces''"] by (auto simp: run_def)
    show ?thesis
    proof (cases f)
      case None
      with True w1 c f show ?thesis by (simp add: pieces_of_json_def run_simps)
    next
      case (Some k)
      note nd = pool_node [OF pc fk [OF Some]]
      have ty: "json_getType mem' k = Some (jtype (mem' ! k))" using nd(1) by (simp add: json_getType_def)
      show ?thesis
      proof (cases "jtype (mem' ! k) = JSON_ARRAY")
        case False
        with True w1 c f Some ty show ?thesis by (simp add: pieces_of_json_def run_simps)
      next
        case arr: True
        then obtain cs where cs: "ju (mem' ! k) = UChildren cs"
          using node_ok_obj [OF nd(2)] by (auto simp: container_def)
        have ch: "json_getChild mem' k = Some (map_option fst cs)"
          using nd(1) cs by (simp add: json_getChild_def)
        have lt: "\<And>i. map_option fst cs = Some i \<Longrightarrow> i < nf"
          using nd(2) cs by (fastforce simp: node_ok_def)
        note pr = pieces_run [OF nt pc lt, where jval = "map_option fst cs" and count = 0 and L = L and H = H and w = w1]
        obtain cnt w2 where
          ck: "check_pieces L m' mem' H (map_option fst cs) 0 w1 = Some (cnt, w2)"
          using runD [OF pr] by auto
        have cl: "run (collect_pieces L m' mem' H (map_option fst cs) [] w)
            (\<lambda>(r', w3). \<forall>us. r' = Some us \<longrightarrow> length us = n \<and> (\<forall>u \<in> set us. piece_ok u))"
          if "cnt = Some n" for n w
        proof -
          from run_Some_D [OF pr ck] that
          have "run (collect_pieces L m' mem' H (map_option fst cs) [] w)
            (\<lambda>(r', w3). \<forall>us. r' = Some us \<longrightarrow>
               (\<exists>vs. us = [] @ vs \<and> length vs = n - 0 \<and> (\<forall>u \<in> set vs. piece_ok u)))" by blast
          then show ?thesis by simp
        qed
        show ?thesis
        proof (cases "cnt = None \<or> cnt = Some 0")
          case True
          with \<open>b \<and> r \<noteq> None\<close> w1 c f Some ty arr ch ck show ?thesis
            by (auto simp: pieces_of_json_def run_simps)
        next
          case False
          then obtain n where n: "cnt = Some n" "n \<noteq> 0" by auto
          obtain b3 w3 where w3: "px_malloc (hl_posix L) (n * 8) w2 = (b3, w3)" by fastforce
          have "run (collect_pieces L m' mem' H (map_option fst cs) [] w3)
            (\<lambda>(r, w'). \<forall>us. r = Some us \<longrightarrow> us \<noteq> [] \<and> (\<forall>u \<in> set us. piece_ok u))"
            by (rule run_mono [OF cl [OF n(1)]]) (use n in auto)
          with \<open>b \<and> r \<noteq> None\<close> w1 c f Some ty arr ch ck n w3 show ?thesis
            by (cases b3) (auto simp: pieces_of_json_def run_simps)
        qed
      qed
    qed
  qed
qed

section \<open>Lemmas: files\<close>

text \<open>\<open>files\<close> observes the paths that exist: opening for writing may add one, unlinking removes
  it, and neither the HTTP library nor the streams touch others.\<close>

definition files_ok :: "'w pkg_env \<Rightarrow> ('w \<Rightarrow> string set) \<Rightarrow> bool" where
  "files_ok E files \<longleftrightarrow>
     http_frame (pe_http E) (\<lambda>w w'. files w' = files w) \<and>
     (\<forall>p w. files (px_unlink (hl_posix (pe_http E)) p w) = files w - {p}) \<and>
     (\<forall>p m fl w. files (snd (px_open (hl_posix (pe_http E)) p m fl w)) \<in> {files w, insert p (files w)}) \<and>
     (\<forall>fd d w. files (snd (px_write (hl_posix (pe_http E)) fd d w)) = files w) \<and>
     (\<forall>fd w. files (px_close (hl_posix (pe_http E)) fd w) = files w) \<and>
     (\<forall>p w. files (snd (pe_fopen E p w)) =
        (if fst (fst (pe_fopen E p w)) = None then files w else insert p (files w))) \<and>
     (\<forall>fp s w. files (pe_fputs E fp s w) = files w) \<and>
     (\<forall>fp w. files (pe_fclose E fp w) = files w)"

lemma files_okD:
  assumes "files_ok E files"
  shows "http_frame (pe_http E) (\<lambda>w w'. files w' = files w)"
    and "files (px_unlink (hl_posix (pe_http E)) p w) = files w - {p}"
    and "files (snd (px_open (hl_posix (pe_http E)) p m fl w)) \<in> {files w, insert p (files w)}"
    and "files (snd (px_write (hl_posix (pe_http E)) fd d w)) = files w"
    and "files (px_close (hl_posix (pe_http E)) fd w) = files w"
    and "files (snd (pe_fopen E p w)) =
        (if fst (fst (pe_fopen E p w)) = None then files w else insert p (files w))"
    and "files (pe_fputs E fp s w) = files w"
    and "files (pe_fclose E fp w) = files w"
  using assms by (simp_all add: files_ok_def)

text \<open>Outside a set of paths nothing changes.\<close>

lemma write_file_trunc_files:
  assumes ok: "files_ok E files" and X: "p \<in> X"
    and r: "write_file_trunc (hl_posix (pe_http E)) fl p d m w = Some (x, w')"
  shows "files w' - X = files w - X"
proof (rule write_file_trunc_keeps [where obs = "\<lambda>w. files w - X", OF _ _ _ r])
  fix w
  show "files (snd (px_open (hl_posix (pe_http E)) p (Some m) fl w)) - X = files w - X"
    using files_okD(3) [OF ok, of p "Some m" fl w] X by auto
qed (simp_all add: files_okD(4,5) [OF ok])

lemma unlink_all_files:
  assumes ok: "files_ok E files"
  shows "files (unlink_all (hl_posix (pe_http E)) ps w) = files w - set ps"
proof (induction ps arbitrary: w)
  case (Cons p ps)
  show ?case unfolding unlink_all_def
    using Cons.IH [of "px_unlink (hl_posix (pe_http E)) p w"] files_okD(2) [OF ok, of p w]
    by (auto simp: unlink_all_def)
qed (simp add: unlink_all_def)

lemma fetch_exact_files:
  assumes ok: "files_ok E files" and r: "fetch_exact E u n off e s v H w = Some (x, H', w')"
  shows "files w' = files w"
proof -
  obtain d H1 w1 where 1: "http_download_file (pe_http E) (Some u) (Some n) off v H w = Some (d, H1, w1)"
    using r by (auto simp: fetch_exact_def split: option.splits)
  with r have "w' = w1" by (auto simp: fetch_exact_def split: option.splits if_splits)
  with http_download_file_frame [OF files_okD(1) [OF ok] 1] show ?thesis by simp
qed

text \<open>The phases after the header only add a check to such a download.\<close>

lemma pkg_phases_files:
  assumes ok: "files_ok E files"
  shows "pkg_fetch_header E u v H w = Some (y, H', w') \<Longrightarrow> files w' = files w"
    and "pkg_fetch_table E u hdr v H w = Some (z, H', w') \<Longrightarrow> files w' = files w"
    and "pkg_fetch_sfo E u f v H w = Some (s, H', w') \<Longrightarrow> files w' = files w"
    and "pkg_fetch_icon E u f v H w = Some (s, H', w') \<Longrightarrow> files w' = files w"
proof -
  note fx = fetch_exact_files [OF ok]
  { assume r: "pkg_fetch_header E u v H w = Some (y, H', w')"
    then obtain x where "fetch_exact E u (word_of_nat SIZEOF_PKG_HEADER) 0
        (''Unable to download package header for '' @ quoted u @ ''.'' @ [CHR 0x0A])
        (''Package header size mismatch for '' @ quoted u @ ''.'' @ [CHR 0x0A]) v H w = Some (x, H', w')"
      unfolding pkg_fetch_header_def Let_def by (auto split: option.splits sum.splits if_splits prod.splits)
    from fx [OF this] show "files w' = files w" . }
  { assume r: "pkg_fetch_table E u hdr v H w = Some (z, H', w')"
    show "files w' = files w"
    proof (cases "(word_of_nat (unat (h_entry_count hdr) * SIZEOF_PKG_TABLE_ENTRY) :: u64) = 0")
      case True
      with r show ?thesis by (simp add: pkg_fetch_table_def Let_def)
    next
      case False
      with r obtain x where "fetch_exact E u (word_of_nat (unat (h_entry_count hdr) * SIZEOF_PKG_TABLE_ENTRY))
          (ucast (h_entry_table_offset hdr))
          (''Unable to download package entry table for '' @ quoted u @ ''.'' @ [CHR 0x0A])
          (''Package entry table size mismatch for '' @ quoted u @ ''.'' @ [CHR 0x0A]) v H w = Some (x, H', w')"
        unfolding pkg_fetch_table_def Let_def by (auto split: option.splits sum.splits if_splits prod.splits)
      from fx [OF this] show ?thesis .
    qed }
  { assume r: "pkg_fetch_sfo E u f v H w = Some (s, H', w')"
    then obtain x where "fetch_exact E u (ucast (f_sfo_size f)) (ucast (f_sfo_offset f))
        (''Unable to download param.sfo for '' @ quoted u @ ''.'' @ [CHR 0x0A])
        (''param.sfo size mismatch for '' @ quoted u @ ''.'' @ [CHR 0x0A]) v H w = Some (x, H', w')"
      unfolding pkg_fetch_sfo_def by (auto split: option.splits sum.splits if_splits prod.splits)
    from fx [OF this] show "files w' = files w" . }
  { assume r: "pkg_fetch_icon E u f v H w = Some (s, H', w')"
    show "files w' = files w"
    proof (cases "has_icon f")
      case False
      with r show ?thesis by (simp add: pkg_fetch_icon_def)
    next
      case True
      with r obtain x where "fetch_exact E u (ucast (f_icon_size f)) (ucast (f_icon_offset f))
          (''Unable to download icon0.png for '' @ quoted u @ ''.'' @ [CHR 0x0A])
          (''icon0.png size mismatch for '' @ quoted u @ ''.'' @ [CHR 0x0A]) v H w = Some (x, H', w')"
        unfolding pkg_fetch_icon_def by (auto split: option.splits sum.splits if_splits prod.splits)
      from fx [OF this] show ?thesis .
    qed }
qed

lemma pkg_fetch_all_files:
  assumes ok: "files_ok E files" and r: "pkg_fetch_all E urls v H w = Some (b, x, H', w')"
  shows "files w' = files w"
proof -
  note F = pkg_phases_files [OF ok]
  let ?u = "hd urls"
  obtain r1 H1 w1 where 1: "pkg_fetch_header E ?u v H w = Some (r1, H1, w1)"
    using r by (auto simp: pkg_fetch_all_def Let_def split: option.splits)
  note w1 = F(1) [OF 1]
  show ?thesis
  proof (cases r1)
    case (Inl e)
    with r 1 w1 show ?thesis by (simp add: pkg_fetch_all_def Let_def)
  next
    case (Inr p)
    obtain hdr tot where p: "p = (hdr, tot)" by (cases p)
    show ?thesis
    proof (cases "length urls = 1 \<and> 0 < h_package_size hdr \<and> tot \<noteq> h_package_size hdr")
      case True
      with r 1 w1 Inr p show ?thesis by (simp add: pkg_fetch_all_def Let_def)
    next
      case sz: False
      obtain r2 H2 w2 where 2: "pkg_fetch_table E ?u hdr v H1 w1 = Some (r2, H2, w2)"
        using r 1 Inr p sz unfolding pkg_fetch_all_def Let_def by (cases "pkg_fetch_table E ?u hdr v H1 w1") auto
      note w2 = F(2) [OF 2, unfolded w1]
      note step = r [unfolded pkg_fetch_all_def Let_def 1 Inr p option.case prod.case sum.case if_not_P [OF sz] 2]
      show ?thesis
      proof (cases r2)
        case (Inl e)
        with step w2 show ?thesis by simp
      next
        case f: (Inr f)
        obtain r3 H3 w3 where 3: "pkg_fetch_sfo E ?u f v H2 w2 = Some (r3, H3, w3)"
          using step f by (cases "pkg_fetch_sfo E ?u f v H2 w2") auto
        note w3 = F(3) [OF 3, unfolded w2]
        show ?thesis
        proof (cases r3)
          case (Inl e)
          with step f 3 w3 show ?thesis by simp
        next
          case (Inr sd)
          with step f 3 obtain r4 H4 w4 where 4: "pkg_fetch_icon E ?u f v H3 w3 = Some (r4, H4, w4)"
            and "w' = w4" by (cases "pkg_fetch_icon E ?u f v H3 w3") (auto split: sum.splits)
          with F(4) [OF 4] w3 show ?thesis by simp
        qed
      qed
    qed
  qed
qed

lemma write_pieces_files:
  assumes ok: "files_ok E files"
  shows "write_pieces E fp digest v first off tot urls H w = Some (x, H', w') \<Longrightarrow> files w' = files w"
proof (induction urls arbitrary: first off tot H w)
  case (Cons u us)
  let ?sz = "if first then Some (Some tot, H, w) else http_get_file_size (pe_http E) (Some u) v H w"
  obtain n H1 w1 where sz: "?sz = Some (n, H1, w1)"
    using Cons.prems by (auto split: option.splits)
  have w1: "files w1 = files w"
    using sz http_get_file_size_frame [OF files_okD(1) [OF ok]] by (auto split: if_splits)
  show ?case
  proof (cases n)
    case None
    with Cons.prems sz w1 show ?thesis by simp
  next
    case (Some k)
    let ?w2 = "pe_fputs E fp (ref_piece u off k digest) w1"
    let ?w3 = "if us \<noteq> [] then pe_fputs E fp '','' ?w2 else ?w2"
    have "write_pieces E fp digest v False (off + k) k us H1 ?w3 = Some (x, H', w')"
      using Cons.prems sz Some by (simp add: Let_def)
    from Cons.IH [OF this] w1 show ?thesis by (auto simp: files_okD(7) [OF ok] split: if_splits)
  qed
qed simp

lemma pkg_write_files_files:
  assumes ok: "files_ok E files" and X: "sfo \<in> X" "icon \<in> X"
    and r: "pkg_write_files E fp urls sfo icon hdr tot f sd idt pd qd v H w = Some (x, H', w')"
  shows "files w' - X = files w - X"
proof -
  note D = files_okD(7) [OF ok]
  let ?w0 = "pe_fputs E fp (ref_head (h_package_size hdr) pd (length urls)) w"
  let ?P = "hl_posix (pe_http E)" and ?T = "O_TRUNC (pe_http E)"
  obtain r1 H1 w1 where 1: "write_pieces E fp qd v True 0 tot urls H ?w0 = Some (r1, H1, w1)"
    using r by (auto simp: pkg_write_files_def Let_def split: option.splits)
  have w1: "files w1 = files w" using write_pieces_files [OF ok 1] D by simp
  note step = r [unfolded pkg_write_files_def Let_def 1 option.case prod.case]
  show ?thesis
  proof (cases r1)
    case (Inl e)
    with step w1 show ?thesis by simp
  next
    case (Inr off)
    let ?w2 = "pe_fputs E fp '']}'' w1"
    show ?thesis
    proof (cases "0 < h_package_size hdr \<and> off \<noteq> h_package_size hdr")
      case True
      with step Inr have "w' = ?w2" by auto
      with w1 D show ?thesis by simp
    next
      case sz: False
      note step2 = step [unfolded Inr sum.case if_not_P [OF sz]]
      obtain b3 n3 w3 where 3: "write_file_trunc ?P ?T sfo sd 384 ?w2 = Some ((b3, n3), w3)"
        using step2 by (auto split: option.splits)
      have w3: "files w3 - X = files w - X"
        using write_file_trunc_files [OF ok X(1) 3] D w1 by simp
      show ?thesis
      proof (cases "\<not> b3 \<or> \<not> has_icon f")
        case True
        with step2 3 w3 show ?thesis by (auto split: if_splits)
      next
        case False
        with step2 3 obtain b4 n4 w4 where 4: "write_file_trunc ?P ?T icon idt 384 w3 = Some ((b4, n4), w4)"
          and "w' = w4" by (auto split: option.splits if_splits)
        with write_file_trunc_files [OF ok X(2) 4] w3 show ?thesis by simp
      qed
    qed
  qed
qed

lemma pkg_setup_files:
  assumes ok: "files_ok E files" and args: "pkg_check_args urls ref sfo icon = None"
    and r: "pkg_setup_prerequisites E urls ref sfo icon n v H w = Some (ps, H', w')"
  shows "files w' - {ref, sfo, icon} = files w - {ref, sfo, icon}"
    and "ps_ok ps = None \<Longrightarrow> files w' \<inter> {ref, sfo, icon} = {}"
proof -
  let ?X = "{ref, sfo, icon}" and ?P = "hl_posix (pe_http E)" and ?urls = "the urls"
  note U = unlink_all_files [OF ok]
  note D = files_okD(8) [OF ok]
  let ?w0 = "unlink_all ?P [ref, sfo, icon] w"
  have w0: "files ?w0 = files w - ?X" by (simp add: U)
  obtain patch r1 H1 w1 where 1: "pkg_fetch_all E ?urls v H ?w0 = Some (patch, r1, H1, w1)"
    using r args by (auto simp: pkg_setup_prerequisites_def Let_def split: option.splits)
  have w1: "files w1 = files w - ?X" using pkg_fetch_all_files [OF ok 1] w0 by simp
  note step = r [unfolded pkg_setup_prerequisites_def args Let_def 1 option.case prod.case]
  have "files w' - ?X = files w - ?X \<and> (ps_ok ps = None \<longrightarrow> files w' \<inter> ?X = {})"
  proof (cases r1)
    case (Inl e)
    with step w1 show ?thesis by auto
  next
    case (Inr q)
    obtain hdr tot f sd idt where q: "q = (hdr, tot, f, sd, idt)" by (cases q)
    obtain rc pd rc' qd where b:
      "bytes_to_hex (pe_errors E) (Some (PKG_DIGEST_SIZE * 2 + 1)) (Some (h_digest hdr)) = (rc, pd)"
      "bytes_to_hex (pe_errors E) (Some (PKG_MINI_DIGEST_SIZE * 2 + 1)) (Some (replicate PKG_MINI_DIGEST_SIZE NUL)) = (rc', qd)"
      by fastforce
    note step2 = step [unfolded Inr q sum.case prod.case b]
    show ?thesis
    proof (cases "rc \<noteq> 0 \<or> rc' \<noteq> 0")
      case True
      with step2 w1 show ?thesis by auto
    next
      case rc: False
      obtain fpo errno w2 where fo: "pe_fopen E ref w1 = ((fpo, errno), w2)" by (metis prod.collapse)
      have w2: "files w2 = (if fpo = None then files w1 else insert ref (files w1))"
        using files_okD(6) [OF ok, of ref w1] fo by simp
      show ?thesis
      proof (cases fpo)
        case None
        with step2 rc fo have "w' = w2" "ps_ok ps = None" by (auto simp: setup_error_def)
        with w2 w1 None show ?thesis by auto
      next
        case (Some fp)
        note step3 = step2 [unfolded if_not_P [OF rc] fo prod.case Some option.case]
        obtain r4 H4 w4 where 4: "pkg_write_files E fp ?urls sfo icon hdr tot f sd idt (the pd) (the qd) v H1 w2
            = Some (r4, H4, w4)"
          using step3 by (auto split: option.splits)
        have w4: "files w4 - ?X = files w - ?X"
          using pkg_write_files_files [OF ok _ _ 4, of ?X] w2 w1 Some by auto
        note step4 = step3 [unfolded 4 option.case prod.case]
        show ?thesis
        proof (cases r4)
          case (Inl e)
          with step4 have "w' = unlink_all ?P [icon, sfo, ref] (pe_fclose E fp w4)" by auto
          then have "files w' = files w4 - set [icon, sfo, ref]" by (simp only: U D)
          moreover have "set [icon, sfo, ref] = ?X" by auto
          ultimately have "files w' = files w4 - ?X" by (simp only:)
          with w4 show ?thesis by blast
        next
          case (Inr u)
          have "\<lparr>ps_ok = Some (h_content_type hdr, h_package_size hdr, has_icon f),
              ps_is_patch = patch, ps_error = []\<rparr> = ps" and "pe_fclose E fp w4 = w'"
            using step4 [unfolded Inr sum.case] by (simp_all split: unit.splits)
          with D [of fp w4] w4 show ?thesis by fastforce
        qed
      qed
    qed
  qed
  then show "files w' - ?X = files w - ?X" and "ps_ok ps = None \<Longrightarrow> files w' \<inter> ?X = {}" by blast+
qed

section \<open>A small device\<close>

text \<open>A library that cannot arm TLS checks and otherwise answers every read with as much of eight
  bytes as was asked for, a file system that is the list of its paths, and one stream.\<close>

type_synonym shelf = "string list \<times> string"

definition shelf_posix :: "shelf posix" where
  "shelf_posix =
     \<lparr>px_malloc = (\<lambda>n w. (True, w)), px_open = (\<lambda>p m fl w. (3, (p # fst w, snd w))),
      px_fstat = (\<lambda>fd w. (None, w)), px_read = (\<lambda>fd n w. ((0, []), w)),
      px_write = (\<lambda>fd d w. (int (length d), w)), px_close = (\<lambda>fd w. w),
      px_unlink = (\<lambda>p w. (filter (\<lambda>q. q \<noteq> p) (fst w), snd w)), px_stat = (\<lambda>p w. ((-1, False), w))\<rparr>"

definition shelf_http :: "shelf http_lib" where
  "shelf_http =
     \<lparr>hl_posix = shelf_posix,
      sceSslInit = (\<lambda>n w. (1, w)), sceSslTerm = (\<lambda>i w. (0, w)),
      sceHttpInit = (\<lambda>m s n w. (1, w)), sceHttpTerm = (\<lambda>i w. (0, w)),
      sceHttpCreateTemplate = (\<lambda>c w. (1, w)), sceHttpDeleteTemplate = (\<lambda>i w. (0, w)),
      sceHttpsEnableOption = (\<lambda>i f w. (7, w)), sceHttpsDisableOption = (\<lambda>i f w. (0, w)),
      sceHttpsLoadCert = (\<lambda>i d w. (0, w)), sceHttpsUnloadCert = (\<lambda>i w. (0, w)),
      sceHttpCreateConnectionWithURL = (\<lambda>i u w. (1, w)), sceHttpDeleteConnection = (\<lambda>i w. (0, w)),
      sceHttpCreateRequestWithURL = (\<lambda>i m u n w. (1, w)), sceHttpDeleteRequest = (\<lambda>i w. (0, w)),
      sceHttpAddRequestHeader = (\<lambda>i n v w. (0, w)), sceHttpSendRequest = (\<lambda>i d w. (0, w)),
      sceHttpGetLastErrno = (\<lambda>i w. ((0, 0), w)), sceHttpGetStatusCode = (\<lambda>i w. ((0, 206), w)),
      sceHttpGetResponseContentLength = (\<lambda>i w. ((0, 0, 8), w)),
      sceHttpReadData = (\<lambda>i n w. ((word_of_nat (min n 8), take n ''not a pk''), w)),
      sceHttpUriUnescape = (\<lambda>n s w. ((0, length s + 1, s), w)),
      sceNpUtilJsonEscape = (\<lambda>n s w. ((0, s), w)),
      ORBIS_HTTP_CONTENTLEN_EXIST = 0, ORBIS_METHOD_GET = 0, O_TRUNC = 0x400\<rparr>"

definition shelf_env :: "shelf pkg_env" where
  "shelf_env = \<lparr>pe_http = shelf_http, pe_fopen = (\<lambda>p w. ((Some 1, 0), (p # fst w, []))),
     pe_fputs = (\<lambda>fp s w. (fst w, snd w @ s)), pe_fclose = (\<lambda>fp w. w),
     pe_errors = \<lparr>ORBIS_EINVAL = 22, ORBIS_ENOSPC = 28, ORBIS_ENXIO = 6\<rparr>\<rparr>"

lemma shelf_frame: "reflp R \<Longrightarrow> transp R \<Longrightarrow> http_frame shelf_http R"
  by (simp add: http_frame_def shelf_http_def shelf_posix_def reflpD)

lemma shelf_http_simps [simp]: "hl_posix shelf_http = shelf_posix" "pe_http shelf_env = shelf_http"
  by (simp_all add: shelf_http_def shelf_env_def)

lemma shelf_files_ok: "files_ok shelf_env (\<lambda>w. set (fst w))"
  unfolding files_ok_def shelf_http_simps
  by (intro conjI shelf_frame) (auto simp: shelf_env_def shelf_posix_def intro!: reflpI transpI)

lemma shelf_stream_ok: "stream_ok shelf_env (\<lambda>fp w. snd w)"
  unfolding stream_ok_def shelf_http_simps
  by (intro conjI allI shelf_frame) (auto simp: shelf_env_def shelf_posix_def intro!: reflpI transpI)

section \<open>Properties\<close>

text \<open>C33: A content identifier is accepted exactly when it has 36 characters, two dashes, the
  second at position 19, and an underscore after the first; its parts are then the first 19
  characters, the nine characters after the first dash, and the 16 after the second.  Nothing
  more is required: the title identifier may be any nine characters.\<close>

theorem content_id_parsed_iff:
  "pkg_parse_content_id (Some c) = Some info
     \<longleftrightarrow> (\<exists>i. content_id_shape c i \<and> info = content_id_fields c i)"
proof
  assume p: "pkg_parse_content_id (Some c) = Some info"
  with parse_content_id_shape obtain i where i: "content_id_shape c i" by blast
  with content_id_shape_parse p have "info = content_id_fields c i" by auto
  with i show "\<exists>i. content_id_shape c i \<and> info = content_id_fields c i" by blast
qed (use content_id_shape_parse in auto)

text \<open>Scanning the entry table keeps, for \<open>param.sfo\<close> and \<open>icon0.png\<close> independently, the
  offset and size of the last entry with their identifier, or zero if there is none.\<close>

theorem scan_entries_last_wins:
  "f_sfo_offset (scan_entries tbl 0 n found_none)
      = found_at (entry_offset tbl) 0 (last_entry tbl PKG_ENTRY_ID__PARAM_SFO n)
   \<and> f_sfo_size (scan_entries tbl 0 n found_none)
      = found_at (entry_size tbl) 0 (last_entry tbl PKG_ENTRY_ID__PARAM_SFO n)
   \<and> f_icon_offset (scan_entries tbl 0 n found_none)
      = found_at (entry_offset tbl) 0 (last_entry tbl PKG_ENTRY_ID__ICON0_PNG n)
   \<and> f_icon_size (scan_entries tbl 0 n found_none)
      = found_at (entry_size tbl) 0 (last_entry tbl PKG_ENTRY_ID__ICON0_PNG n)"
  unfolding scan_entries_spec by simp

text \<open>A package counts as a patch exactly when one of the bits 20, 24, 29 and 30 of its
  content flags is set: the delta and cumulative flags are tested bit by bit, not as values.\<close>

theorem pkg_is_patch_bits:
  "pkg_is_patch hdr \<longleftrightarrow> (\<exists>k \<in> {20, 24, 29, 30}. bit (h_content_flags hdr) k)"
proof -
  have "(0x61100000 :: u32) = push_bit 20 1 OR (push_bit 24 1 OR (push_bit 29 1 OR push_bit 30 1))" by simp
  then show ?thesis
    unfolding pkg_is_patch_mask bit_iff_and_push_bit_not_eq_0
    by (simp only: bit.conj_disj_distrib or_eq_0_iff) blast
qed

text \<open>C29: Whatever the server sends as a reference package document and whatever allocation
  does, extracting the piece addresses returns: the parser's pool is never overrun, the second
  pass yields as many addresses as the first counted (which is what the array was allocated
  for), and every address is percent-encoded text that needs no escaping in JSON.\<close>

theorem piece_urls_safe:
  "\<exists>r w'. pieces_of_json L doc H w = Some (r, w')
     \<and> (\<forall>us. r = Some us \<longrightarrow> us \<noteq> [] \<and> (\<forall>u \<in> set us. piece_ok u))"
  using pieces_of_json_run [of L doc H w] by (auto simp: run_def)

theorem piece_urls_safe_witness:
  "\<exists>w'. pieces_of_json shelf_http ([CHR ''{'', CHR 0x22] @ ''pieces'' @ [CHR 0x22] @ '':[{'' @ [CHR 0x22] @ ''url''
       @ [CHR 0x22, CHR '':'', CHR 0x22] @ ''http://h/a b'' @ [CHR 0x22] @ ''}]}'') ready ([], [])
     = Some (Some [''http://h/a%20b''], w') \<and> piece_ok ''http://h/a%20b''"
proof -
  let ?doc = "[CHR ''{'', CHR 0x22] @ ''pieces'' @ [CHR 0x22] @ '':[{'' @ [CHR 0x22] @ ''url''
       @ [CHR 0x22, CHR '':'', CHR 0x22] @ ''http://h/a b'' @ [CHR 0x22] @ ''}]}''"
  have v: "map_option fst (pieces_of_json shelf_http ?doc ready ([], [])) = Some (Some [''http://h/a%20b''])"
    by code_simp
  obtain r w' where r: "pieces_of_json shelf_http ?doc ready ([], []) = Some (r, w')"
    and s: "\<forall>us. r = Some us \<longrightarrow> us \<noteq> [] \<and> (\<forall>u \<in> set us. piece_ok u)"
    using piece_urls_safe [of shelf_http ?doc ready "([], [])"] by (elim exE conjE)
  from v r have "r = Some [''http://h/a%20b'']" by (simp only: option.map fst_conv option.inject)
  with r s show ?thesis by (intro exI [of _ w'] conjI) simp_all
qed

text \<open>C8: Preparing an installation with valid arguments creates and removes no file but the
  three it was given, and when it fails none of the three is left, not even one that was there
  before.\<close>

theorem setup_leaves_no_files:
  assumes "files_ok E files" and "pkg_check_args urls ref sfo icon = None"
    and "pkg_setup_prerequisites E urls ref sfo icon n v H w = Some (ps, H', w')"
  shows "files w' - {ref, sfo, icon} = files w - {ref, sfo, icon}
    \<and> (ps_ok ps = None \<longrightarrow> files w' \<inter> {ref, sfo, icon} = {})"
  using pkg_setup_files [OF assms] by blast

theorem setup_leaves_no_files_witness:
  "case pkg_setup_prerequisites shelf_env (Some [''http://h/p'']) ''ref'' ''sfo'' ''icon'' 64 HTTP_SSL_VERIFY_ON ready ([''a'', ''ref''], []) of
     None \<Rightarrow> False
   | Some (ps, H', w') \<Rightarrow> ps_ok ps = None \<and> set (fst w') = {''a''}"
proof -
  let ?s = "pkg_setup_prerequisites shelf_env (Some [''http://h/p'']) ''ref'' ''sfo'' ''icon'' 64 HTTP_SSL_VERIFY_ON ready
      ([''a'', ''ref''], [])"
  let ?v = HTTP_SSL_VERIFY_ON
  have d: "\<exists>H'. http_download_file shelf_http (Some u) n off ?v ready w = Some (None, H', w)"
    for u n off and w :: shelf
    by (simp add: http_download_file_def do_request_def template_body_def apply_ssl_options_def
        shelf_http_def ready_def http_clear_last_error_def args_zero_def set_last_error_def
        resolve_ssl_verify_def ssl_mode_defs Let_def SCE_HTTP_ERROR_INVALID_VALUE_def)
  have h: "\<exists>e H'. pkg_fetch_header shelf_env u ?v ready w = Some (Inl e, H', w)" for u and w :: shelf
    using d [of u "Some (word_of_nat SIZEOF_PKG_HEADER)" 0 w]
    by (auto simp: pkg_fetch_header_def fetch_exact_def)
  let ?w = "unlink_all shelf_posix [''ref'', ''sfo'', ''icon''] ([''a'', ''ref''], [])"
  obtain e H' where f: "pkg_fetch_all shelf_env [''http://h/p''] ?v ready ?w = Some (None, Inl e, H', ?w)"
    using h [of "''http://h/p''" ?w] by (auto simp: pkg_fetch_all_def)
  have a: "pkg_check_args (Some [''http://h/p'']) ''ref'' ''sfo'' ''icon'' = None"
    by (simp add: pkg_check_args_def)
  have "?s = Some (setup_error 64 None e, H', ?w)"
    unfolding pkg_setup_prerequisites_def a Let_def option.sel option.case shelf_http_simps f prod.case sum.case ..
  moreover have "ps_ok (setup_error 64 None e) = None" by (simp add: setup_error_def)
  ultimately obtain ps H' w' where s: "?s = Some (ps, H', w')" and ps: "ps_ok ps = None" by iprover
  note r = setup_leaves_no_files [OF shelf_files_ok a s]
  have "set (fst w') = (set (fst w') - {''ref'', ''sfo'', ''icon''}) \<union> (set (fst w') \<inter> {''ref'', ''sfo'', ''icon''})"
    by (rule Un_Diff_Int [symmetric])
  also have "\<dots> = set (fst ([''a'', ''ref''], [] :: string)) - {''ref'', ''sfo'', ''icon''}"
    using r ps by (elim conjE) (simp only: simp_thms Un_empty_right)
  also have "\<dots> = {''a''}" by (simp add: insert_Diff_if)
  finally have "set (fst w') = {''a''}" .
  with s ps show ?thesis by simp
qed

text \<open>C23: The reference document that a successful run writes is the one the console expects:
  the header values, then one entry per address in the order given, each offset the sum of the
  sizes before it, the first with the size found while downloading the header; when the header
  announces a package size, the sizes add up to it.\<close>

theorem reference_document_written:
  assumes "stream_ok E written" and "urls \<noteq> []"
    and "pkg_write_files E fp urls sfo icon hdr tot f sd idt pd qd v H w = Some (Inr (), H', w')"
  shows "\<exists>ps. map fst ps = urls \<and> snd (hd ps) = tot
    \<and> written fp w' = written fp w @ ref_document (h_package_size hdr) pd qd ps
    \<and> (0 < h_package_size hdr \<longrightarrow> sum_list (map snd ps) = h_package_size hdr)"
  using assms by (rule pkg_write_files_ref)

theorem reference_document_written_witness:
  "\<exists>hdr H' w'. h_package_size hdr = 15
     \<and> pkg_write_files shelf_env 1 [''http://h/a'', ''http://h/b''] ''sfo'' ''icon'' hdr 7 found_none ''x'' [] ''d'' ''q'' HTTP_SSL_VERIFY_OFF ready ([], [])
       = Some (Inr (), H', w') \<and> (\<exists>ps. length ps = 2 \<and> snd w' = ref_document 15 ''d'' ''q'' ps)"
proof -
  let ?hdr = "(pkg_header_of []) \<lparr>h_package_size := 15\<rparr>"
  let ?f = "pkg_write_files shelf_env 1 [''http://h/a'', ''http://h/b''] ''sfo'' ''icon'' ?hdr 7 found_none ''x'' [] ''d'' ''q'' HTTP_SSL_VERIFY_OFF ready ([], [])"
  have "map_option (\<lambda>(r, H', w'). r) ?f = Some (Inr ())" by code_simp
  then obtain H' w' where f: "?f = Some (Inr (), H', w')" by auto
  have s: "h_package_size ?hdr = 15" by simp
  have "\<exists>ps. map fst ps = [''http://h/a'', ''http://h/b''] \<and> snd w' = ref_document 15 ''d'' ''q'' ps"
    using reference_document_written [OF shelf_stream_ok list.simps(3) f, unfolded s snd_conv append_Nil]
    by (elim exE conjE, intro exI conjI)
  then obtain ps where ps: "map fst ps = [''http://h/a'', ''http://h/b'']"
    "snd w' = ref_document 15 ''d'' ''q'' ps" by (elim exE conjE)
  from arg_cong [OF ps(1), of length] have "length ps = 2" by simp
  moreover note ps(2)
  ultimately show ?thesis using f by (intro exI [of _ ?hdr] exI [of _ H'] exI [of _ w'] conjI exI [of _ ps]) simp_all
qed

end
