(* ===== verification/Lifecycle.thy ===== *)
theory Lifecycle
  imports Prelude
begin

text \<open>
  The contract that the libraries of the program share: a flag says whether the library is up,
  starting one that is up and stopping one that is down do nothing, and a failed start leaves it
  down.  \<open>owning_cycle\<close> adds what a library holds while it is up.  A start is an option because
  starting the HTTP library parses a file.
\<close>

datatype cycle_call = Start | Stop

locale service_cycle =
  fixes up :: "'s \<Rightarrow> bool"
    and start :: "'s \<Rightarrow> 'w \<Rightarrow> (bool \<times> 's \<times> 'w) option"
    and stop :: "'s \<Rightarrow> 'w \<Rightarrow> 's \<times> 'w"
  assumes start_up: "start s w = Some (ok, s', w') \<Longrightarrow> up s' \<longleftrightarrow> ok"
    and start_again: "up s \<Longrightarrow> start s w = Some (True, s, w)"
    and stop_down: "stop s w = (s', w') \<Longrightarrow> \<not> up s'"
    and stop_again: "\<not> up s \<Longrightarrow> stop s w = (s, w)"
begin

lemma start_twice: "start s w = Some (True, s', w') \<Longrightarrow> start s' v = Some (True, s', v)"
  using start_up start_again by blast

lemma start_fail_stop: "start s w = Some (False, s', w') \<Longrightarrow> stop s' v = (s', v)"
  using start_up stop_again by blast

lemma stop_twice: "stop s w = (s', w') \<Longrightarrow> stop s' v = (s', v)"
  using stop_down stop_again by blast

lemma already_up: "up s \<Longrightarrow> start s w = Some (ok, s', w') \<Longrightarrow> ok \<and> s' = s \<and> w' = w"
  using start_again [of s w] by auto

end

text \<open>A sequence of calls; only the state and the world are followed.\<close>

fun cycle_run ::
    "('s \<Rightarrow> 'w \<Rightarrow> (bool \<times> 's \<times> 'w) option) \<Rightarrow> ('s \<Rightarrow> 'w \<Rightarrow> 's \<times> 'w) \<Rightarrow> cycle_call list \<Rightarrow> 's \<Rightarrow> 'w
      \<Rightarrow> ('s \<times> 'w) option" where
  "cycle_run start stop [] s w = Some (s, w)"
| "cycle_run start stop (Start # cs) s w =
     (case start s w of None \<Rightarrow> None | Some (ok, s, w) \<Rightarrow> cycle_run start stop cs s w)"
| "cycle_run start stop (Stop # cs) s w = (case stop s w of (s, w) \<Rightarrow> cycle_run start stop cs s w)"

lemma cycle_run_append:
  "cycle_run start stop (as @ bs) s w =
     (case cycle_run start stop as s w of None \<Rightarrow> None | Some (s, w) \<Rightarrow> cycle_run start stop bs s w)"
  by (induction start stop as s w rule: cycle_run.induct) (auto split: option.splits prod.splits)

locale owning_cycle = service_cycle up start stop
  for up :: "'s \<Rightarrow> bool"
    and start :: "'s \<Rightarrow> 'w \<Rightarrow> (bool \<times> 's \<times> 'w) option"
    and stop :: "'s \<Rightarrow> 'w \<Rightarrow> 's \<times> 'w" +
  fixes owns :: "'s \<Rightarrow> bool"
  assumes start_owns: "owns s \<longleftrightarrow> up s \<Longrightarrow> start s w = Some (ok, s', w') \<Longrightarrow> owns s' \<longleftrightarrow> up s'"
    and stop_owns: "owns s \<longleftrightarrow> up s \<Longrightarrow> stop s w = (s', w') \<Longrightarrow> owns s' \<longleftrightarrow> up s'"
begin

text \<open>Over any sequence of calls the library holds its resource exactly while it is up.\<close>

lemma cycle_owns: "owns s \<longleftrightarrow> up s \<Longrightarrow> cycle_run start stop cs s w = Some (s', w') \<Longrightarrow> owns s' \<longleftrightarrow> up s'"
proof (induction cs arbitrary: s w)
  case (Cons c cs)
  show ?case
  proof (cases c)
    case Start
    with Cons.prems obtain ok s1 w1 where "start s w = Some (ok, s1, w1)"
      and "cycle_run start stop cs s1 w1 = Some (s', w')" by (auto split: option.splits)
    with Cons.IH Cons.prems(1) start_owns show ?thesis by blast
  next
    case Stop
    with Cons.prems obtain s1 w1 where "stop s w = (s1, w1)"
      and "cycle_run start stop cs s1 w1 = Some (s', w')" by (auto split: prod.splits)
    with Cons.IH Cons.prems(1) stop_owns show ?thesis by blast
  qed
qed simp

lemma cycle_released:
  "owns s \<longleftrightarrow> up s \<Longrightarrow> cycle_run start stop (cs @ [Stop]) s w = Some (s', w') \<Longrightarrow> \<not> up s' \<and> \<not> owns s'"
  using cycle_owns [of s "cs @ [Stop]" w s' w'] stop_down
  by (auto simp: cycle_run_append split: option.splits prod.splits)

end

end
