(* ===== verification/Installer.thy ===== *)
theory Installer
  imports Pkg Lifecycle
begin

text \<open>
  Model of installer.c: the application installation utility and the background transfer
  service (BGFT).  Both SDK services are the record \<open>installer_lib\<close> of functions on the world.
  Every call of installer.c returns a flag and may store a code through \<open>error\<close>: an outcome is
  the value of a successful call, if it succeeded, and the code stored, if one was stored.
\<close>

section \<open>The services\<close>

record bgft_download_param =
  entitlementType :: cint
  userId :: cint
  bgft_id :: string
  contentUrl :: string
  contentName :: string
  iconPath :: string
  playgoScenarioId :: string
  bgft_option :: cint
  packageType :: string
  packageSubType :: string
  packageSize :: u64

record bgft_progress =
  pr_bits :: u32
  pr_error_result :: cint
  pr_length :: u64
  pr_transferred :: u64
  pr_length_total :: u64
  pr_transferred_total :: u64
  pr_num_index :: u32
  pr_num_total :: u32
  pr_rest_sec :: u32
  pr_rest_sec_total :: u32
  pr_preparing_percent :: cint
  pr_local_copy_percent :: cint

text \<open>A service that stores through a pointer returns the value the variable has after the call.\<close>

record 'w installer_lib =
  il_posix :: "'w posix"
  il_errors :: sdk_errors
  sceAppInstUtilInitialize :: "'w \<Rightarrow> cint \<times> 'w"
  sceAppInstUtilTerminate :: "'w \<Rightarrow> cint \<times> 'w"
  sceAppInstUtilAppUnInstall :: "string \<Rightarrow> 'w \<Rightarrow> cint \<times> 'w"
  sceAppInstUtilAppUnInstallAddcont :: "string \<Rightarrow> string \<Rightarrow> 'w \<Rightarrow> cint \<times> 'w"
  sceAppInstUtilAppUnInstallPat :: "string \<Rightarrow> 'w \<Rightarrow> cint \<times> 'w"
  sceAppInstUtilAppUnInstallTheme :: "string \<Rightarrow> 'w \<Rightarrow> cint \<times> 'w"
  sceAppInstUtilAppExists :: "string \<Rightarrow> 'w \<Rightarrow> (cint \<times> cint) \<times> 'w"
  sceAppInstUtilAppGetSize :: "string \<Rightarrow> 'w \<Rightarrow> (cint \<times> u32) \<times> 'w"
  sceUserServiceGetForegroundUser :: "'w \<Rightarrow> (cint \<times> cint) \<times> 'w"
  sceBgftServiceIntInit :: "nat \<Rightarrow> 'w \<Rightarrow> cint \<times> 'w"
  sceBgftServiceIntTerm :: "'w \<Rightarrow> cint \<times> 'w"
  sceBgftServiceIntDownloadRegisterTask :: "bgft_download_param \<Rightarrow> 'w \<Rightarrow> (cint \<times> cint) \<times> 'w"
  sceBgftServiceIntDebugDownloadRegisterPkg :: "bgft_download_param \<Rightarrow> 'w \<Rightarrow> (cint \<times> cint) \<times> 'w"
  sceBgftServiceDownloadStartTask :: "cint \<Rightarrow> 'w \<Rightarrow> cint \<times> 'w"
  sceBgftServiceDownloadStopTask :: "cint \<Rightarrow> 'w \<Rightarrow> cint \<times> 'w"
  sceBgftServiceDownloadPauseTask :: "cint \<Rightarrow> 'w \<Rightarrow> cint \<times> 'w"
  sceBgftServiceDownloadResumeTask :: "cint \<Rightarrow> 'w \<Rightarrow> cint \<times> 'w"
  sceBgftServiceIntDownloadUnregisterTask :: "cint \<Rightarrow> 'w \<Rightarrow> cint \<times> 'w"
  sceBgftServiceIntDownloadReregisterTaskPatch :: "cint \<Rightarrow> 'w \<Rightarrow> (cint \<times> cint) \<times> 'w"
  sceBgftServiceDownloadGetProgress :: "cint \<Rightarrow> 'w \<Rightarrow> (cint \<times> bgft_progress) \<times> 'w"
  sceBgftServiceDownloadFindTaskByContentId :: "string \<Rightarrow> u32 \<Rightarrow> 'w \<Rightarrow> (cint \<times> cint) \<times> 'w"
  BGFT_TASK_OPT_DISABLE_CDN_QUERY_PARAM :: cint
  BGFT_TASK_SUB_TYPE_UNKNOWN :: u32
  BGFT_TASK_SUB_TYPE_MAX :: u32

record installer =
  s_app_inst_util_initialized :: bool
  s_bgft_initialized :: bool
  s_bgft_heap :: bool

definition installer_static :: installer where
  "installer_static = \<lparr>s_app_inst_util_initialized = False, s_bgft_initialized = False, s_bgft_heap = False\<rparr>"

type_synonym 'a outcome = "'a option \<times> cint option"

abbreviation fails_with :: "cint \<Rightarrow> 'a outcome" where
  "fails_with e \<equiv> (None, Some e)"

abbreviation succeeds :: "'a \<Rightarrow> 'a outcome" where
  "succeeds x \<equiv> (Some x, None)"

abbreviation ENXIO :: "'w installer_lib \<Rightarrow> cint" where "ENXIO L \<equiv> ORBIS_ENXIO (il_errors L)"
abbreviation EINVAL :: "'w installer_lib \<Rightarrow> cint" where "EINVAL L \<equiv> ORBIS_EINVAL (il_errors L)"

section \<open>Application installation utility\<close>

definition app_inst_util_init :: "'w installer_lib \<Rightarrow> installer \<Rightarrow> 'w \<Rightarrow> bool \<times> installer \<times> 'w" where
  "app_inst_util_init L I w =
     (if s_app_inst_util_initialized I then (True, I, w)
      else case sceAppInstUtilInitialize L w of (ret, w) \<Rightarrow>
        if ret \<noteq> 0 then (False, I\<lparr>s_app_inst_util_initialized := False\<rparr>, w)
        else (True, I\<lparr>s_app_inst_util_initialized := True\<rparr>, w))"

definition app_inst_util_fini :: "'w installer_lib \<Rightarrow> installer \<Rightarrow> 'w \<Rightarrow> installer \<times> 'w" where
  "app_inst_util_fini L I w =
     (if \<not> s_app_inst_util_initialized I then (I, w)
      else case sceAppInstUtilTerminate L w of (ret, w) \<Rightarrow>
        (I\<lparr>s_app_inst_util_initialized := False\<rparr>, w))"

definition app_inst_util_uninstall_game ::
    "'w installer_lib \<Rightarrow> string option \<Rightarrow> installer \<Rightarrow> 'w \<Rightarrow> unit outcome \<times> 'w" where
  "app_inst_util_uninstall_game L title_id I w =
     (if \<not> s_app_inst_util_initialized I then (fails_with (ENXIO L), w)
      else if title_id = None then (fails_with (EINVAL L), w)
      else case sceAppInstUtilAppUnInstall L (the title_id) w of (ret, w) \<Rightarrow>
        if ret \<noteq> 0 then (fails_with ret, w) else (succeeds (), w))"

definition app_inst_util_uninstall_ac ::
    "'w installer_lib \<Rightarrow> string option \<Rightarrow> installer \<Rightarrow> 'w \<Rightarrow> unit outcome \<times> 'w" where
  "app_inst_util_uninstall_ac L content_id I w =
     (if \<not> s_app_inst_util_initialized I then (fails_with (ENXIO L), w)
      else if content_id = None then (fails_with (EINVAL L), w)
      else case pkg_parse_content_id content_id of None \<Rightarrow> (fails_with (EINVAL L), w)
      | Some info \<Rightarrow>
          (case sceAppInstUtilAppUnInstallAddcont L (ci_title_id info) (ci_label info) w of (ret, w) \<Rightarrow>
             if ret \<noteq> 0 then (fails_with ret, w) else (succeeds (), w)))"

definition app_inst_util_uninstall_patch ::
    "'w installer_lib \<Rightarrow> string option \<Rightarrow> installer \<Rightarrow> 'w \<Rightarrow> unit outcome \<times> 'w" where
  "app_inst_util_uninstall_patch L title_id I w =
     (if \<not> s_app_inst_util_initialized I then (fails_with (ENXIO L), w)
      else if title_id = None then (fails_with (EINVAL L), w)
      else case sceAppInstUtilAppUnInstallPat L (the title_id) w of (ret, w) \<Rightarrow>
        if ret \<noteq> 0 then (fails_with ret, w) else (succeeds (), w))"

definition app_inst_util_uninstall_theme ::
    "'w installer_lib \<Rightarrow> string option \<Rightarrow> installer \<Rightarrow> 'w \<Rightarrow> unit outcome \<times> 'w" where
  "app_inst_util_uninstall_theme L content_id I w =
     (if \<not> s_app_inst_util_initialized I then (fails_with (ENXIO L), w)
      else if content_id = None then (fails_with (EINVAL L), w)
      else case sceAppInstUtilAppUnInstallTheme L (the content_id) w of (ret, w) \<Rightarrow>
        if ret \<noteq> 0 then (fails_with ret, w) else (succeeds (), w))"

text \<open>The flag is an \<open>int\<close> assigned to a \<open>bool\<close>.\<close>

definition app_inst_util_is_exists ::
    "'w installer_lib \<Rightarrow> string option \<Rightarrow> installer \<Rightarrow> 'w \<Rightarrow> bool outcome \<times> 'w" where
  "app_inst_util_is_exists L title_id I w =
     (if \<not> s_app_inst_util_initialized I then (fails_with (ENXIO L), w)
      else if title_id = None then (fails_with (EINVAL L), w)
      else case sceAppInstUtilAppExists L (the title_id) w of ((ret, flag), w) \<Rightarrow>
        if ret \<noteq> 0 then (fails_with ret, w) else (succeeds (flag \<noteq> 0), w))"

definition app_inst_util_get_size ::
    "'w installer_lib \<Rightarrow> string option \<Rightarrow> installer \<Rightarrow> 'w \<Rightarrow> u64 outcome \<times> 'w" where
  "app_inst_util_get_size L title_id I w =
     (if \<not> s_app_inst_util_initialized I then (fails_with (ENXIO L), w)
      else if title_id = None then (fails_with (EINVAL L), w)
      else case sceAppInstUtilAppGetSize L (the title_id) w of ((ret, size32), w) \<Rightarrow>
        if ret \<noteq> 0 then (fails_with ret, w) else (succeeds (ucast size32), w))"

section \<open>Background transfers\<close>

definition BGFT_HEAP_SIZE :: nat where "BGFT_HEAP_SIZE = 1 * 1024 * 1024"

definition bgft_init :: "'w installer_lib \<Rightarrow> installer \<Rightarrow> 'w \<Rightarrow> bool \<times> installer \<times> 'w" where
  "bgft_init L I w =
     (if s_bgft_initialized I then (True, I, w)
      else case px_malloc (il_posix L) BGFT_HEAP_SIZE w of (ok, w) \<Rightarrow>
        let I = I\<lparr>s_bgft_heap := ok\<rparr> in
        if \<not> ok then (False, I\<lparr>s_bgft_initialized := False\<rparr>, w)
        else case sceBgftServiceIntInit L BGFT_HEAP_SIZE w of (ret, w) \<Rightarrow>
          if ret \<noteq> 0 then (False, I\<lparr>s_bgft_heap := False, s_bgft_initialized := False\<rparr>, w)
          else (True, I\<lparr>s_bgft_initialized := True\<rparr>, w))"

definition bgft_fini :: "'w installer_lib \<Rightarrow> installer \<Rightarrow> 'w \<Rightarrow> installer \<times> 'w" where
  "bgft_fini L I w =
     (if \<not> s_bgft_initialized I then (I, w)
      else case sceBgftServiceIntTerm L w of (ret, w) \<Rightarrow>
        (I\<lparr>s_bgft_heap := False, s_bgft_initialized := False\<rparr>, w))"

definition SCE_BGFT_INVALID_TASK_ID :: cint where "SCE_BGFT_INVALID_TASK_ID = -1"
definition SCE_BGFT_ERROR_SAME_APPLICATION_ALREADY_INSTALLED :: cint where
  "SCE_BGFT_ERROR_SAME_APPLICATION_ALREADY_INSTALLED = 0x80990088"

text \<open>An application that is installed already is reported as a success with task \<open>-1\<close> and a
  stored error; a failing user service stores no error.\<close>

definition bgft_download_register_package_task ::
    "'w installer_lib \<Rightarrow> string option \<Rightarrow> string \<Rightarrow> string \<Rightarrow> string option \<Rightarrow> string \<Rightarrow> string option
      \<Rightarrow> u64 \<Rightarrow> bool \<Rightarrow> installer \<Rightarrow> 'w \<Rightarrow> cint outcome \<times> 'w" where
  "bgft_download_register_package_task L content_id content_url content_name icon_path package_type
       package_sub_type package_size is_patch I w =
     (if \<not> s_app_inst_util_initialized I then (fails_with (ENXIO L), w)
      else if \<not> s_bgft_initialized I then (fails_with (ENXIO L), w)
      else if pkg_parse_content_id content_id = None then (fails_with (EINVAL L), w)
      else case sceUserServiceGetForegroundUser L w of ((ret, user_id), w) \<Rightarrow>
        if ret \<noteq> 0 then ((None, None), w)
        else
          let params = \<lparr>entitlementType = 5, userId = user_id, bgft_id = the content_id,
                contentUrl = content_url, contentName = content_name,
                iconPath = (case icon_path of None \<Rightarrow> [] | Some p \<Rightarrow> p), playgoScenarioId = ''0'',
                bgft_option = BGFT_TASK_OPT_DISABLE_CDN_QUERY_PARAM L, packageType = package_type,
                packageSubType = (case package_sub_type of None \<Rightarrow> [] | Some p \<Rightarrow> p),
                packageSize = package_size\<rparr>
          in case (if \<not> is_patch then sceBgftServiceIntDownloadRegisterTask L params w
                   else sceBgftServiceIntDebugDownloadRegisterPkg L params w) of
            ((ret, task_id), w) \<Rightarrow>
              if ret \<noteq> 0 then
                if ret = SCE_BGFT_ERROR_SAME_APPLICATION_ALREADY_INSTALLED then ((Some (-1), Some ret), w)
                else (fails_with ret, w)
              else (succeeds task_id, w))"

definition bgft_download_start_task ::
    "'w installer_lib \<Rightarrow> cint \<Rightarrow> installer \<Rightarrow> 'w \<Rightarrow> unit outcome \<times> 'w" where
  "bgft_download_start_task L task_id I w =
     (if \<not> s_bgft_initialized I then (fails_with (ENXIO L), w)
      else if sint task_id < 0 then (fails_with (EINVAL L), w)
      else case sceBgftServiceDownloadStartTask L task_id w of (ret, w) \<Rightarrow>
        if ret \<noteq> 0 then (fails_with ret, w) else (succeeds (), w))"

definition bgft_download_stop_task ::
    "'w installer_lib \<Rightarrow> cint \<Rightarrow> installer \<Rightarrow> 'w \<Rightarrow> unit outcome \<times> 'w" where
  "bgft_download_stop_task L task_id I w =
     (if \<not> s_bgft_initialized I then (fails_with (ENXIO L), w)
      else if sint task_id < 0 then (fails_with (EINVAL L), w)
      else case sceBgftServiceDownloadStopTask L task_id w of (ret, w) \<Rightarrow>
        if ret \<noteq> 0 then (fails_with ret, w) else (succeeds (), w))"

definition bgft_download_pause_task ::
    "'w installer_lib \<Rightarrow> cint \<Rightarrow> installer \<Rightarrow> 'w \<Rightarrow> unit outcome \<times> 'w" where
  "bgft_download_pause_task L task_id I w =
     (if \<not> s_bgft_initialized I then (fails_with (ENXIO L), w)
      else if sint task_id < 0 then (fails_with (EINVAL L), w)
      else case sceBgftServiceDownloadPauseTask L task_id w of (ret, w) \<Rightarrow>
        if ret \<noteq> 0 then (fails_with ret, w) else (succeeds (), w))"

definition bgft_download_resume_task ::
    "'w installer_lib \<Rightarrow> cint \<Rightarrow> installer \<Rightarrow> 'w \<Rightarrow> unit outcome \<times> 'w" where
  "bgft_download_resume_task L task_id I w =
     (if \<not> s_bgft_initialized I then (fails_with (ENXIO L), w)
      else if sint task_id < 0 then (fails_with (EINVAL L), w)
      else case sceBgftServiceDownloadResumeTask L task_id w of (ret, w) \<Rightarrow>
        if ret \<noteq> 0 then (fails_with ret, w) else (succeeds (), w))"

definition bgft_download_unregister_task ::
    "'w installer_lib \<Rightarrow> cint \<Rightarrow> installer \<Rightarrow> 'w \<Rightarrow> unit outcome \<times> 'w" where
  "bgft_download_unregister_task L task_id I w =
     (if \<not> s_bgft_initialized I then (fails_with (ENXIO L), w)
      else if sint task_id < 0 then (fails_with (EINVAL L), w)
      else case sceBgftServiceIntDownloadUnregisterTask L task_id w of (ret, w) \<Rightarrow>
        if ret \<noteq> 0 then (fails_with ret, w) else (succeeds (), w))"

definition bgft_download_reregister_task_patch ::
    "'w installer_lib \<Rightarrow> cint \<Rightarrow> installer \<Rightarrow> 'w \<Rightarrow> cint outcome \<times> 'w" where
  "bgft_download_reregister_task_patch L old_task_id I w =
     (if \<not> s_bgft_initialized I then (fails_with (ENXIO L), w)
      else if sint old_task_id < 0 then (fails_with (EINVAL L), w)
      else case sceBgftServiceIntDownloadReregisterTaskPatch L old_task_id w of ((ret, tmp_id), w) \<Rightarrow>
        if ret \<noteq> 0 then (fails_with ret, w) else (succeeds tmp_id, w))"

text \<open>\<open>progress_info\<close> may be null; the fields are copied one by one.\<close>

definition bgft_download_get_task_progress ::
    "'w installer_lib \<Rightarrow> cint \<Rightarrow> bool \<Rightarrow> installer \<Rightarrow> 'w \<Rightarrow> bgft_progress outcome \<times> 'w" where
  "bgft_download_get_task_progress L task_id has_info I w =
     (if \<not> s_bgft_initialized I then (fails_with (ENXIO L), w)
      else if sint task_id < 0 then (fails_with (EINVAL L), w)
      else if \<not> has_info then (fails_with (EINVAL L), w)
      else case sceBgftServiceDownloadGetProgress L task_id w of ((ret, t), w) \<Rightarrow>
        if ret \<noteq> 0 then (fails_with ret, w)
        else (succeeds \<lparr>pr_bits = pr_bits t, pr_error_result = pr_error_result t,
                pr_length = pr_length t, pr_transferred = pr_transferred t,
                pr_length_total = pr_length_total t, pr_transferred_total = pr_transferred_total t,
                pr_num_index = pr_num_index t, pr_num_total = pr_num_total t,
                pr_rest_sec = pr_rest_sec t, pr_rest_sec_total = pr_rest_sec_total t,
                pr_preparing_percent = pr_preparing_percent t,
                pr_local_copy_percent = pr_local_copy_percent t\<rparr>, w))"

text \<open>The sub type is cast to the SDK's enumeration, which has no negative member.\<close>

definition bgft_download_find_task_by_content_id ::
    "'w installer_lib \<Rightarrow> string option \<Rightarrow> cint \<Rightarrow> installer \<Rightarrow> 'w \<Rightarrow> cint outcome \<times> 'w" where
  "bgft_download_find_task_by_content_id L content_id sub_type I w =
     (if \<not> s_bgft_initialized I then (fails_with (ENXIO L), w)
      else if content_id = None then (fails_with (EINVAL L), w)
      else if \<not> (BGFT_TASK_SUB_TYPE_UNKNOWN L < sub_type \<and> sub_type < BGFT_TASK_SUB_TYPE_MAX L)
      then (fails_with (EINVAL L), w)
      else case sceBgftServiceDownloadFindTaskByContentId L (the content_id) sub_type w of
        ((ret, tmp_id), w) \<Rightarrow> if ret \<noteq> 0 then (fails_with ret, w) else (succeeds tmp_id, w))"

section \<open>The contract of a guarded call\<close>

text \<open>Every call but the registration checks that its service is up, then its arguments, then
  asks the service once; the three ways of failing store different codes.\<close>

locale guarded_call =
  fixes ready :: "'s \<Rightarrow> bool" and accepts :: "'i \<Rightarrow> bool" and enxio :: cint and einval :: cint
    and service :: "'i \<Rightarrow> 'w \<Rightarrow> cint \<times> 'w"
    and call :: "'i \<Rightarrow> 's \<Rightarrow> 'w \<Rightarrow> 'o outcome \<times> 'w"
  assumes not_ready: "\<not> ready s \<Longrightarrow> call i s w = (fails_with enxio, w)"
    and refused: "ready s \<Longrightarrow> \<not> accepts i \<Longrightarrow> call i s w = (fails_with einval, w)"
    and failed: "ready s \<Longrightarrow> accepts i \<Longrightarrow> service i w = (ret, w') \<Longrightarrow> ret \<noteq> 0
        \<Longrightarrow> call i s w = (fails_with ret, w')"
    and served: "ready s \<Longrightarrow> accepts i \<Longrightarrow> service i w = (0, w') \<Longrightarrow> \<exists>x. call i s w = (succeeds x, w')"
begin

lemma outcome_cases:
  obtains (down) "\<not> ready s" "call i s w = (fails_with enxio, w)"
  | (bad) "ready s" "\<not> accepts i" "call i s w = (fails_with einval, w)"
  | (error) "ready s" "accepts i" "fst (service i w) \<noteq> 0"
      "call i s w = (fails_with (fst (service i w)), snd (service i w))"
  | (fine) x where "ready s" "accepts i" "fst (service i w) = 0"
      "call i s w = (succeeds x, snd (service i w))"
  using not_ready [of s i w] refused [of s i w] failed [of s i w "fst (service i w)" "snd (service i w)"]
    served [of s i w "snd (service i w)"] by (metis prod.collapse)

lemma code_iff_failure: "fst (fst (call i s w)) = None \<longleftrightarrow> snd (fst (call i s w)) \<noteq> None"
  by (cases rule: outcome_cases [of s i w]) simp_all

lemma success_iff: "fst (fst (call i s w)) \<noteq> None \<longleftrightarrow> ready s \<and> accepts i \<and> fst (service i w) = 0"
  by (cases rule: outcome_cases [of s i w]) simp_all

lemma effect: "snd (call i s w) = (if ready s \<and> accepts i then snd (service i w) else w)"
  by (cases rule: outcome_cases [of s i w]) simp_all

lemma contract:
  "(fst (fst (call i s w)) = None \<longleftrightarrow> snd (fst (call i s w)) \<noteq> None)
    \<and> (fst (fst (call i s w)) \<noteq> None \<longleftrightarrow> ready s \<and> accepts i \<and> fst (service i w) = 0)
    \<and> snd (call i s w) = (if ready s \<and> accepts i then snd (service i w) else w)"
  using code_iff_failure success_iff effect by blast

end

lemmas uninstall_defs = app_inst_util_uninstall_game_def app_inst_util_uninstall_ac_def
  app_inst_util_uninstall_patch_def app_inst_util_uninstall_theme_def

lemmas query_defs = app_inst_util_is_exists_def app_inst_util_get_size_def

lemmas task_defs = bgft_download_start_task_def bgft_download_stop_task_def bgft_download_pause_task_def
  bgft_download_resume_task_def bgft_download_unregister_task_def bgft_download_reregister_task_patch_def
  bgft_download_get_task_progress_def bgft_download_find_task_by_content_id_def

text \<open>What a service that also stores a value returns.\<close>

definition status_of :: "(cint \<times> 'a) \<times> 'w \<Rightarrow> cint \<times> 'w" where
  "status_of r = (fst (fst r), snd r)"

lemma status_of_simp [simp]: "status_of ((ret, x), w) = (ret, w)"
  by (simp add: status_of_def)

lemma status_of_eq: "status_of r = (ret, w) \<longleftrightarrow> (\<exists>x. r = ((ret, x), w))"
  by (cases r) (auto simp: status_of_def)

lemma parse_content_id_None: "pkg_parse_content_id None = None"
  by (simp add: pkg_parse_content_id_def)

lemma parse_content_id_Some: "pkg_parse_content_id i = Some x \<Longrightarrow> \<exists>c. i = Some c"
  by (cases i) (simp_all add: parse_content_id_None)

text \<open>The service behind the removal of additional content.\<close>

definition addcont_service :: "'w installer_lib \<Rightarrow> string option \<Rightarrow> 'w \<Rightarrow> cint \<times> 'w" where
  "addcont_service L c w = (case pkg_parse_content_id c of None \<Rightarrow> (0, w)
     | Some info \<Rightarrow> sceAppInstUtilAppUnInstallAddcont L (ci_title_id info) (ci_label info) w)"

interpretation game: guarded_call s_app_inst_util_initialized "\<lambda>i. i \<noteq> None" "ENXIO L" "EINVAL L"
    "\<lambda>i. sceAppInstUtilAppUnInstall L (the i)" "app_inst_util_uninstall_game L" for L
  by unfold_locales (auto simp: uninstall_defs)

interpretation ac: guarded_call s_app_inst_util_initialized "\<lambda>i. pkg_parse_content_id i \<noteq> None"
    "ENXIO L" "EINVAL L" "addcont_service L" "app_inst_util_uninstall_ac L" for L
  by unfold_locales (auto simp: uninstall_defs addcont_service_def parse_content_id_None
      dest: parse_content_id_Some split: option.splits)

interpretation pat: guarded_call s_app_inst_util_initialized "\<lambda>i. i \<noteq> None" "ENXIO L" "EINVAL L"
    "\<lambda>i. sceAppInstUtilAppUnInstallPat L (the i)" "app_inst_util_uninstall_patch L" for L
  by unfold_locales (auto simp: uninstall_defs)

interpretation theme: guarded_call s_app_inst_util_initialized "\<lambda>i. i \<noteq> None" "ENXIO L" "EINVAL L"
    "\<lambda>i. sceAppInstUtilAppUnInstallTheme L (the i)" "app_inst_util_uninstall_theme L" for L
  by unfold_locales (auto simp: uninstall_defs)

interpretation exists: guarded_call s_app_inst_util_initialized "\<lambda>i. i \<noteq> None" "ENXIO L" "EINVAL L"
    "\<lambda>i w. status_of (sceAppInstUtilAppExists L (the i) w)" "app_inst_util_is_exists L" for L
  by unfold_locales (auto simp: query_defs status_of_eq)

interpretation size: guarded_call s_app_inst_util_initialized "\<lambda>i. i \<noteq> None" "ENXIO L" "EINVAL L"
    "\<lambda>i w. status_of (sceAppInstUtilAppGetSize L (the i) w)" "app_inst_util_get_size L" for L
  by unfold_locales (auto simp: query_defs status_of_eq)

text \<open>The five task calls that return nothing but a status are passed as function pointers.\<close>

datatype task_action = TaskStart | TaskStop | TaskPause | TaskResume | TaskUnregister

fun task_call :: "'w installer_lib \<Rightarrow> task_action \<Rightarrow> cint \<Rightarrow> installer \<Rightarrow> 'w \<Rightarrow> unit outcome \<times> 'w" where
  "task_call L TaskStart = bgft_download_start_task L"
| "task_call L TaskStop = bgft_download_stop_task L"
| "task_call L TaskPause = bgft_download_pause_task L"
| "task_call L TaskResume = bgft_download_resume_task L"
| "task_call L TaskUnregister = bgft_download_unregister_task L"

fun task_service :: "'w installer_lib \<Rightarrow> task_action \<Rightarrow> cint \<Rightarrow> 'w \<Rightarrow> cint \<times> 'w" where
  "task_service L TaskStart = sceBgftServiceDownloadStartTask L"
| "task_service L TaskStop = sceBgftServiceDownloadStopTask L"
| "task_service L TaskPause = sceBgftServiceDownloadPauseTask L"
| "task_service L TaskResume = sceBgftServiceDownloadResumeTask L"
| "task_service L TaskUnregister = sceBgftServiceIntDownloadUnregisterTask L"

interpretation task: guarded_call s_bgft_initialized "\<lambda>i. 0 \<le> sint i" "ENXIO L" "EINVAL L"
    "task_service L a" "task_call L a" for L a
  by unfold_locales (cases a; auto simp: task_defs)+

interpretation rereg: guarded_call s_bgft_initialized "\<lambda>i. 0 \<le> sint i" "ENXIO L" "EINVAL L"
    "\<lambda>i w. status_of (sceBgftServiceIntDownloadReregisterTaskPatch L i w)"
    "bgft_download_reregister_task_patch L" for L
  by unfold_locales (auto simp: task_defs status_of_eq)

interpretation progress: guarded_call s_bgft_initialized "\<lambda>(i, b). 0 \<le> sint i \<and> b" "ENXIO L" "EINVAL L"
    "\<lambda>(i, b) w. status_of (sceBgftServiceDownloadGetProgress L i w)"
    "\<lambda>(i, b). bgft_download_get_task_progress L i b" for L
  by unfold_locales (auto simp: task_defs status_of_eq split: if_splits)

interpretation find: guarded_call s_bgft_initialized
    "\<lambda>(c, t). c \<noteq> None \<and> BGFT_TASK_SUB_TYPE_UNKNOWN L < t \<and> t < BGFT_TASK_SUB_TYPE_MAX L"
    "ENXIO L" "EINVAL L"
    "\<lambda>(c, t) w. status_of (sceBgftServiceDownloadFindTaskByContentId L (the c) t w)"
    "\<lambda>(c, t). bgft_download_find_task_by_content_id L c t" for L
  by unfold_locales (auto simp: task_defs status_of_eq split: if_splits)

section \<open>Starting and stopping the services\<close>

interpretation aiu: service_cycle s_app_inst_util_initialized
    "\<lambda>I w. Some (app_inst_util_init L I w)" "app_inst_util_fini L" for L
  by unfold_locales (auto simp: app_inst_util_init_def app_inst_util_fini_def split: prod.splits if_splits)

interpretation bgft: owning_cycle s_bgft_initialized "\<lambda>I w. Some (bgft_init L I w)" "bgft_fini L"
    s_bgft_heap for L
  by unfold_locales (auto simp: bgft_init_def bgft_fini_def Let_def split: prod.splits if_splits)

section \<open>A small console\<close>

text \<open>Services that succeed and write down what they were asked; \<open>fg\<close> is the status of the user
  service.\<close>

definition console_posix :: "string list posix" where
  "console_posix =
     \<lparr>px_malloc = (\<lambda>n w. (True, w)), px_open = (\<lambda>p m fl w. (-1, w)), px_fstat = (\<lambda>fd w. (None, w)),
      px_read = (\<lambda>fd n w. ((0, []), w)), px_write = (\<lambda>fd d w. (0, w)), px_close = (\<lambda>fd w. w),
      px_unlink = (\<lambda>p w. w), px_stat = (\<lambda>p w. ((-1, False), w))\<rparr>"

definition console :: "cint \<Rightarrow> string list installer_lib" where
  "console fg =
     \<lparr>il_posix = console_posix, il_errors = \<lparr>ORBIS_EINVAL = 22, ORBIS_ENOSPC = 28, ORBIS_ENXIO = 6\<rparr>,
      sceAppInstUtilInitialize = (\<lambda>w. (0, ''util'' # w)), sceAppInstUtilTerminate = (\<lambda>w. (0, w)),
      sceAppInstUtilAppUnInstall = (\<lambda>t w. (0, t # w)),
      sceAppInstUtilAppUnInstallAddcont = (\<lambda>t l w. (0, t # l # w)),
      sceAppInstUtilAppUnInstallPat = (\<lambda>t w. (0, t # w)), sceAppInstUtilAppUnInstallTheme = (\<lambda>t w. (0, t # w)),
      sceAppInstUtilAppExists = (\<lambda>t w. ((0, 1), w)), sceAppInstUtilAppGetSize = (\<lambda>t w. ((0, 5), w)),
      sceUserServiceGetForegroundUser = (\<lambda>w. ((fg, 7), w)),
      sceBgftServiceIntInit = (\<lambda>n w. (0, ''bgft'' # w)), sceBgftServiceIntTerm = (\<lambda>w. (0, ''term'' # w)),
      sceBgftServiceIntDownloadRegisterTask = (\<lambda>p w. ((0, 1), contentUrl p # w)),
      sceBgftServiceIntDebugDownloadRegisterPkg = (\<lambda>p w. ((0, 2), contentUrl p # w)),
      sceBgftServiceDownloadStartTask = (\<lambda>i w. (0, w)), sceBgftServiceDownloadStopTask = (\<lambda>i w. (0, w)),
      sceBgftServiceDownloadPauseTask = (\<lambda>i w. (0, w)), sceBgftServiceDownloadResumeTask = (\<lambda>i w. (0, w)),
      sceBgftServiceIntDownloadUnregisterTask = (\<lambda>i w. (0, w)),
      sceBgftServiceIntDownloadReregisterTaskPatch = (\<lambda>i w. ((0, i + 1), w)),
      sceBgftServiceDownloadGetProgress = (\<lambda>i w. ((0, \<lparr>pr_bits = 0, pr_error_result = 0, pr_length = 9,
         pr_transferred = 3, pr_length_total = 9, pr_transferred_total = 3, pr_num_index = 0, pr_num_total = 1,
         pr_rest_sec = 2, pr_rest_sec_total = 2, pr_preparing_percent = 100, pr_local_copy_percent = 0\<rparr>), w)),
      sceBgftServiceDownloadFindTaskByContentId = (\<lambda>c t w. ((0, 4), w)),
      BGFT_TASK_OPT_DISABLE_CDN_QUERY_PARAM = 0x10000, BGFT_TASK_SUB_TYPE_UNKNOWN = 0,
      BGFT_TASK_SUB_TYPE_MAX = 10\<rparr>"

section \<open>Properties\<close>

text \<open>Each of the five task calls (start, stop, pause, resume, unregister) stores an error code
  exactly when it fails; it succeeds exactly when BGFT is up, the task identifier is not negative
  and the service returns 0; and the service is not asked at all when the checks fail.\<close>

theorem task_calls_guarded:
  "(fst (fst (task_call L a i I w)) = None \<longleftrightarrow> snd (fst (task_call L a i I w)) \<noteq> None)
    \<and> (fst (fst (task_call L a i I w)) \<noteq> None
         \<longleftrightarrow> s_bgft_initialized I \<and> 0 \<le> sint i \<and> fst (task_service L a i w) = 0)
    \<and> snd (task_call L a i I w)
        = (if s_bgft_initialized I \<and> 0 \<le> sint i then snd (task_service L a i w) else w)"
  by (rule task.contract)

text \<open>Additional content is removed only for a well-formed content identifier; the service is
  then asked for the nine characters after the first dash and for the last sixteen, and the call
  succeeds exactly when the service does.\<close>

theorem uninstall_ac_parts:
  "fst (fst (app_inst_util_uninstall_ac L c I w)) \<noteq> None \<longleftrightarrow> s_app_inst_util_initialized I
     \<and> (\<exists>s j. c = Some s \<and> content_id_shape s j
          \<and> fst (sceAppInstUtilAppUnInstallAddcont L (take 9 (drop (Suc j) s)) (drop 20 s) w) = 0)"
proof -
  have shape: "pkg_parse_content_id (Some s) \<noteq> None \<longleftrightarrow> (\<exists>j. content_id_shape s j)" for s
    using content_id_shape_parse parse_content_id_shape by fastforce
  have "addcont_service L (Some s) w
      = sceAppInstUtilAppUnInstallAddcont L (take 9 (drop (Suc j) s)) (drop 20 s) w"
    if "content_id_shape s j" for s j
    using content_id_shape_parse [OF that] by (simp add: addcont_service_def content_id_fields_def)
  then show ?thesis
    unfolding ac.success_iff using shape parse_content_id_Some by (cases c) (auto simp: parse_content_id_None)
qed

text \<open>Registering a download stores no error code although it fails in exactly one situation:
  both services are up, the content identifier is well formed, and the foreground user cannot be
  determined.  The caller's error variable then keeps whatever it held.\<close>

theorem register_error_unset:
  "fst (bgft_download_register_package_task L c url name icon ty sub sz patch I w) = (None, None)
     \<longleftrightarrow> s_app_inst_util_initialized I \<and> s_bgft_initialized I \<and> pkg_parse_content_id c \<noteq> None
        \<and> fst (fst (sceUserServiceGetForegroundUser L w)) \<noteq> 0"
  by (auto simp: bgft_download_register_package_task_def Let_def split: prod.splits if_splits)

text \<open>Over every sequence of starts and stops of BGFT, failed ones included, its heap is
  allocated exactly while the service is up; after a stop both are gone.\<close>

theorem bgft_heap_owned:
  assumes "cycle_run (\<lambda>I w. Some (bgft_init L I w)) (bgft_fini L) cs installer_static w = Some (I', w')"
  shows "(s_bgft_heap I' \<longleftrightarrow> s_bgft_initialized I') \<and> (cs \<noteq> [] \<and> last cs = Stop \<longrightarrow> \<not> s_bgft_heap I')"
proof -
  have z: "s_bgft_heap installer_static \<longleftrightarrow> s_bgft_initialized installer_static"
    by (simp add: installer_static_def)
  have "\<not> s_bgft_heap I'" if "cs \<noteq> []" "last cs = Stop"
    using bgft.cycle_released [OF z, of L "butlast cs" w I' w'] assms append_butlast_last_id [OF that(1)] that(2)
    by simp
  with bgft.cycle_owns [OF z assms] show ?thesis by blast
qed

theorem bgft_heap_owned_witness:
  "\<exists>I'. cycle_run (\<lambda>I w. Some (bgft_init (console 0) I w)) (bgft_fini (console 0)) [Start, Start, Stop]
       installer_static [] = Some (I', [''term'', ''bgft'']) \<and> \<not> s_bgft_heap I'"
proof -
  let ?r = "cycle_run (\<lambda>I w. Some (bgft_init (console 0) I w)) (bgft_fini (console 0)) [Start, Start, Stop]
       installer_static []"
  have "\<exists>I'. ?r = Some (I', [''term'', ''bgft''])"
    by (simp add: bgft_init_def bgft_fini_def console_def console_posix_def installer_static_def)
  then obtain I' where r: "?r = Some (I', [''term'', ''bgft''])" by blast
  with bgft_heap_owned [OF r] show ?thesis by auto
qed

end
