(* ===== verification/Api.thy ===== *)
theory Api
  imports Streams Installer
begin

text \<open>
  The request handlers of server.c.  The world of the server is the program's static state,
  \<open>rpi\<close>, together with the world of the libraries.  A function that answers a request takes and
  returns the stream and that world; what the C function returns comes first.  An address passed
  as \<open>in_data\<close> is the memory from there to the terminator of the text it points to.  Messages
  made with \<open>kick_errorf\<close> and \<open>THROW_ERROR\<close> are written out as the text the format produces, and
  \<open>PRIXMAX\<close> is \<open>lX\<close>, as in the SDK's C library.
\<close>

section \<open>State\<close>

record rpi =
  rp_http :: http
  rp_installer :: installer
  rp_ip_address :: "string option"
  rp_port :: cint
  rp_work_dir :: "string option"

type_synonym 'w world = "rpi \<times> 'w"

text \<open>\<open>rv_language\<close> is the system call of \<open>get_language_id\<close>, \<open>rv_stream_address\<close> the address of
  the stream of a request; \<open>rv_stat\<close> returns the code of \<open>stat\<close> and whether it found a regular file.\<close>

record 'w rpi_env =
  rv_stream :: "'w world sb_env"
  rv_pkg :: "'w pkg_env"
  rv_installer :: "'w installer_lib"
  rv_language :: "'w \<Rightarrow> (cint \<times> cint) \<times> 'w"
  rv_stream_address :: "'w \<Rightarrow> u64"
  rv_stat :: "string \<Rightarrow> 'w \<Rightarrow> (cint \<times> bool) \<times> 'w"

abbreviation rv_http :: "'w rpi_env \<Rightarrow> 'w http_lib" where
  "rv_http R \<equiv> pe_http (rv_pkg R)"

abbreviation rv_posix :: "'w rpi_env \<Rightarrow> 'w posix" where
  "rv_posix R \<equiv> hl_posix (rv_http R)"

type_synonym ('w, 'a) reply_op = "sb_Stream \<Rightarrow> 'w world \<Rightarrow> ('a \<times> sb_Stream \<times> 'w world) option"

text \<open>JSON literals are written with grave accents for their quotation marks.\<close>

definition json_lit :: "string \<Rightarrow> string" where
  "json_lit s = map (\<lambda>c. if c = CHR 0x60 then CHR 0x22 else c) s @ [CHR 0x0A]"

section \<open>Responses\<close>

definition set_cors_header :: "'w rpi_env \<Rightarrow> ('w, unit) reply_op" where
  "set_cors_header R st v = do {
     (_, st, v) \<leftarrow> sb_send_header (rv_stream R) ''Content-Type'' ''application/json'' st v;
     (_, st, v) \<leftarrow> sb_send_header (rv_stream R) ''Access-Control-Allow-Origin'' ''*'' st v;
     (_, st, v) \<leftarrow> sb_send_header (rv_stream R) ''Access-Control-Allow-Methods'' ''*'' st v;
     (_, st, v) \<leftarrow> sb_send_header (rv_stream R) ''Access-Control-Allow-Headers'' ''*'' st v;
     Some ((), st, v) }"

definition escape_json :: "'w rpi_env \<Rightarrow> nat \<Rightarrow> string \<Rightarrow> 'w world \<Rightarrow> string option \<times> 'w world" where
  "escape_json R n s v =
     (case http_escape_json_string (rv_http R) n (Some s) (rp_http (fst v)) (snd v) of (r, w) \<Rightarrow> (r, (fst v, w)))"

definition kick_error :: "'w rpi_env \<Rightarrow> cint \<Rightarrow> string \<Rightarrow> string option \<Rightarrow> ('w, unit) reply_op" where
  "kick_error R code title error st v = do {
     let error = (case error of None \<Rightarrow> ''Unknown'' | Some e \<Rightarrow> e);
     (_, st, v) \<leftarrow> sb_send_status (rv_stream R) code title st v;
     (_, st, v) \<leftarrow> set_cors_header R st v;
     (_, st, v) \<leftarrow> sb_send_header (rv_stream R) ''Connection'' ''close'' st v;
     let (escaped, v) = escape_json R 1024 error v;
     (_, st, v) \<leftarrow> sb_writef (rv_stream R) (json_lit ''{ `status`: `fail`, `error`: `%s` }'')
       [VaStr (Some (case escaped of None \<Rightarrow> ''Unable to escape error string.'' | Some e \<Rightarrow> e))] st v;
     Some ((), st, v) }"

definition kick_errorf :: "'w rpi_env \<Rightarrow> cint \<Rightarrow> string \<Rightarrow> string \<Rightarrow> ('w, unit) reply_op" where
  "kick_errorf R code title msg = kick_error R code title (Some (trunc_cpy 512 msg))"

definition kick_result_header_json :: "'w rpi_env \<Rightarrow> ('w, unit) reply_op" where
  "kick_result_header_json R st v = do {
     (_, st, v) \<leftarrow> sb_send_status (rv_stream R) 200 ''OK'' st v;
     (_, st, v) \<leftarrow> set_cors_header R st v;
     (_, st, v) \<leftarrow> sb_send_header (rv_stream R) ''Connection'' ''close'' st v;
     Some ((), st, v) }"

text \<open>The result of a request: the header, then one JSON text.\<close>

definition result_json :: "'w rpi_env \<Rightarrow> string \<Rightarrow> va_arg list \<Rightarrow> ('w, unit) reply_op" where
  "result_json R fmt args st v = do {
     (_, st, v) \<leftarrow> kick_result_header_json R st v;
     (_, st, v) \<leftarrow> sb_writef (rv_stream R) (json_lit fmt) args st v;
     Some ((), st, v) }"

definition kick_error_json :: "'w rpi_env \<Rightarrow> cint \<Rightarrow> ('w, unit) reply_op" where
  "kick_error_json R code = result_json R ''{ `status`: `fail`, `error_code`: 0x%08X }'' [VaInt code]"

text \<open>\<open>THROW_ERROR\<close>: the answer, then the jump to the end of the handler with the result false.\<close>

definition throw_error :: "'w rpi_env \<Rightarrow> string \<Rightarrow> ('w, bool) reply_op" where
  "throw_error R msg st v = do {
     (_, st, v) \<leftarrow> kick_errorf R 500 ''Internal server error'' msg st v;
     Some (False, st, v) }"

section \<open>Requests\<close>

definition JSON_POOL_SIZE :: nat where "JSON_POOL_SIZE = 256"
definition QUERY_DATA_SIZE :: nat where "QUERY_DATA_SIZE = 2048"

text \<open>A parsed request; the root is node 0 of the pool.\<close>

record request =
  rq_text :: "char list"
  rq_pool :: "json_t list"

definition bad_request :: "'w rpi_env \<Rightarrow> string \<Rightarrow> 'a \<Rightarrow> ('w, 'a) reply_op" where
  "bad_request R msg a st v = do {
     (_, st, v) \<leftarrow> kick_errorf R 400 ''Bad request'' msg st v;
     Some (a, st, v) }"

definition request_parse :: "'w rpi_env \<Rightarrow> char list option \<Rightarrow> ('w, request option) reply_op" where
  "request_parse R in_data st v = do {
     empty \<leftarrow> (case in_data of None \<Rightarrow> Some True | Some m \<Rightarrow> map_option (\<lambda>c. c = NUL) (rd m 0));
     if empty then do {
       (_, st, v) \<leftarrow> kick_error R 400 ''Bad request'' (Some ''Missing request body'') st v;
       Some (None, st, v) }
     else do {
       (m, mem, root) \<leftarrow> json_create (the in_data) (replicate JSON_POOL_SIZE zero_node);
       if root = None then do {
         (_, st, v) \<leftarrow> kick_error R 400 ''Bad request'' (Some ''Invalid JSON format'') st v;
         Some (None, st, v) }
       else Some (Some \<lparr>rq_text = m, rq_pool = mem\<rparr>, st, v) } }"

definition request_field ::
    "'w rpi_env \<Rightarrow> request \<Rightarrow> string \<Rightarrow> jsonType_t \<Rightarrow> ('w, nat option) reply_op" where
  "request_field R req name type st v = do {
     field \<leftarrow> json_getProperty (rq_text req) (rq_pool req) 0 name;
     case field of
       None \<Rightarrow> bad_request R (''No '' @ quoted name @ '' parameter specified.'') None st v
     | Some i \<Rightarrow> do {
         ty \<leftarrow> json_getType (rq_pool req) i;
         if ty \<noteq> type then bad_request R (''Invalid type for parameter '' @ quoted name @ ''.'') None st v
         else Some (Some i, st, v) } }"

definition request_str :: "'w rpi_env \<Rightarrow> request \<Rightarrow> string \<Rightarrow> ('w, string option) reply_op" where
  "request_str R req name st v = do {
     (field, st, v) \<leftarrow> request_field R req name JSON_TEXT st v;
     case field of None \<Rightarrow> Some (None, st, v)
     | Some i \<Rightarrow> do { s \<leftarrow> json_getValue (rq_text req) (rq_pool req) i; Some (Some s, st, v) } }"

definition request_id :: "'w rpi_env \<Rightarrow> request \<Rightarrow> string \<Rightarrow> nat \<Rightarrow> ('w, string option) reply_op" where
  "request_id R req name out_size st v = do {
     (val, st, v) \<leftarrow> request_str R req name st v;
     case val of None \<Rightarrow> Some (None, st, v)
     | Some s \<Rightarrow>
         if s = [] then bad_request R (''Empty value for parameter '' @ quoted name @ ''.'') None st v
         else Some (Some (trunc_cpy out_size s), st, v) }"

text \<open>\<open>atoll\<close> of an integer literal, which the parser has checked to fit 64 bits.\<close>

definition atoll :: "string \<Rightarrow> int" where
  "atoll s =
     (if s \<noteq> [] \<and> hd s = CHR ''-'' then - int (digits_value 0 (tl s)) else int (digits_value 0 s))"

definition request_int :: "'w rpi_env \<Rightarrow> request \<Rightarrow> string \<Rightarrow> ('w, cint option) reply_op" where
  "request_int R req name st v = do {
     (field, st, v) \<leftarrow> request_field R req name JSON_INTEGER st v;
     case field of None \<Rightarrow> Some (None, st, v)
     | Some i \<Rightarrow> do {
         s \<leftarrow> json_getValue (rq_text req) (rq_pool req) i;
         Some (Some (word_of_int (atoll s)), st, v) } }"

definition request_task_id :: "'w rpi_env \<Rightarrow> request \<Rightarrow> ('w, cint option) reply_op" where
  "request_task_id R req st v = do {
     (r, st, v) \<leftarrow> request_int R req ''task_id'' st v;
     case r of None \<Rightarrow> Some (None, st, v)
     | Some i \<Rightarrow>
         if sint i < 0
         then bad_request R (''Invalid value for '' @ quoted ''task_id'' @ '' parameter specified.'') None st v
         else Some (Some i, st, v) }"

text \<open>\<open>None\<close> is the error; an absent field leaves the value as it was.\<close>

definition request_bool_opt :: "'w rpi_env \<Rightarrow> request \<Rightarrow> string \<Rightarrow> bool \<Rightarrow> ('w, bool option) reply_op" where
  "request_bool_opt R req name old st v = do {
     field \<leftarrow> json_getProperty (rq_text req) (rq_pool req) 0 name;
     case field of None \<Rightarrow> Some (Some old, st, v)
     | Some i \<Rightarrow> do {
         ty \<leftarrow> json_getType (rq_pool req) i;
         if ty \<noteq> JSON_BOOLEAN
         then bad_request R (''Invalid type for parameter '' @ quoted name @ ''.'') None st v
         else do {
           s \<leftarrow> json_getValue (rq_text req) (rq_pool req) i;
           Some (Some (s \<noteq> [] \<and> hd s = CHR ''t''), st, v) } } }"

section \<open>Uninstalling and asking\<close>

type_synonym 'w api = "string \<Rightarrow> string \<Rightarrow> char list option \<Rightarrow> ('w, bool) reply_op"

definition world_call :: "(installer \<Rightarrow> 'w \<Rightarrow> 'a \<times> 'w) \<Rightarrow> 'w world \<Rightarrow> 'a \<times> 'w world" where
  "world_call f v = (case f (rp_installer (fst v)) (snd v) of (r, w) \<Rightarrow> (r, (fst v, w)))"

text \<open>A failed call is answered with the code it stored; if it stored none, the code reads a
  variable that was never set.\<close>

definition answer_failure :: "'w rpi_env \<Rightarrow> cint option \<Rightarrow> ('w, unit) reply_op" where
  "answer_failure R err st v = (case err of None \<Rightarrow> None | Some e \<Rightarrow> kick_error_json R e st v)"

definition answer_outcome :: "'w rpi_env \<Rightarrow> unit outcome \<Rightarrow> ('w, bool) reply_op" where
  "answer_outcome R r st v = do {
     (_, st, v) \<leftarrow> (case fst r of
        Some () \<Rightarrow> result_json R ''{ `status`: `success` }'' [] st v
      | None \<Rightarrow> answer_failure R (snd r) st v);
     Some (True, st, v) }"

datatype uninstall_action = UninstallGame | UninstallAc | UninstallPatch | UninstallTheme

fun uninstall_call :: "'w installer_lib \<Rightarrow> uninstall_action \<Rightarrow> string option \<Rightarrow> installer \<Rightarrow> 'w \<Rightarrow> unit outcome \<times> 'w" where
  "uninstall_call L UninstallGame = app_inst_util_uninstall_game L"
| "uninstall_call L UninstallAc = app_inst_util_uninstall_ac L"
| "uninstall_call L UninstallPatch = app_inst_util_uninstall_patch L"
| "uninstall_call L UninstallTheme = app_inst_util_uninstall_theme L"

definition uninstall_actions :: "(string \<times> uninstall_action \<times> string \<times> nat) list" where
  "uninstall_actions =
     [(''/api/uninstall_game'', UninstallGame, ''title_id'', PKG_TITLE_ID_SIZE + 1),
      (''/api/uninstall_ac'', UninstallAc, ''content_id'', PKG_CONTENT_ID_SIZE + 1),
      (''/api/uninstall_patch'', UninstallPatch, ''title_id'', PKG_TITLE_ID_SIZE + 1),
      (''/api/uninstall_theme'', UninstallTheme, ''content_id'', PKG_CONTENT_ID_SIZE + 1)]"

definition task_actions :: "(string \<times> task_action) list" where
  "task_actions =
     [(''/api/start_task'', TaskStart), (''/api/stop_task'', TaskStop), (''/api/pause_task'', TaskPause),
      (''/api/resume_task'', TaskResume), (''/api/unregister_task'', TaskUnregister)]"

definition handle_api_uninstall :: "'w rpi_env \<Rightarrow> 'w api" where
  "handle_api_uninstall R method path in_data st v =
     (case map_of uninstall_actions path of
        None \<Rightarrow> do {
          (_, st, v) \<leftarrow> kick_error R 404 ''Not found'' (Some ''Unknown uninstall action'') st v;
          Some (False, st, v) }
      | Some (action, field, id_size) \<Rightarrow> do {
          (req, st, v) \<leftarrow> request_parse R in_data st v;
          case req of None \<Rightarrow> Some (False, st, v)
          | Some req \<Rightarrow> do {
              (ident, st, v) \<leftarrow> request_id R req field id_size st v;
              if ident = None then Some (False, st, v)
              else do {
                let (r, v) = world_call (uninstall_call (rv_installer R) action ident) v;
                answer_outcome R r st v } } })"

definition handle_api_is_exists :: "'w rpi_env \<Rightarrow> 'w api" where
  "handle_api_is_exists R method path in_data st v = do {
     (req, st, v) \<leftarrow> request_parse R in_data st v;
     case req of None \<Rightarrow> Some (False, st, v)
     | Some req \<Rightarrow> do {
         (title_id, st, v) \<leftarrow> request_id R req ''title_id'' (PKG_TITLE_ID_SIZE + 1) st v;
         if title_id = None then Some (False, st, v)
         else do {
           let (r, v) = world_call (app_inst_util_is_exists (rv_installer R) title_id) v;
           (_, st, v) \<leftarrow> (case fst r of
              None \<Rightarrow> answer_failure R (snd r) st v
            | Some exists \<Rightarrow> do {
                (_, st, v) \<leftarrow> kick_result_header_json R st v;
                if exists then do {
                  let (r, v) = world_call (app_inst_util_get_size (rv_installer R) title_id) v;
                  let sz = (case fst r of None \<Rightarrow> -1 | Some n \<Rightarrow> n);
                  (_, st, v) \<leftarrow> sb_writef (rv_stream R)
                    (json_lit ''{ `status`: `success`, `exists`: `%s`, `size`: 0x%lX }'')
                    [VaStr (Some ''true''), VaLong sz] st v;
                  Some ((), st, v) }
                else do {
                  (_, st, v) \<leftarrow> sb_writef (rv_stream R) (json_lit ''{ `status`: `success`, `exists`: `%s` }'')
                    [VaStr (Some ''false'')] st v;
                  Some ((), st, v) } });
           Some (True, st, v) } } }"

section \<open>Download tasks\<close>

definition handle_api_task_action :: "'w rpi_env \<Rightarrow> 'w api" where
  "handle_api_task_action R method path in_data st v =
     (case map_of task_actions path of
        None \<Rightarrow> do {
          (_, st, v) \<leftarrow> kick_error R 404 ''Not found'' (Some ''Unknown task action'') st v;
          Some (False, st, v) }
      | Some action \<Rightarrow> do {
          (req, st, v) \<leftarrow> request_parse R in_data st v;
          case req of None \<Rightarrow> Some (False, st, v)
          | Some req \<Rightarrow> do {
              (task_id, st, v) \<leftarrow> request_task_id R req st v;
              case task_id of None \<Rightarrow> Some (False, st, v)
              | Some i \<Rightarrow> do {
                  let (r, v) = world_call (task_call (rv_installer R) action i) v;
                  answer_outcome R r st v } } })"

definition progress_format :: string where
  "progress_format = ''{ `status`: `success`, `bits`: 0x%X, `error`: %d, `length`: 0x%lX, `transferred`: 0x%lX, `length_total`: 0x%lX, `transferred_total`: 0x%lX, `num_index`: %u, `num_total`: %u, `rest_sec`: %u, `rest_sec_total`: %u, `preparing_percent`: %d, `local_copy_percent`: %d }''"

definition progress_args :: "bgft_progress \<Rightarrow> va_arg list" where
  "progress_args p =
     [VaInt (pr_bits p), VaInt (pr_error_result p), VaLong (pr_length p), VaLong (pr_transferred p),
      VaLong (pr_length_total p), VaLong (pr_transferred_total p), VaInt (pr_num_index p),
      VaInt (pr_num_total p), VaInt (pr_rest_sec p), VaInt (pr_rest_sec_total p),
      VaInt (pr_preparing_percent p), VaInt (pr_local_copy_percent p)]"

definition handle_api_get_task_progress :: "'w rpi_env \<Rightarrow> 'w api" where
  "handle_api_get_task_progress R method path in_data st v = do {
     (req, st, v) \<leftarrow> request_parse R in_data st v;
     case req of None \<Rightarrow> Some (False, st, v)
     | Some req \<Rightarrow> do {
         (task_id, st, v) \<leftarrow> request_task_id R req st v;
         case task_id of None \<Rightarrow> Some (False, st, v)
         | Some i \<Rightarrow> do {
             let (r, v) = world_call (bgft_download_get_task_progress (rv_installer R) i True) v;
             (_, st, v) \<leftarrow> (case fst r of
                None \<Rightarrow> answer_failure R (snd r) st v
              | Some p \<Rightarrow> result_json R progress_format (progress_args p) st v);
             Some (True, st, v) } } }"

definition handle_api_find_task :: "'w rpi_env \<Rightarrow> 'w api" where
  "handle_api_find_task R method path in_data st v = do {
     (req, st, v) \<leftarrow> request_parse R in_data st v;
     case req of None \<Rightarrow> Some (False, st, v)
     | Some req \<Rightarrow> do {
         (content_id, st, v) \<leftarrow> request_id R req ''content_id'' (PKG_CONTENT_ID_SIZE + 1) st v;
         if content_id = None then Some (False, st, v)
         else do {
           (sub_type, st, v) \<leftarrow> request_int R req ''sub_type'' st v;
           case sub_type of None \<Rightarrow> Some (False, st, v)
           | Some t \<Rightarrow> do {
               let (r, v) = world_call (bgft_download_find_task_by_content_id (rv_installer R) content_id t) v;
               (_, st, v) \<leftarrow> (case fst r of
                  None \<Rightarrow> answer_failure R (snd r) st v
                | Some task_id \<Rightarrow>
                    result_json R ''{ `status`: `success`, `task_id`: %d }'' [VaInt task_id] st v);
               Some (True, st, v) } } } }"

section \<open>Settings\<close>

definition on_http :: "(http \<Rightarrow> http) \<Rightarrow> 'w world \<Rightarrow> 'w world" where
  "on_http f v = ((fst v)\<lparr>rp_http := f (rp_http (fst v))\<rparr>, snd v)"

definition write_settings_json :: "'w rpi_env \<Rightarrow> ('w, unit) reply_op" where
  "write_settings_json R st v = do {
     let (escaped, v) = escape_json R 512 (s_ca_bundle_path (rp_http (fst v))) v;
     let H = rp_http (fst v);
     result_json R ''{ `status`: `success`, `ssl_verify`: %s, `ca_bundle`: `%s`, `ca_bundle_loaded`: %s }''
       [VaStr (Some (if s_ssl_verify_mode H = HTTP_SSL_VERIFY_ON then ''true'' else ''false'')),
        VaStr (Some (case escaped of None \<Rightarrow> [] | Some e \<Rightarrow> e)),
        VaStr (Some (if s_ca_bundle_loaded H then ''true'' else ''false''))] st v }"

definition strcasecmp_eq :: "string \<Rightarrow> string \<Rightarrow> bool" where
  "strcasecmp_eq a b \<longleftrightarrow> map tolower a = map tolower b"

text \<open>The certificate bundle, if one is given; the result is whether to go on.\<close>

definition settings_bundle :: "'w rpi_env \<Rightarrow> request \<Rightarrow> ('w, bool) reply_op" where
  "settings_bundle R req st v = do {
     field \<leftarrow> json_getProperty (rq_text req) (rq_pool req) 0 ''ca_bundle'';
     if field = None then Some (True, st, v)
     else do {
       (ca_bundle, st, v) \<leftarrow> request_str R req ''ca_bundle'' st v;
       case ca_bundle of None \<Rightarrow> Some (False, st, v)
       | Some path \<Rightarrow> do {
           (ok, H, w) \<leftarrow> http_load_ca_bundle (rv_http R) (Some path) (rp_http (fst v)) (snd v);
           let v = ((fst v)\<lparr>rp_http := H\<rparr>, w);
           if \<not> ok then throw_error R (''Unable to load CA bundle '' @ quoted path @ '': '' @ s_last_error H) st v
           else Some (True, st, v) } } }"

definition handle_api_settings :: "'w rpi_env \<Rightarrow> 'w api" where
  "handle_api_settings R method path in_data st v = do {
     empty \<leftarrow> (case in_data of None \<Rightarrow> Some True | Some m \<Rightarrow> map_option (\<lambda>c. c = NUL) (rd m 0));
     if strcasecmp_eq method ''GET'' \<and> empty then do {
       (_, st, v) \<leftarrow> write_settings_json R st v;
       Some (True, st, v) }
     else do {
       (req, st, v) \<leftarrow> request_parse R in_data st v;
       case req of None \<Rightarrow> Some (False, st, v)
       | Some req \<Rightarrow> do {
           let verify = (s_ssl_verify_mode (rp_http (fst v)) = HTTP_SSL_VERIFY_ON);
           (verify, st, v) \<leftarrow> request_bool_opt R req ''ssl_verify'' verify st v;
           case verify of None \<Rightarrow> Some (False, st, v)
           | Some b \<Rightarrow> do {
               let v = on_http (http_set_ssl_verify (if b then HTTP_SSL_VERIFY_ON else HTTP_SSL_VERIFY_OFF)) v;
               (ok, st, v) \<leftarrow> settings_bundle R req st v;
               if \<not> ok then Some (False, st, v)
               else do {
                 (saved, w) \<leftarrow> http_save_config (rv_http R) (Some HTTP_CONFIG_PATH) (rp_http (fst v)) (snd v);
                 let v = (fst v, w);
                 if \<not> saved then throw_error R (''Unable to save settings to '' @ quoted HTTP_CONFIG_PATH @ ''.'') st v
                 else do {
                   (_, st, v) \<leftarrow> write_settings_json R st v;
                   Some (True, st, v) } } } } } }"

section \<open>Static files\<close>

definition handle_static :: "'w rpi_env \<Rightarrow> 'w api" where
  "handle_static R method path in_data st v =
     (if \<not> starts_with path ''/static/'' \<or> strstr path '':/'' \<noteq> None \<or> strstr path ''..'' \<noteq> None then do {
        (_, st, v) \<leftarrow> kick_error R 400 ''Bad request'' (Some ''Invalid path'') st v;
        Some (True, st, v) }
      else do {
        dir \<leftarrow> rp_work_dir (fst v);
        let real_path = trunc_cpy 1024 (dir @ ''/'' @ drop 8 path);
        let (found, w) = rv_stat R real_path (snd v);
        let v = (fst v, w);
        if sint (fst found) < 0 then do {
          (_, st, v) \<leftarrow> kick_error R 404 ''Not found'' (Some ''Page not found'') st v;
          Some (True, st, v) }
        else if \<not> snd found then do {
          (_, st, v) \<leftarrow> kick_error R 403 ''Forbidden'' (Some ''Access is denied'') st v;
          Some (True, st, v) }
        else do {
          let content_type = (if ends_with_nocase real_path ''.json'' then ''application/json''
                              else if ends_with_nocase real_path ''.png'' then ''image/png''
                              else ''application/octet-stream'');
          (_, st, v) \<leftarrow> sb_send_status (rv_stream R) 200 ''OK'' st v;
          (_, st, v) \<leftarrow> sb_send_header (rv_stream R) ''Connection'' ''close'' st v;
          (_, st, v) \<leftarrow> sb_send_header (rv_stream R) ''Content-Type'' content_type st v;
          (ret, st, v) \<leftarrow> sb_send_file (rv_stream R) real_path st v;
          if ret \<noteq> 0 then do {
            (_, st, v) \<leftarrow> kick_error R 500 ''Internal server error'' (Some (sb_error_str ret)) st v;
            Some (False, st, v) }
          else Some (True, st, v) } })"

end
