(* ===== verification/Install.thy ===== *)
theory Install
  imports Api
begin

text \<open>
  The installation requests of server.c: the piece addresses come from the request or from a
  reference document, the package is inspected, its reference document and icon are published,
  and a download task is registered.
\<close>

section \<open>The common part\<close>

text \<open>\<open>%02d\<close>.\<close>

definition fmt_02d :: "cint \<Rightarrow> string" where
  "fmt_02d n = (if sint n < 0 then show_int (sint n) else pad_left CHR ''0'' 2 (show_int (sint n)))"

text \<open>The three files of an installation; they are named after the start of the stream and its
  address.\<close>

record install_files =
  if_name :: string
  if_ref :: string
  if_sfo :: string
  if_icon :: string

definition install_files_of :: "'w rpi_env \<Rightarrow> string \<Rightarrow> sb_Stream \<Rightarrow> 'w \<Rightarrow> install_files" where
  "install_files_of R dir st w =
     (let tmp_name = ''tmp_'' @ show_hex (unat (st_init_time st XOR (ucast (ucast (rv_stream_address R w) :: u32) :: u64)));
          file = (\<lambda>ext. trunc_cpy 1024 (dir @ ''/'' @ tmp_name @ ext))
      in \<lparr>if_name = tmp_name, if_ref = file ''.json'', if_sfo = file ''.sfo'', if_icon = file ''.png''\<rparr>)"

definition package_type_of :: "u32 \<Rightarrow> string option" where
  "package_type_of content_type =
     (if content_type = PKG_CONTENT_TYPE_GD then Some ''PS4GD''
      else if content_type = PKG_CONTENT_TYPE_AC then Some ''PS4AC''
      else if content_type = PKG_CONTENT_TYPE_AL then Some ''PS4AL''
      else if content_type = PKG_CONTENT_TYPE_DP then Some ''PS4DP'' else None)"

text \<open>The text of an entry: a value without a terminator makes \<open>strlcpy\<close> read past it.\<close>

definition entry_text :: "sfo_entry \<Rightarrow> nat \<Rightarrow> string option" where
  "entry_text e n = map_option (trunc_cpy n) (cstr_at (e_value e) 0)"

text \<open>What the package says about itself: its title and content identifier, or the message.\<close>

definition title_entry :: "sfo \<Rightarrow> cint \<Rightarrow> string \<times> sfo_entry option" where
  "title_entry s lang_id =
     (let key = trunc_cpy 16 (''TITLE_'' @ fmt_02d lang_id)
      in case sfo_find_entry s key of
           Some e \<Rightarrow> (key, Some e)
         | None \<Rightarrow> (''TITLE'', sfo_find_entry s ''TITLE''))"

definition package_title :: "sfo \<Rightarrow> cint \<Rightarrow> string \<Rightarrow> (string + string) option" where
  "package_title s lang_id url =
     (case title_entry s lang_id of
        (key, None) \<Rightarrow> Some (Inl (''Unable to get title for package '' @ quoted url @ ''.''))
      | (key, Some e) \<Rightarrow>
          if e_format e \<noteq> SFO_FORMAT_STRING \<or> e_size e < 1 then
            Some (Inl (''Invalid format of '' @ quoted key @ '' entry in system file object for package '' @ quoted url @ ''.''))
          else map_option Inr (entry_text e 256))"

definition package_content_id :: "sfo \<Rightarrow> string \<Rightarrow> (string + string) option" where
  "package_content_id s url =
     (case sfo_find_entry s ''CONTENT_ID'' of
        None \<Rightarrow> Some (Inl (''Unable to get content id for package '' @ quoted url @ ''.''))
      | Some e \<Rightarrow>
          if e_format e \<noteq> SFO_FORMAT_STRING \<or> e_size e \<noteq> PKG_CONTENT_ID_SIZE + 1 then
            Some (Inl (''Invalid format of '' @ quoted ''CONTENT_ID'' @ '' entry in system file object for package '' @ quoted url @ ''.''))
          else map_option Inr (entry_text e (PKG_CONTENT_ID_SIZE + 1)))"

record install_task =
  it_content_id :: string
  it_title :: string
  it_escaped :: string
  it_type :: string
  it_size :: u64
  it_patch :: bool
  it_icon :: bool

text \<open>From \<open>param.sfo\<close> to the escaped title and the content identifier.\<close>

definition install_inspect ::
    "'w rpi_env \<Rightarrow> string \<Rightarrow> string \<Rightarrow> cint \<Rightarrow> 'w world \<Rightarrow> ((string + string \<times> string \<times> string) \<times> 'w world) option" where
  "install_inspect R url sfo_path lang_id v =
     (case sfo_alloc (rv_posix R) (snd v) of
        (None, w) \<Rightarrow> Some (Inl (''Unable to allocate system file object for package '' @ quoted url @ ''.''), (fst v, w))
      | (Some s, w) \<Rightarrow> do {
          (r, w) \<leftarrow> sfo_load_from_file (rv_posix R) sfo_path w;
          let v = (fst v, w);
          case r of
            Failed _ \<Rightarrow> Some (Inl (''Unable to load system file object for package '' @ quoted url @ ''.''), v)
          | Loaded es \<Rightarrow> do {
              let s = s\<lparr>sfo_entries := es\<rparr>;
              t \<leftarrow> package_title s lang_id url;
              case t of Inl msg \<Rightarrow> Some (Inl msg, v)
              | Inr title \<Rightarrow>
                  (case escape_json R 513 title v of
                     (None, v) \<Rightarrow> Some (Inl ''Unable to escape title name.'', v)
                   | (Some escaped, v) \<Rightarrow> do {
                       c \<leftarrow> package_content_id s url;
                       case c of Inl msg \<Rightarrow> Some (Inl msg, v)
                       | Inr content_id \<Rightarrow> Some (Inr (title, escaped, content_id), v) }) } })"

text \<open>Everything up to the registration.\<close>

definition install_prepare ::
    "'w rpi_env \<Rightarrow> string list \<Rightarrow> install_files \<Rightarrow> cint \<Rightarrow> cint \<Rightarrow> 'w world
      \<Rightarrow> ((string + install_task) \<times> 'w world) option" where
  "install_prepare R urls F lang_id ssl_verify v = do {
     let url = hd urls;
     (ps, H, w) \<leftarrow> pkg_setup_prerequisites (rv_pkg R) (Some urls) (if_ref F) (if_sfo F) (if_icon F) 256 ssl_verify
       (rp_http (fst v)) (snd v);
     let v = ((fst v)\<lparr>rp_http := H\<rparr>, w);
     case ps_ok ps of
       None \<Rightarrow>
         let error = fst (rtrim (ps_error ps));
             msg = ''Unable to set up prerequisites for package '' @ quoted url
         in Some (Inl (msg @ (if error \<noteq> [] then '': '' @ error else ''.'')), v)
     | Some (content_type, package_size, icon) \<Rightarrow>
         (case package_type_of content_type of
            None \<Rightarrow> Some (Inl (''Unsupported content type for package '' @ quoted url @ ''.''), v)
          | Some package_type \<Rightarrow> do {
              (r, v) \<leftarrow> install_inspect R url (if_sfo F) lang_id v;
              case r of Inl msg \<Rightarrow> Some (Inl msg, v)
              | Inr (title, escaped, content_id) \<Rightarrow> do {
                  is_patch \<leftarrow> ps_is_patch ps;
                  Some (Inr \<lparr>it_content_id = content_id, it_title = title, it_escaped = escaped,
                             it_type = package_type, it_size = package_size, it_patch = is_patch,
                             it_icon = icon\<rparr>, v) } }) }"

definition content_url_of :: "rpi \<Rightarrow> string \<Rightarrow> string" where
  "content_url_of S tmp_name =
     trunc_cpy 256 (''http://'' @ (case rp_ip_address S of None \<Rightarrow> ''(null)'' | Some ip \<Rightarrow> ip) @ '':''
                    @ fmt_d (rp_port S) @ ''/static/'' @ tmp_name @ ''.json'')"

definition unlink_paths :: "'w rpi_env \<Rightarrow> string list \<Rightarrow> 'w world \<Rightarrow> 'w world" where
  "unlink_paths R paths v =
     (fst v, unlink_all (rv_posix R) (filter (\<lambda>p. p \<noteq> []) paths) (snd v))"

definition install_register ::
    "'w rpi_env \<Rightarrow> install_files \<Rightarrow> string \<Rightarrow> install_task \<Rightarrow> ('w, unit) reply_op" where
  "install_register R F dir t st v = do {
     let (r, v) = world_call (bgft_download_register_package_task (rv_installer R) (Some (it_content_id t))
            (content_url_of (fst v) (if_name F)) (it_title t)
            (if it_icon t then Some (trunc_cpy 1024 (''/user'' @ dir @ ''/'' @ if_name F @ ''.png'')) else None)
            (it_type t) None (it_size t) (it_patch t)) v;
     case fst r of
       None \<Rightarrow> answer_failure R (snd r) st v
     | Some task_id \<Rightarrow>
         result_json R ''{ `status`: `success`, `task_id`: %d, `title`: `%s` }''
           [VaInt task_id, VaStr (Some (it_escaped t))] st v }"

definition install_pieces :: "'w rpi_env \<Rightarrow> string list \<Rightarrow> cint \<Rightarrow> ('w, bool) reply_op" where
  "install_pieces R urls ssl_verify st v =
     (case rv_language R (snd v) of (lang, w) \<Rightarrow>
        let v = (fst v, w) in
        case get_language_id lang of
          None \<Rightarrow> throw_error R ''Unable to get language id.'' st v
        | Some lang_id \<Rightarrow> do {
            dir \<leftarrow> rp_work_dir (fst v);
            let F = install_files_of R dir st w;
            (r, v) \<leftarrow> install_prepare R urls F lang_id ssl_verify v;
            case r of
              Inl msg \<Rightarrow> do {
                (ok, st, v) \<leftarrow> throw_error R msg st v;
                Some (ok, st, unlink_paths R [if_ref F, if_sfo F, if_icon F] v) }
            | Inr t \<Rightarrow> do {
                (_, st, v) \<leftarrow> install_register R F dir t st v;
                Some (True, st, unlink_paths R [if_sfo F] v) } })"

section \<open>Where the pieces come from\<close>

definition is_http_url :: "string \<Rightarrow> bool" where
  "is_http_url u \<longleftrightarrow> starts_with u ''http://'' \<or> starts_with u ''https://''"

definition unescape_uri :: "'w rpi_env \<Rightarrow> string \<Rightarrow> 'w world \<Rightarrow> string option \<times> 'w world" where
  "unescape_uri R s v =
     (case http_unescape_uri (rv_http R) (Some s) (rp_http (fst v)) (snd v) of (r, w) \<Rightarrow> (r, (fst v, w)))"

text \<open>The first pass over \<open>packages\<close>: the number of elements, or the message.\<close>

partial_function (option) check_packages ::
    "'w rpi_env \<Rightarrow> request \<Rightarrow> nat option \<Rightarrow> nat \<Rightarrow> 'w world \<Rightarrow> ((string + nat) \<times> 'w world) option" where
  "check_packages R req jval count v =
     (if jval = None then Some (Inr count, v)
      else do {
        ty \<leftarrow> json_getType (rq_pool req) (the jval);
        if ty \<noteq> JSON_TEXT then Some (Inl (''Invalid type for element of parameter '' @ quoted ''packages'' @ ''.''), v)
        else do {
          s \<leftarrow> json_getValue (rq_text req) (rq_pool req) (the jval);
          if s = [] then Some (Inl (''Empty element value of parameter '' @ quoted ''packages'' @ ''.''), v)
          else do {
            let (u, v) = unescape_uri R s v;
            if u = None then Some (Inl (''Unable to unescape element value of parameter '' @ quoted ''packages'' @ ''.''), v)
            else if \<not> is_http_url (the u)
            then Some (Inl (''Unexpected element value of parameter '' @ quoted ''packages'' @ ''.''), v)
            else do {
              nxt \<leftarrow> json_getSibling (rq_pool req) (the jval);
              check_packages R req nxt (count + 1) v } } } })"

text \<open>The second pass fills the array.\<close>

partial_function (option) collect_packages ::
    "'w rpi_env \<Rightarrow> request \<Rightarrow> nat option \<Rightarrow> string list \<Rightarrow> 'w world \<Rightarrow> ((string + string list) \<times> 'w world) option" where
  "collect_packages R req jval urls v =
     (if jval = None then Some (Inr urls, v)
      else do {
        s \<leftarrow> json_getValue (rq_text req) (rq_pool req) (the jval);
        let (u, v) = unescape_uri R s v;
        if u = None then Some (Inl (''Unable to unescape element value of parameter '' @ quoted ''packages'' @ ''.''), v)
        else do {
          let (e, w) = url_encode (rv_posix R) (the u) (snd v);
          let v = (fst v, w);
          if e = None then Some (Inl ''No memory.'', v)
          else do {
            nxt \<leftarrow> json_getSibling (rq_pool req) (the jval);
            collect_packages R req nxt (urls @ [the e]) v } } })"

definition packages_urls ::
    "'w rpi_env \<Rightarrow> request \<Rightarrow> nat option \<Rightarrow> 'w world \<Rightarrow> ((string + string list) \<times> 'w world) option" where
  "packages_urls R req child v = do {
     (r, v) \<leftarrow> check_packages R req child 0 v;
     case r of Inl msg \<Rightarrow> Some (Inl msg, v)
     | Inr count \<Rightarrow>
         if count = 0 then Some (Inl ''No packages.'', v)
         else (case px_malloc (rv_posix R) (count * 8) (snd v) of (ok, w) \<Rightarrow>
                 let v = (fst v, w) in
                 if \<not> ok then Some (Inl ''No memory.'', v) else collect_packages R req child [] v) }"

definition handle_api_install_direct :: "'w rpi_env \<Rightarrow> request \<Rightarrow> cint \<Rightarrow> ('w, bool) reply_op" where
  "handle_api_install_direct R req ssl_verify st v = do {
     (field, st, v) \<leftarrow> request_field R req ''packages'' JSON_ARRAY st v;
     case field of None \<Rightarrow> Some (False, st, v)
     | Some i \<Rightarrow> do {
         child \<leftarrow> json_getChild (rq_pool req) i;
         (r, v) \<leftarrow> packages_urls R req child v;
         case r of Inl msg \<Rightarrow> throw_error R msg st v
         | Inr urls \<Rightarrow> install_pieces R urls ssl_verify st v } }"

definition handle_api_install_ref_pkg_url :: "'w rpi_env \<Rightarrow> request \<Rightarrow> cint \<Rightarrow> ('w, bool) reply_op" where
  "handle_api_install_ref_pkg_url R req ssl_verify st v = do {
     (url_val, st, v) \<leftarrow> request_str R req ''url'' st v;
     case url_val of None \<Rightarrow> Some (False, st, v)
     | Some s \<Rightarrow>
         if s = [] then throw_error R (''Empty element value of parameter '' @ quoted ''url'' @ ''.'') st v
         else do {
           let (u, v) = unescape_uri R s v;
           case u of
             None \<Rightarrow> throw_error R (''Unable to unescape element value of parameter '' @ quoted ''url'' @ ''.'') st v
           | Some url \<Rightarrow>
               if \<not> is_http_url url
               then throw_error R (''Unexpected element value of parameter '' @ quoted ''url'' @ ''.'') st v
               else do {
                 (urls, H, w) \<leftarrow> pkg_extract_piece_urls_from_ref_pkg_json (rv_http R) (Some url) ssl_verify
                   (rp_http (fst v)) (snd v);
                 let v = ((fst v)\<lparr>rp_http := H\<rparr>, w);
                 case urls of
                   None \<Rightarrow> throw_error R (''Unable to extract pieces URLs for '' @ quoted url @ ''.'') st v
                 | Some us \<Rightarrow> install_pieces R us ssl_verify st v } } }"

definition handle_api_install :: "'w rpi_env \<Rightarrow> 'w api" where
  "handle_api_install R method path in_data st v = do {
     (req, st, v) \<leftarrow> request_parse R in_data st v;
     case req of None \<Rightarrow> Some (False, st, v)
     | Some req \<Rightarrow> do {
         let verify = (s_ssl_verify_mode (rp_http (fst v)) = HTTP_SSL_VERIFY_ON);
         (verify, st, v) \<leftarrow> request_bool_opt R req ''ssl_verify'' verify st v;
         case verify of None \<Rightarrow> Some (False, st, v)
         | Some b \<Rightarrow> do {
             let ssl_verify = (if b then HTTP_SSL_VERIFY_ON else HTTP_SSL_VERIFY_OFF);
             (type, st, v) \<leftarrow> request_str R req ''type'' st v;
             case type of None \<Rightarrow> Some (False, st, v)
             | Some ty \<Rightarrow>
                 if strcasecmp_eq ty ''direct'' then handle_api_install_direct R req ssl_verify st v
                 else if strcasecmp_eq ty ''ref_pkg_url'' then handle_api_install_ref_pkg_url R req ssl_verify st v
                 else bad_request R (''Invalid type '' @ quoted ty @ ''.'') False st v } } }"

end
