(* ===== verification/Replies.thy ===== *)
theory Replies
  imports Install
begin

text \<open>
  What the request handlers do to the response.  \<open>says\<close> is the contract of a computation that
  answers: what it does to the stream is a sequence of response calls, and its result tells
  whether the answer is complete.  The contract is compositional; every handler meets it, which
  is the interface \<open>answering\<close> that the dispatcher uses.
\<close>

section \<open>Enough memory\<close>

definition plenty :: "'v sb_env \<Rightarrow> bool" where
  "plenty E \<longleftrightarrow> (\<forall>n w. fst (se_realloc E n w))"

lemma reserve_plenty: "plenty E \<Longrightarrow> sb_buffer_reserve E n b w = (err, b', w') \<Longrightarrow> err = 0"
  by (auto simp: sb_buffer_reserve_def plenty_def sb_codes split: if_splits prod.splits bool.splits) (metis fst_conv)

lemma push_char_plenty:
  assumes "plenty E" and "sb_buffer_push_char E c b w = Some (err, b', w')"
  shows "err = 0"
proof -
  obtain e b1 w1 where r: "(if sb_len b = length (sb_s b) then sb_buffer_reserve E (if sb_s b = [] then 1 else 2 * length (sb_s b)) b w
      else (SB_ESUCCESS, b, w)) = (e, b1, w1)" by (metis prod_cases3)
  then have "e = 0" using reserve_plenty [OF assms(1)] by (auto simp: sb_codes split: if_splits)
  with assms(2) show ?thesis
    unfolding sb_buffer_push_char_def r prod.case by (auto simp: bind_eq_Some_conv sb_codes)
qed

lemma push_str_loop_plenty:
  assumes "plenty E"
  shows "push_str_loop E p n b w = Some (err, b', w') \<Longrightarrow> err = 0"
proof (induction p arbitrary: b w)
  case (Cons c cs)
  from Cons.prems obtain e b1 w1 where s: "sb_buffer_push_char E c b w = Some (e, b1, w1)"
    and k: "(if e \<noteq> 0 then Some (e, b1\<lparr>sb_len := n\<rparr>, w1) else push_str_loop E cs n b1 w1) = Some (err, b', w')"
    by (auto simp: bind_eq_Some_conv)
  from push_char_plenty [OF assms s] k Cons.IH show ?case by simp
qed (simp add: sb_codes)

lemma push_str_plenty: "plenty E \<Longrightarrow> sb_buffer_push_str E p b w = Some (err, b', w') \<Longrightarrow> err = 0"
  unfolding sb_buffer_push_str_def by (rule push_str_loop_plenty)

text \<open>One piece of a formatted text.\<close>

lemma piece_plenty:
  assumes "p \<bind> (\<lambda>(err, b, w). if err \<noteq> 0 then Some (err, b\<lparr>sb_len := n\<rparr>, w) else f b w) = Some (err, b', w')"
    and "\<And>e b w. p = Some (e, b, w) \<Longrightarrow> e = (0 :: cint)" and "\<And>b w. f b w = Some (err, b', w') \<Longrightarrow> err = 0"
  shows "err = 0"
  using assms by (auto simp: bind_eq_Some_conv split: if_splits)

lemma vwritef_loop_plenty:
  assumes "plenty E"
  shows "vwritef_loop E n fmt args b w = Some (err, b', w') \<Longrightarrow> err = 0"
proof (induction "length fmt" arbitrary: fmt args b w rule: less_induct)
  case less
  note v = less.prems [unfolded vwritef_loop.simps [of E n fmt]]
  show ?case
  proof (cases fmt)
    case Nil
    with v show ?thesis by (simp add: sb_codes)
  next
    case (Cons c cs)
    consider (plain) "c \<noteq> CHR ''%''" | (str) "c = CHR ''%''" "cs \<noteq> [] \<and> hd cs = CHR ''s''"
      | (spec) "c = CHR ''%''" "\<not> (cs \<noteq> [] \<and> hd cs = CHR ''s'')" by blast
    then show ?thesis
    proof cases
      case plain
      with v Cons show ?thesis
        by (auto elim!: piece_plenty intro: push_char_plenty [OF assms] less.hyps)
    next
      case str
      then have l: "length (tl cs) < length fmt" using Cons by (cases cs) auto
      from v Cons str show ?thesis
        by (auto elim!: piece_plenty intro: push_str_plenty [OF assms] dest: less.hyps [OF l] split: list.splits va_arg.splits)
    next
      case spec
      with v Cons obtain x rest rs where f: "format_spec cs args = Some (x, rest, rs)" by (auto split: option.splits)
      have "length rest < length fmt" using format_spec_shorter [OF f] Cons by simp
      with v Cons spec f show ?thesis
        by (auto elim!: piece_plenty intro: push_str_plenty [OF assms] less.hyps)
    qed
  qed
qed

lemma send_writef_plenty: "plenty E \<Longrightarrow> send_writef E fmt args st w = Some (err, st', w') \<Longrightarrow> err = 0"
  by (auto simp: send_writef_def sb_buffer_vwritef_def bind_eq_Some_conv dest: vwritef_loop_plenty)

lemma send_push_plenty: "plenty E \<Longrightarrow> send_push E p st w = Some (err, st', w') \<Longrightarrow> err = 0"
  by (auto simp: send_push_def bind_eq_Some_conv dest: push_str_plenty)

lemma send_status_plenty:
  assumes "plenty E" and "represents st Unsent" and "sb_send_status E code msg st w = Some (err, st', w')"
  shows "err = 0"
  using assms(2,3) send_writef_plenty [OF assms(1)]
  by (auto simp: sb_send_status_def represents_def bind_eq_Some_conv sb_codes split: if_splits)

lemma default_status_plenty:
  assumes "plenty E" and "represents st r"
    and "(if st_state st < SENDING_HEADER then sb_send_status E 200 ''OK'' st w else Some (SB_ESUCCESS, st, w)) = Some (err, st', w')"
  shows "err = 0"
  using assms(2,3) send_status_plenty [OF assms(1), of st 200 "''OK''" w]
  by (cases r) (auto simp: represents_def sb_codes split: if_splits)

lemma finalize_plenty:
  assumes "plenty E" and "represents st r" and "sb_stream_finalize_header E st w = Some (err, st', w')"
  shows "err = 0"
proof -
  from assms(3) obtain e st1 w1 where
    s: "(if st_state st < SENDING_HEADER then sb_send_status E 200 ''OK'' st w else Some (SB_ESUCCESS, st, w)) = Some (e, st1, w1)"
    and k: "(if e \<noteq> 0 then Some (e, st1, w1) else send_push E CRLF st1 w1 \<bind> (\<lambda>(err, st, w).
        if err \<noteq> 0 then Some (err, st, w) else Some (SB_ESUCCESS, st\<lparr>st_state := SENDING_DATA\<rparr>, w))) = Some (err, st', w')"
    unfolding sb_stream_finalize_header_def by (auto simp: bind_eq_Some_conv)
  from default_status_plenty [OF assms(1,2) s] k send_push_plenty [OF assms(1), of CRLF st1 w1]
  show ?thesis by (auto simp: bind_eq_Some_conv sb_codes split: if_splits)
qed

text \<open>With enough memory, writing a body always completes the head.\<close>

lemma writef_completes:
  assumes "plenty E" and r: "represents st r" and "render fmt args = Some out"
  shows "run (sb_writef E fmt args st w) (\<lambda>(err, st', w'). \<exists>r'. follows r r' \<and> represents st' r' \<and> head_sent r')"
proof -
  let ?first = "if st_state st < SENDING_DATA then sb_stream_finalize_header E st w else Some (SB_ESUCCESS, st, w)"
  obtain err1 st1 w1 where f: "?first = Some (err1, st1, w1)" and "refines_to r (reply_body [] r) (err1, st1, w1)"
    using body_first_refines [OF r, of E w] by (auto simp: run_def)
  moreover have e: "err1 = 0" using f finalize_plenty [OF assms(1) r] by (auto simp: sb_codes split: if_splits)
  ultimately have r1: "represents st1 (reply_body [] r)" by (simp add: refines_to_def)
  have h: "head_sent (reply_body [] r)" by (cases r) simp_all
  have w: "sb_writef E fmt args st w = (if st_state st1 \<noteq> SENDING_DATA then Some (SB_EBADSTATE, st1, w1)
      else send_writef E fmt args st1 w1)"
    unfolding sb_writef_def f by (simp add: e)
  show ?thesis
  proof (cases "st_state st1 = SENDING_DATA")
    case False
    with w r1 h follows_ops(3) [of r "[]"] show ?thesis by (auto simp: run_simps)
  next
    case True
    with r1 h obtain c m hs b where b: "reply_body [] r = Body c m hs b"
      by (cases "reply_body [] r") (auto simp: represents_def)
    from send_writef_refines [OF r1 [unfolded b] assms(3), of E w1]
    have "run (send_writef E fmt args st1 w1) (\<lambda>(err, st', w'). err = 0 \<longrightarrow> represents st' (Body c m hs (b @ out)))"
      by (rule run_mono) (auto simp: refines_to_def split: if_splits)
    with w True follows_ops(3) [of r "[]"] b advances.body [of c m hs b out] show ?thesis
      by (auto simp: run_def dest: send_writef_plenty [OF assms(1)] intro!: exI [of _ "Body c m hs (b @ out)"])
  qed
qed

section \<open>The contract of a computation that answers\<close>

lemma follows_head_sent: "follows r r' \<Longrightarrow> head_sent r \<Longrightarrow> head_sent r'"
proof (induction rule: rtranclp_induct)
  case (step y z)
  from step.hyps(2) step.IH step.prems show ?case by (cases rule: advances.cases) auto
qed

text \<open>\<open>says E t A C r x\<close>: \<open>x\<close> is what a computation returns that started with the reply \<open>r\<close>.  If
  \<open>t\<close> holds it does not fault; its value satisfies \<open>A\<close>, the stream goes on with \<open>r\<close>, and for
  the values in \<open>C\<close> the head of the response is complete, unless memory ran out.\<close>

definition says ::
    "'v sb_env \<Rightarrow> bool \<Rightarrow> ('a \<Rightarrow> bool) \<Rightarrow> ('a \<Rightarrow> bool) \<Rightarrow> reply \<Rightarrow> ('a \<times> sb_Stream \<times> 'v) option \<Rightarrow> bool" where
  "says E t A C r x \<longleftrightarrow> (t \<longrightarrow> x \<noteq> None) \<and> (\<forall>a st v. x = Some (a, st, v) \<longrightarrow> A a \<and>
     (\<exists>r'. follows r r' \<and> represents st r' \<and> (plenty E \<longrightarrow> C a \<longrightarrow> head_sent r')))"

abbreviation any :: "'a \<Rightarrow> bool" where
  "any \<equiv> (\<lambda>_. True)"

abbreviation never :: "'a \<Rightarrow> bool" where
  "never \<equiv> (\<lambda>_. False)"

lemma says_Some: "represents st r \<Longrightarrow> A a \<Longrightarrow> (C a \<Longrightarrow> plenty E \<Longrightarrow> head_sent r) \<Longrightarrow> says E t A C r (Some (a, st, v))"
  by (auto simp: says_def)

lemma says_weaken:
  "says E t A C r x \<Longrightarrow> (t' \<Longrightarrow> t) \<Longrightarrow> (\<And>a. A a \<Longrightarrow> A' a) \<Longrightarrow> (\<And>a. A a \<Longrightarrow> C' a \<Longrightarrow> C a) \<Longrightarrow> says E t' A' C' r x"
  by (fastforce simp: says_def)

text \<open>Sequencing: what follows still has to complete the head only if the first part has not.\<close>

lemma says_bind:
  assumes x: "says E t A1 C1 r x"
    and k: "\<And>a st v r'. A1 a \<Longrightarrow> represents st r' \<Longrightarrow> says E t A (\<lambda>b. C b \<and> \<not> C1 a) r' (k a st v)"
  shows "says E t A C r (x \<bind> (\<lambda>(a, st, v). k a st v))"
proof (cases x)
  case None
  with x show ?thesis by (simp add: says_def)
next
  case (Some y)
  obtain a st v where y: "y = (a, st, v)" by (metis prod_cases3)
  from x Some y obtain r1 where r1: "A1 a" "follows r r1" "represents st r1" "plenty E \<longrightarrow> C1 a \<longrightarrow> head_sent r1"
    by (auto simp: says_def)
  note s = k [OF r1(1,3), of v, unfolded says_def]
  have "says E t A C r (k a st v)" unfolding says_def
  proof (intro conjI allI impI)
    fix b st2 v2 assume b: "k a st v = Some (b, st2, v2)"
    with s show "A b" by blast
    from s b obtain r2 where r2: "follows r1 r2" "represents st2 r2" "plenty E \<longrightarrow> C b \<and> \<not> C1 a \<longrightarrow> head_sent r2" by blast
    with r1(4) follows_head_sent [OF r2(1)] follows_trans [OF r1(2) r2(1)]
    show "\<exists>r'. follows r r' \<and> represents st2 r' \<and> (plenty E \<longrightarrow> C b \<longrightarrow> head_sent r')" by blast
  qed (use s in blast)
  with Some y show ?thesis by simp
qed

text \<open>A step that leaves the stream alone.\<close>

lemma says_obind:
  assumes "t \<Longrightarrow> run x P" and "\<And>a. x = Some a \<Longrightarrow> (t \<Longrightarrow> P a) \<Longrightarrow> says E t A C r (k a)"
  shows "says E t A C r (x \<bind> k)"
proof (cases x)
  case None
  with assms(1) show ?thesis by (auto simp: says_def run_def)
next
  case (Some a)
  with assms(1) have "t \<Longrightarrow> P a" by (auto simp: run_def)
  with assms(2) [OF Some] Some show ?thesis by simp
qed

lemma says_if: "(b \<Longrightarrow> says E t A C r x) \<Longrightarrow> (\<not> b \<Longrightarrow> says E t A C r y) \<Longrightarrow> says E t A C r (if b then x else y)"
  by simp

lemma says_case_option:
  "(y = None \<Longrightarrow> says E t A C r f) \<Longrightarrow> (\<And>x. y = Some x \<Longrightarrow> says E t A C r (g x)) \<Longrightarrow>
    says E t A C r (case y of None \<Rightarrow> f | Some x \<Rightarrow> g x)"
  by (cases y) auto

lemma says_case_prod:
  "(\<And>x y. p = (x, y) \<Longrightarrow> says E t A C r (f x y)) \<Longrightarrow> says E t A C r (case p of (x, y) \<Rightarrow> f x y)"
  by (cases p) simp

lemma says_case_sum:
  "(\<And>x. y = Inl x \<Longrightarrow> says E t A C r (f x)) \<Longrightarrow> (\<And>x. y = Inr x \<Longrightarrow> says E t A C r (g x)) \<Longrightarrow>
    says E t A C r (case y of Inl x \<Rightarrow> f x | Inr x \<Rightarrow> g x)"
  by (cases y) auto

lemma says_let: "(\<And>y. y = x \<Longrightarrow> says E t A C r (f y)) \<Longrightarrow> says E t A C r (let y = x in f y)"
  by simp

lemmas says_rules = says_if says_case_option says_case_prod says_case_sum says_let

section \<open>The response functions\<close>

lemma keeps_says: "run x (keeps r) \<Longrightarrow> says E t any never r x"
  by (auto simp: run_def keeps_def says_def)

lemma send_status_says: "represents st r \<Longrightarrow> says E t any never r (sb_send_status E code msg st v)"
  by (rule keeps_says) (erule run_mono [OF send_status_refines refines_keeps], assumption, rule follows_ops)

lemma send_header_says: "represents st r \<Longrightarrow> says E t any never r (sb_send_header E f x st v)"
  by (rule keeps_says) (erule run_mono [OF send_header_refines refines_keeps], assumption, rule follows_ops)

lemma writef_says:
  assumes "represents st r" and "render fmt args = Some out"
  shows "says E t any any r (sb_writef E fmt args st v)"
proof -
  have "run (sb_writef E fmt args st v) (keeps r)"
    by (rule run_mono [OF writef_refines [OF assms] refines_keeps [OF _ follows_ops(3)]])
  moreover have "run (sb_writef E fmt args st v) (\<lambda>(err, st', w'). \<exists>r'. follows r r' \<and> represents st' r' \<and> head_sent r')"
    if "plenty E" using writef_completes [OF that assms] .
  ultimately show ?thesis by (cases "plenty E") (fastforce simp: says_def run_def keeps_def)+
qed

lemma send_file_says:
  assumes "represents st r"
  shows "says E t any (\<lambda>err. err = 0) r (sb_send_file E path st v)"
proof -
  have "head_sent (reply_file n r)" for n
    by (cases r) (simp_all add: reply_file_def)
  with send_file_refines [OF assms, of E path v] show ?thesis
    by (fastforce simp: says_def run_def keeps_def split: if_splits)
qed

section \<open>Formats\<close>

definition renders :: "string \<Rightarrow> va_arg list \<Rightarrow> bool" where
  "renders fmt args \<longleftrightarrow> render fmt args \<noteq> None"

named_theorems renders_simps \<open>formats whose arguments fit\<close>

lemma renders_Nil [renders_simps]: "renders [] args"
  by (simp add: renders_def render.simps)

lemma renders_plain [renders_simps]: "c \<noteq> CHR ''%'' \<Longrightarrow> renders (c # cs) args = renders cs args"
  by (simp add: renders_def render.simps [of "c # cs"])

lemma renders_s [renders_simps]: "renders (CHR ''%'' # CHR ''s'' # cs) (VaStr s # as) = renders cs as"
  by (simp add: renders_def render.simps [of "CHR ''%'' # CHR ''s'' # cs"])

lemma renders_spec:
  assumes "format_spec (c # cs) args = Some (txt, rest, as)" and "c \<noteq> CHR ''s''"
  shows "renders (CHR ''%'' # c # cs) args = renders rest as"
  using assms by (simp add: renders_def render.simps [of "CHR ''%'' # c # cs"])

lemma length_show_nat: "n < 10 ^ 20 \<Longrightarrow> length (show_dec n) < 512"
  using length_show_dec [of n 20] by simp

lemma length_show_HEX: "n < 16 ^ 16 \<Longrightarrow> length (show_HEX n) \<le> 16"
  unfolding show_HEX_def by (rule length_show_base) simp_all

lemma unat_u32_16: "unat (x :: u32) < 16 ^ 16" and unat_u32_10: "unat (x :: u32) < 10 ^ 20"
proof -
  have "unat x < 2 ^ LENGTH(32)" by (rule unsigned_less)
  then show "unat x < 16 ^ 16" "unat x < 10 ^ 20" by simp_all
qed

lemma unat_u64_16: "unat (x :: u64) < 16 ^ 16"
proof -
  have "unat x < 2 ^ LENGTH(64)" by (rule unsigned_less)
  then show ?thesis by simp
qed

lemmas conv_simps = format_spec_def format_conv_def show_number_def pad_number_def ctype_defs chr_code_def

lemma renders_d [renders_simps]: "renders (CHR ''%'' # CHR ''d'' # cs) (VaInt v # as) = renders cs as"
  by (rule renders_spec [of _ _ _ "show_int (sint v)"]) (use length_show_int32 [of v] in \<open>simp_all add: conv_simps\<close>)

lemma renders_u [renders_simps]: "renders (CHR ''%'' # CHR ''u'' # cs) (VaInt v # as) = renders cs as"
  by (rule renders_spec [of _ _ _ "show_dec (unat v)"])
    (use length_show_nat [OF unat_u32_10, of v] in \<open>simp_all add: conv_simps\<close>)

lemma renders_X [renders_simps]: "renders (CHR ''%'' # CHR ''X'' # cs) (VaInt v # as) = renders cs as"
  by (rule renders_spec [of _ _ _ "show_HEX (unat v)"])
    (use length_show_HEX [OF unat_u32_16, of v] in \<open>simp_all add: conv_simps\<close>)

lemma renders_lX [renders_simps]: "renders (CHR ''%'' # CHR ''l'' # CHR ''X'' # cs) (VaLong v # as) = renders cs as"
  by (rule renders_spec [of _ _ _ "show_HEX (unat v)"])
    (use length_show_HEX [OF unat_u64_16, of v] in \<open>simp_all add: conv_simps\<close>)

lemma renders_08X [renders_simps]:
  "renders (CHR ''%'' # CHR ''0'' # CHR ''8'' # CHR ''X'' # cs) (VaInt v # as) = renders cs as"
  by (rule renders_spec [of _ _ _ "pad_left CHR ''0'' 8 (show_HEX (unat v))"])
    (use length_show_HEX [OF unat_u32_16, of v] in \<open>simp_all add: conv_simps pad_left_def\<close>)

lemma progress_renders: "renders (json_lit progress_format) (progress_args p)"
  by (simp add: json_lit_def progress_format_def progress_args_def renders_simps)

lemma writef_renders_says:
  "represents st r \<Longrightarrow> renders fmt args \<Longrightarrow> says E t any any r (sb_writef E fmt args st v)"
  by (auto simp: renders_def intro: writef_says)

section \<open>The answers\<close>

named_theorems answers \<open>contracts of the functions that answer\<close>

lemmas [answers] = send_status_says send_header_says writef_renders_says

lemma set_cors_header_says [answers]:
  "represents st r \<Longrightarrow> says (rv_stream R) t any never r (set_cors_header R st v)"
  unfolding set_cors_header_def
  by (rule says_bind, erule answers)+ (erule says_Some; simp)

lemma kick_error_says [answers]:
  "represents st r \<Longrightarrow> says (rv_stream R) t any any r (kick_error R code title error st v)"
  unfolding kick_error_def
  by (intro says_rules; (rule says_bind, erule answers)+; intro says_rules; rule says_bind, erule answers)
    (simp_all add: json_lit_def renders_simps says_Some)

lemma kick_errorf_says [answers]:
  "represents st r \<Longrightarrow> says (rv_stream R) t any any r (kick_errorf R code title msg st v)"
  unfolding kick_errorf_def by (rule kick_error_says)

lemma kick_result_header_says [answers]:
  "represents st r \<Longrightarrow> says (rv_stream R) t any never r (kick_result_header_json R st v)"
  unfolding kick_result_header_json_def
  by (rule says_bind, erule answers)+ (erule says_Some; simp)

lemma result_json_says [answers]:
  "represents st r \<Longrightarrow> renders (json_lit fmt) args \<Longrightarrow>
    says (rv_stream R) t any any r (result_json R fmt args st v)"
  unfolding result_json_def
  by (rule says_bind, erule answers)+ (assumption | erule says_Some; simp)+

lemma kick_error_json_says [answers]:
  "represents st r \<Longrightarrow> says (rv_stream R) t any any r (kick_error_json R code st v)"
  unfolding kick_error_json_def
  by (erule result_json_says) (simp add: json_lit_def renders_simps)

lemma throw_error_says [answers]:
  "represents st r \<Longrightarrow> says (rv_stream R) t Not any r (throw_error R msg st v)"
  unfolding throw_error_def
  by (rule says_bind, erule answers)+ (erule says_Some; simp)

lemma bad_request_says:
  "represents st r \<Longrightarrow> says (rv_stream R) t (\<lambda>b. b = a) any r (bad_request R msg a st v)"
  unfolding bad_request_def
  by (rule says_bind, erule answers)+ (erule says_Some; simp)

section \<open>Reading a request\<close>

text \<open>What \<open>in_data\<close> may be, and what the parser leaves.\<close>

definition data_ok :: "char list option \<Rightarrow> bool" where
  "data_ok d \<longleftrightarrow> (\<forall>m. d = Some m \<longrightarrow> nulterm m)"

definition req_ok :: "request \<Rightarrow> bool" where
  "req_ok q \<longleftrightarrow> nulterm (rq_text q) \<and> (\<exists>nf. pool_closed (length (rq_text q)) (rq_pool q) nf)"

text \<open>A node of the request with its type; text that can be read, for a value.\<close>

definition node_of :: "request \<Rightarrow> jsonType_t \<Rightarrow> nat \<Rightarrow> bool" where
  "node_of q ty i \<longleftrightarrow> (\<exists>nf. pool_closed (length (rq_text q)) (rq_pool q) nf \<and> i < nf)
     \<and> i < length (rq_pool q) \<and> jtype (rq_pool q ! i) = ty"

lemma request_parse_says [answers]:
  assumes r: "represents st r" and d: "t \<Longrightarrow> data_ok in_data"
  shows "says (rv_stream R) t (\<lambda>q. q \<noteq> None \<longrightarrow> t \<longrightarrow> req_ok (the q)) (\<lambda>q. q = None) r (request_parse R in_data st v)"
  unfolding request_parse_def
proof (rule says_obind [where P = "\<lambda>e. \<not> e \<longrightarrow> in_data \<noteq> None"], goal_cases)
  case 1
  with d show ?case
    by (auto simp: run_def data_ok_def nulterm_def split: option.splits)
next
  case (2 empty)
  show ?case
  proof (rule says_if)
    assume "\<not> empty"
    show "says (rv_stream R) t (\<lambda>q. q \<noteq> None \<longrightarrow> t \<longrightarrow> req_ok (the q)) (\<lambda>q. q = None) r
      (json_create (the in_data) (replicate JSON_POOL_SIZE zero_node) \<bind> (\<lambda>(m, mem, root).
        if root = None
        then kick_error R 400 ''Bad request'' (Some ''Invalid JSON format'') st v \<bind> (\<lambda>(_, st, v). Some (None, st, v))
        else Some (Some \<lparr>rq_text = m, rq_pool = mem\<rparr>, st, v)))"
    proof (rule says_obind [where P = "\<lambda>(m, mem, root). nulterm m \<and> (root \<noteq> None \<longrightarrow> (\<exists>nf. pool_closed (length m) mem nf))"], goal_cases)
      case 1
      with 2(2) d \<open>\<not> empty\<close> have "nulterm (the in_data)" by (auto simp: data_ok_def)
      moreover have "replicate JSON_POOL_SIZE zero_node \<noteq> []" by (simp add: JSON_POOL_SIZE_def)
      ultimately show ?case by (rule run_mono [OF json_create_run]) auto
    next
      case (2 a)
      obtain m mem root where a: "a = (m, mem, root)" by (metis prod_cases3)
      show ?case unfolding a prod.case
      proof (rule says_if)
        show "says (rv_stream R) t (\<lambda>q. q \<noteq> None \<longrightarrow> t \<longrightarrow> req_ok (the q)) (\<lambda>q. q = None) r
          (kick_error R 400 ''Bad request'' (Some ''Invalid JSON format'') st v \<bind> (\<lambda>(_, st, v). Some (None, st, v)))"
          by (rule says_bind, rule kick_error_says [OF r]) (erule says_Some; simp)
        show "says (rv_stream R) t (\<lambda>q. q \<noteq> None \<longrightarrow> t \<longrightarrow> req_ok (the q)) (\<lambda>q. q = None) r
          (Some (Some \<lparr>rq_text = m, rq_pool = mem\<rparr>, st, v))" if "root \<noteq> None"
          by (rule says_Some [OF r]) (use 2(2) a that in \<open>auto simp: req_ok_def\<close>)
      qed
    qed
  qed (rule says_bind, rule kick_error_says [OF r], erule says_Some; simp)
qed

lemma property_run:
  "req_ok q \<Longrightarrow> run (json_getProperty (rq_text q) (rq_pool q) 0 key)
     (\<lambda>f. \<forall>i. f = Some i \<longrightarrow> run (json_getType (rq_pool q) i) (\<lambda>ty. node_of q ty i))"
proof -
  assume "req_ok q"
  then obtain nf where m: "nulterm (rq_text q)" and pc: "pool_closed (length (rq_text q)) (rq_pool q) nf"
    by (auto simp: req_ok_def)
  then have z: "0 < nf" "container (rq_pool q ! 0)" by (auto simp: pool_closed_def)
  show ?thesis
    by (rule run_mono [OF json_getProperty_run [OF m pc z]])
      (use pc pool_node(1) [OF pc] in \<open>auto simp: json_getType_def run_simps node_of_def\<close>)
qed

lemma value_run:
  assumes "req_ok q" and "node_of q ty i" and "ty \<noteq> JSON_OBJ" and "ty \<noteq> JSON_ARRAY"
  shows "run (json_getValue (rq_text q) (rq_pool q) i) any"
proof -
  from assms(2) obtain nf where pc: "pool_closed (length (rq_text q)) (rq_pool q) nf" and i: "i < nf"
    by (auto simp: node_of_def)
  note nd = pool_node [OF pc i]
  from assms(2-4) nd(2) obtain k where "ju (rq_pool q ! i) = UValue k" "k < length (rq_text q)"
    by (auto simp: node_ok_def node_of_def split: json_u.splits)
  with nulterm_cstr_at [of "rq_text q" k] assms(1) nd(1) show ?thesis
    by (auto simp: json_getValue_def run_simps run_def req_ok_def)
qed

lemma request_field_says [answers]:
  assumes r: "represents st r" and q: "t \<Longrightarrow> req_ok req"
  shows "says (rv_stream R) t (\<lambda>f. f \<noteq> None \<longrightarrow> t \<longrightarrow> node_of req ty (the f)) (\<lambda>f. f = None) r
    (request_field R req name ty st v)"
  unfolding request_field_def
proof (rule says_obind [where P = "\<lambda>f. \<forall>i. f = Some i \<longrightarrow> run (json_getType (rq_pool req) i) (\<lambda>ty. node_of req ty i)"], goal_cases)
  case 1
  then show ?case using property_run q by blast
next
  case (2 f)
  have bad: "says (rv_stream R) t (\<lambda>f. f \<noteq> None \<longrightarrow> t \<longrightarrow> node_of req ty (the f)) (\<lambda>f. f = None) r
      (bad_request R msg None st v)" for msg
    by (rule says_weaken [OF bad_request_says [OF r]]) simp_all
  show ?case
  proof (rule says_case_option)
    fix i assume i: "f = Some i"
    show "says (rv_stream R) t (\<lambda>f. f \<noteq> None \<longrightarrow> t \<longrightarrow> node_of req ty (the f)) (\<lambda>f. f = None) r
      (json_getType (rq_pool req) i \<bind> (\<lambda>ty'. if ty' \<noteq> ty
         then bad_request R (''Invalid type for parameter '' @ quoted name @ ''.'') None st v else Some (Some i, st, v)))"
      by (rule says_obind [where P = "\<lambda>ty. node_of req ty i"]) (use 2(2) i bad r in \<open>auto intro!: says_if says_Some\<close>)
  qed (rule bad)
qed

lemma request_str_says [answers]:
  assumes r: "represents st r" and q: "t \<Longrightarrow> req_ok req"
  shows "says (rv_stream R) t any (\<lambda>s. s = None) r (request_str R req name st v)"
  unfolding request_str_def
proof (rule says_bind [OF request_field_says [OF r q]], assumption)
  fix f st v r' assume f: "f \<noteq> None \<longrightarrow> t \<longrightarrow> node_of req JSON_TEXT (the f)" and r': "represents st r'"
  show "says (rv_stream R) t any (\<lambda>s. s = None \<and> f \<noteq> None) r' (case f of None \<Rightarrow> Some (None, st, v)
      | Some i \<Rightarrow> json_getValue (rq_text req) (rq_pool req) i \<bind> (\<lambda>s. Some (Some s, st, v)))"
    by (intro says_rules says_obind [where P = any])
      (use f r' q in \<open>auto intro: says_Some value_run [of req JSON_TEXT]\<close>)
qed

lemma request_id_says [answers]:
  assumes r: "represents st r" and q: "t \<Longrightarrow> req_ok req"
  shows "says (rv_stream R) t any (\<lambda>s. s = None) r (request_id R req name n st v)"
  unfolding request_id_def
proof (rule says_bind [OF request_str_says [OF r q]], assumption)
  fix val st v r' assume r': "represents st r'"
  show "says (rv_stream R) t any (\<lambda>s. s = None \<and> val \<noteq> None) r' (case val of None \<Rightarrow> Some (None, st, v)
      | Some s \<Rightarrow> if s = [] then bad_request R (''Empty value for parameter '' @ quoted name @ ''.'') None st v
          else Some (Some (trunc_cpy n s), st, v))"
    by (intro says_rules) (use r' in \<open>auto intro: says_Some says_weaken [OF bad_request_says]\<close>)
qed

lemma request_int_says [answers]:
  assumes r: "represents st r" and q: "t \<Longrightarrow> req_ok req"
  shows "says (rv_stream R) t any (\<lambda>s. s = None) r (request_int R req name st v)"
  unfolding request_int_def
proof (rule says_bind [OF request_field_says [OF r q]], assumption)
  fix f st v r' assume f: "f \<noteq> None \<longrightarrow> t \<longrightarrow> node_of req JSON_INTEGER (the f)" and r': "represents st r'"
  show "says (rv_stream R) t any (\<lambda>s. s = None \<and> f \<noteq> None) r' (case f of None \<Rightarrow> Some (None, st, v)
      | Some i \<Rightarrow> json_getValue (rq_text req) (rq_pool req) i \<bind> (\<lambda>s. Some (Some (word_of_int (atoll s)), st, v)))"
    by (intro says_rules says_obind [where P = any])
      (use f r' q in \<open>auto intro: says_Some value_run [of req JSON_INTEGER]\<close>)
qed

lemma request_task_id_says [answers]:
  assumes r: "represents st r" and q: "t \<Longrightarrow> req_ok req"
  shows "says (rv_stream R) t any (\<lambda>s. s = None) r (request_task_id R req st v)"
  unfolding request_task_id_def
proof (rule says_bind [OF request_int_says [OF r q]], assumption)
  fix val st v r' assume r': "represents st r'"
  show "says (rv_stream R) t any (\<lambda>s. s = None \<and> val \<noteq> None) r' (case val of None \<Rightarrow> Some (None, st, v)
      | Some i \<Rightarrow> if sint i < 0
          then bad_request R (''Invalid value for '' @ quoted ''task_id'' @ '' parameter specified.'') None st v
          else Some (Some i, st, v))"
    by (intro says_rules) (use r' in \<open>auto intro: says_Some says_weaken [OF bad_request_says]\<close>)
qed

lemma request_bool_opt_says [answers]:
  assumes r: "represents st r" and q: "t \<Longrightarrow> req_ok req"
  shows "says (rv_stream R) t any (\<lambda>s. s = None) r (request_bool_opt R req name old st v)"
  unfolding request_bool_opt_def
proof (rule says_obind [where P = "\<lambda>f. \<forall>i. f = Some i \<longrightarrow> run (json_getType (rq_pool req) i) (\<lambda>ty. node_of req ty i)"], goal_cases)
  case 1
  then show ?case using property_run q by blast
next
  case (2 f)
  show ?case
  proof (rule says_case_option)
    fix i assume i: "f = Some i"
    show "says (rv_stream R) t any (\<lambda>s. s = None) r (json_getType (rq_pool req) i \<bind> (\<lambda>ty. if ty \<noteq> JSON_BOOLEAN
         then bad_request R (''Invalid type for parameter '' @ quoted name @ ''.'') None st v
         else json_getValue (rq_text req) (rq_pool req) i \<bind> (\<lambda>s. Some (Some (s \<noteq> [] \<and> hd s = CHR ''t''), st, v))))"
      by (intro says_if says_obind [where P = "\<lambda>ty. node_of req ty i"] says_obind [where P = any])
        (use 2(2) i r q in \<open>auto intro!: says_Some says_weaken [OF bad_request_says] intro: value_run [of req JSON_BOOLEAN]\<close>)
  qed (rule says_Some [OF r]; simp)
qed

section \<open>The handlers that ask the services\<close>

text \<open>A failed call has stored its code.\<close>

definition coded :: "'a outcome \<Rightarrow> bool" where
  "coded r \<longleftrightarrow> (fst r = None \<longrightarrow> snd r \<noteq> None)"

lemma answer_failure_says [answers]:
  "represents st r \<Longrightarrow> (t \<Longrightarrow> err \<noteq> None) \<Longrightarrow> says (rv_stream R) t any any r (answer_failure R err st v)"
  unfolding answer_failure_def
  by (cases err) (auto simp: says_def [of _ _ _ _ _ None] intro: kick_error_json_says)

lemma answer_outcome_says [answers]:
  assumes r: "represents st r" and c: "t \<Longrightarrow> coded o'"
  shows "says (rv_stream R) t any any r (answer_outcome R o' st v)"
  unfolding answer_outcome_def
proof (rule says_bind [where ?A1.0 = any and ?C1.0 = any])
  show "says (rv_stream R) t any any r (case fst o' of None \<Rightarrow> answer_failure R (snd o') st v
      | Some () \<Rightarrow> result_json R ''{ `status`: `success` }'' [] st v)"
    using r c by (cases "fst o'")
      (auto simp: coded_def json_lit_def renders_simps intro!: answer_failure_says result_json_says split: unit.split)
qed (erule says_Some; simp)

lemma says_world:
  assumes "\<And>I w. P (fst (f I w))" and "\<And>x v. P x \<Longrightarrow> says E t A C r (k x v)"
  shows "says E t A C r (let (x, v) = world_call f v in k x v)"
  using assms(1) [of "rp_installer (fst v)" "snd v"] by (auto simp: world_call_def intro: assms(2) split: prod.splits)

lemma calls_coded:
  "coded (fst (uninstall_call L a i I w))" "coded (fst (task_call L b j I w))"
  "coded (fst (app_inst_util_is_exists L i I w))" "coded (fst (bgft_download_get_task_progress L j True I w))"
  "coded (fst (bgft_download_find_task_by_content_id L i k I w))"
  using game.code_iff_failure [of L i I w] ac.code_iff_failure [of L i I w] pat.code_iff_failure [of L i I w]
    theme.code_iff_failure [of L i I w] task.code_iff_failure [of L b j I w] exists.code_iff_failure [of L i I w]
    progress.code_iff_failure [of L "(j, True)" I w] find.code_iff_failure [of L "(i, k)" I w]
  by (cases a; simp add: coded_def)+

lemma handle_api_uninstall_says:
  assumes r: "represents st r"
  shows "says (rv_stream R) (data_ok d) any any r (handle_api_uninstall R method path d st v)"
  unfolding handle_api_uninstall_def
proof (intro says_case_option says_case_prod)
  fix x action y field id_size
  show "says (rv_stream R) (data_ok d) any any r (request_parse R d st v \<bind> (\<lambda>(req, st, v).
      case req of None \<Rightarrow> Some (False, st, v)
      | Some req \<Rightarrow> request_id R req field id_size st v \<bind> (\<lambda>(ident, st, v). if ident = None then Some (False, st, v)
          else let (r, v) = world_call (uninstall_call (rv_installer R) action ident) v in answer_outcome R r st v)))"
    apply (rule says_bind [OF request_parse_says [OF r]], assumption)
    apply (rule says_case_option, erule says_Some, simp, simp)
    apply (rule says_bind, erule request_id_says, simp)
    apply (rule says_if, erule says_Some, simp, simp)
    apply (rule says_world [where P = coded], rule calls_coded)
    apply (erule answer_outcome_says [THEN says_weaken], simp_all)
    done
qed (rule says_bind, rule kick_error_says [OF r], erule says_Some; simp)

lemma handle_api_task_action_says:
  assumes r: "represents st r"
  shows "says (rv_stream R) (data_ok d) any any r (handle_api_task_action R method path d st v)"
  unfolding handle_api_task_action_def
proof (intro says_case_option)
  fix action
  show "says (rv_stream R) (data_ok d) any any r (request_parse R d st v \<bind> (\<lambda>(req, st, v).
      case req of None \<Rightarrow> Some (False, st, v)
      | Some req \<Rightarrow> request_task_id R req st v \<bind> (\<lambda>(task_id, st, v). case task_id of None \<Rightarrow> Some (False, st, v)
          | Some i \<Rightarrow> let (r, v) = world_call (task_call (rv_installer R) action i) v in answer_outcome R r st v)))"
    apply (rule says_bind [OF request_parse_says [OF r]], assumption)
    apply (rule says_case_option, erule says_Some, simp, simp)
    apply (rule says_bind, erule request_task_id_says, simp)
    apply (rule says_case_option, erule says_Some, simp, simp)
    apply (rule says_world [where P = coded], rule calls_coded)
    apply (erule answer_outcome_says [THEN says_weaken], simp_all)
    done
qed (rule says_bind, rule kick_error_says [OF r], erule says_Some; simp)

text \<open>The answer to a call with a value: the code it failed with, or a text for the value.\<close>

lemma answer_value_says:
  assumes r: "represents st r" and c: "coded o'"
    and k: "\<And>x. fst o' = Some x \<Longrightarrow> says (rv_stream R) t any any r (k x)"
  shows "says (rv_stream R) t any C r ((case fst o' of None \<Rightarrow> answer_failure R (snd o') st v | Some x \<Rightarrow> k x)
      \<bind> (\<lambda>(_, st, v). Some (True, st, v)))"
proof (rule says_bind [where ?A1.0 = any and ?C1.0 = any])
  show "says (rv_stream R) t any any r (case fst o' of None \<Rightarrow> answer_failure R (snd o') st v | Some x \<Rightarrow> k x)"
    by (rule says_case_option) (use r c k in \<open>auto simp: coded_def intro: answer_failure_says\<close>)
qed (erule says_Some; simp)

lemma handle_api_get_task_progress_says:
  assumes r: "represents st r"
  shows "says (rv_stream R) (data_ok d) any any r (handle_api_get_task_progress R method path d st v)"
  unfolding handle_api_get_task_progress_def
  apply (rule says_bind [OF request_parse_says [OF r]], assumption)
  apply (rule says_case_option, erule says_Some, simp, simp)
  apply (rule says_bind, erule request_task_id_says, simp)
  apply (rule says_case_option, erule says_Some, simp, simp)
  apply (rule says_world [where P = coded], rule calls_coded)
  apply (rule answer_value_says, assumption, assumption)
  apply (erule result_json_says, rule progress_renders)
  done

lemma handle_api_find_task_says:
  assumes r: "represents st r"
  shows "says (rv_stream R) (data_ok d) any any r (handle_api_find_task R method path d st v)"
  unfolding handle_api_find_task_def
  apply (rule says_bind [OF request_parse_says [OF r]], assumption)
  apply (rule says_case_option, erule says_Some, simp, simp)
  apply (rule says_bind, erule request_id_says, simp)
  apply (rule says_if, erule says_Some, simp, simp)
  apply (rule says_bind, erule request_int_says, simp)
  apply (rule says_case_option, erule says_Some, simp, simp)
  apply (rule says_world [where P = coded], rule calls_coded)
  apply (rule answer_value_says, assumption, assumption)
  apply (erule result_json_says, simp add: json_lit_def renders_simps)
  done

lemma exists_answer_says:
  assumes r: "represents st r"
  shows "says (rv_stream R) t any any r (kick_result_header_json R st v \<bind> (\<lambda>(_, st, v).
     if exists then do {
       let (r, v) = world_call (app_inst_util_get_size (rv_installer R) title_id) v;
       let sz = (case fst r of None \<Rightarrow> -1 | Some n \<Rightarrow> n);
       (_, st, v) \<leftarrow> sb_writef (rv_stream R)
         (json_lit ''{ `status`: `success`, `exists`: `%s`, `size`: 0x%lX }'')
         [VaStr (Some ''true''), VaLong sz] st v;
       Some ((), st, v) }
     else do {
       (_, st, v) \<leftarrow> sb_writef (rv_stream R) (json_lit ''{ `status`: `success`, `exists`: `%s` }'')
         [VaStr (Some ''false'')] st v;
       Some ((), st, v) }))"
  apply (rule says_bind [OF kick_result_header_says [OF r]])
  apply (rule says_if)
   apply (rule says_world [where P = any], simp)
   apply (rule says_let)
   apply (rule says_bind, erule writef_renders_says, simp add: json_lit_def renders_simps)
   apply (erule says_Some; simp)
  apply (rule says_bind, erule writef_renders_says, simp add: json_lit_def renders_simps)
  apply (erule says_Some; simp)
  done

lemma handle_api_is_exists_says:
  assumes r: "represents st r"
  shows "says (rv_stream R) (data_ok d) any any r (handle_api_is_exists R method path d st v)"
  unfolding handle_api_is_exists_def
  apply (rule says_bind [OF request_parse_says [OF r]], assumption)
  apply (rule says_case_option, erule says_Some, simp, simp)
  apply (rule says_bind, erule request_id_says, simp)
  apply (rule says_if, erule says_Some, simp, simp)
  apply (rule says_world [where P = coded], rule calls_coded)
  apply (rule answer_value_says, assumption, assumption)
  apply (erule exists_answer_says)
  done

section \<open>Settings and static files\<close>

lemma write_settings_says [answers]:
  "represents st r \<Longrightarrow> says (rv_stream R) t any any r (write_settings_json R st v)"
  unfolding write_settings_json_def
  by (intro says_let says_case_prod) (erule result_json_says, simp add: json_lit_def renders_simps)

lemma settings_bundle_says:
  assumes r: "represents st r"
  shows "says (rv_stream R) False any Not r (settings_bundle R req st v)"
  unfolding settings_bundle_def
  apply (rule says_obind [where P = any], simp)
  apply (rule says_if, rule says_Some [OF r], simp, simp)
  apply (rule says_bind [OF request_str_says [OF r]], simp)
  apply (rule says_case_option, erule says_Some, simp, simp)
  apply (rule says_obind [where P = any], simp)
  apply (intro says_case_prod says_let says_if)
   apply (erule throw_error_says [THEN says_weaken], simp_all)
  apply (erule says_Some, simp, simp)
  done

lemma handle_api_settings_says:
  assumes r: "represents st r"
  shows "says (rv_stream R) False any any r (handle_api_settings R method path d st v)"
  unfolding handle_api_settings_def
  apply (rule says_obind [where P = any], simp)
  apply (rule says_if)
   apply (rule says_bind [OF write_settings_says [OF r]], erule says_Some, simp, simp)
  apply (rule says_bind [OF request_parse_says [OF r]], simp)
  apply (rule says_case_option, erule says_Some, simp, simp)
  apply (rule says_let)
  apply (rule says_bind, erule request_bool_opt_says, simp)
  apply (rule says_case_option, erule says_Some, simp, simp)
  apply (rule says_let)
  apply (rule says_bind, erule settings_bundle_says)
  apply (rule says_if, erule says_Some, simp, simp)
  apply (rule says_obind [where P = any], simp)
  apply (intro says_case_prod says_let says_if)
   apply (erule throw_error_says [THEN says_weaken], simp_all)
  apply (rule says_bind, erule write_settings_says, erule says_Some, simp, simp)
  done

lemma handle_static_says:
  assumes r: "represents st r"
  shows "says (rv_stream R) (rp_work_dir (fst v) \<noteq> None) any any r (handle_static R method path d st v)"
proof -
  have bad: "says (rv_stream R) t any any r (kick_error R c a b st w \<bind> (\<lambda>(_, st, v). Some (x, st, v)))" for t c a b x w
    by (rule says_bind [OF kick_error_says [OF r]], erule says_Some; simp)
  show ?thesis
    unfolding handle_static_def
    apply (rule says_if, rule bad)
    apply (rule says_obind [where P = any], simp add: run_def)
    apply (intro says_let says_case_prod says_if, rule bad, rule bad)
    apply (rule says_bind [OF send_status_says [OF r]])
    apply (rule says_bind, erule send_header_says)+
    apply (rule says_bind, erule send_file_says)
    apply (rule says_if)
     apply (rule says_bind, erule kick_error_says, erule says_Some, simp, simp)
    apply (erule says_Some, simp, simp)
    done
qed

section \<open>Installing\<close>

text \<open>An installation can fault (a malformed package, an error variable that was never set); what
  it answers otherwise is one complete response.\<close>

lemma install_register_says:
  "represents st r \<Longrightarrow> says (rv_stream R) False any any r (install_register R F dir task st v)"
  unfolding install_register_def
  apply (rule says_world [where P = any], simp)
  apply (rule says_case_option)
   apply (erule answer_failure_says, simp)
  apply (erule result_json_says, simp add: json_lit_def renders_simps)
  done

lemma install_pieces_says [answers]:
  assumes r: "represents st r"
  shows "says (rv_stream R) False any any r (install_pieces R urls ssl st v)"
  unfolding install_pieces_def
  apply (intro says_case_prod says_let says_case_option)
   apply (rule throw_error_says [OF r, THEN says_weaken], simp, simp, simp)
  apply (rule says_obind [where P = any], simp)
  apply (rule says_let)
  apply (rule says_obind [where P = any], simp)
  apply (intro says_case_prod says_case_sum)
   apply (rule says_bind [OF throw_error_says [OF r]], erule says_Some, simp, simp)
  apply (rule says_bind [OF install_register_says [OF r]], erule says_Some, simp, simp)
  done

lemma install_direct_says:
  assumes r: "represents st r"
  shows "says (rv_stream R) False any any r (handle_api_install_direct R req ssl st v)"
  unfolding handle_api_install_direct_def
  apply (rule says_bind [OF request_field_says [OF r]], simp)
  apply (rule says_case_option, erule says_Some, simp, simp)
  apply (rule says_obind [where P = any], simp)
  apply (rule says_obind [where P = any], simp)
  apply (intro says_case_prod says_case_sum)
   apply (erule throw_error_says [THEN says_weaken], simp, simp, simp)
  apply (erule install_pieces_says [THEN says_weaken], simp, simp, simp)
  done

lemma install_ref_says:
  assumes r: "represents st r"
  shows "says (rv_stream R) False any any r (handle_api_install_ref_pkg_url R req ssl st v)"
  unfolding handle_api_install_ref_pkg_url_def
  apply (rule says_bind [OF request_str_says [OF r]], simp)
  apply (rule says_case_option, erule says_Some, simp, simp)
  apply (rule says_if, erule throw_error_says [THEN says_weaken], simp, simp, simp)
  apply (intro says_let says_case_prod says_case_option says_if)
    apply (erule throw_error_says [THEN says_weaken], simp, simp, simp)
   apply (erule throw_error_says [THEN says_weaken], simp, simp, simp)
  apply (rule says_obind [where P = any], simp)
  apply (intro says_let says_case_prod says_case_option)
   apply (erule throw_error_says [THEN says_weaken], simp, simp, simp)
  apply (erule install_pieces_says [THEN says_weaken], simp, simp, simp)
  done

lemma handle_api_install_says:
  assumes r: "represents st r"
  shows "says (rv_stream R) False any any r (handle_api_install R method path d st v)"
  unfolding handle_api_install_def
  apply (rule says_bind [OF request_parse_says [OF r]], simp)
  apply (rule says_case_option, erule says_Some, simp, simp)
  apply (rule says_let)
  apply (rule says_bind, erule request_bool_opt_says, simp)
  apply (rule says_case_option, erule says_Some, simp, simp)
  apply (rule says_let)
  apply (rule says_bind, erule request_str_says, simp)
  apply (rule says_case_option, erule says_Some, simp, simp)
  apply (intro says_if)
    apply (erule install_direct_says [THEN says_weaken], simp, simp, simp)
   apply (erule install_ref_says [THEN says_weaken], simp, simp, simp)
  apply (erule bad_request_says [THEN says_weaken], simp, simp, simp)
  done

section \<open>The interface of a handler\<close>

text \<open>What the dispatcher may expect of a handler: it answers every request once, and it does not
  fault where \<open>safe\<close> holds.\<close>

locale answering =
  fixes E :: "'v sb_env" and safe :: "'v \<Rightarrow> bool" and h :: "sb_Stream \<Rightarrow> 'v \<Rightarrow> (bool \<times> sb_Stream \<times> 'v) option"
  assumes answer: "represents st r \<Longrightarrow> says E (safe v) any any r (h st v)"
begin

lemma complete:
  assumes "represents st Unsent" and "h st v = Some (b, st', v')"
  shows "\<exists>r. represents st' r \<and> follows Unsent r \<and> (plenty E \<longrightarrow> head_sent r)"
  using answer [OF assms(1), of v] assms(2) by (auto simp: says_def)

lemma returns:
  assumes "represents st r" and "safe v"
  shows "h st v \<noteq> None"
  using answer [OF assms(1), of v] assms(2) by (auto simp: says_def)

end

interpretation uninstall: answering "rv_stream R" "\<lambda>v. data_ok d" "handle_api_uninstall R meth path d" for R meth path d
  by unfold_locales (rule handle_api_uninstall_says)

interpretation query: answering "rv_stream R" "\<lambda>v. data_ok d" "handle_api_is_exists R meth path d" for R meth path d
  by unfold_locales (rule handle_api_is_exists_says)

interpretation action: answering "rv_stream R" "\<lambda>v. data_ok d" "handle_api_task_action R meth path d" for R meth path d
  by unfold_locales (rule handle_api_task_action_says)

interpretation watch: answering "rv_stream R" "\<lambda>v. data_ok d" "handle_api_get_task_progress R meth path d" for R meth path d
  by unfold_locales (rule handle_api_get_task_progress_says)

interpretation lookup: answering "rv_stream R" "\<lambda>v. data_ok d" "handle_api_find_task R meth path d" for R meth path d
  by unfold_locales (rule handle_api_find_task_says)

interpretation settings: answering "rv_stream R" "\<lambda>v. False" "handle_api_settings R meth path d" for R meth path d
  by unfold_locales (rule handle_api_settings_says)

interpretation static: answering "rv_stream R" "\<lambda>v. rp_work_dir (fst v) \<noteq> None" "handle_static R meth path d" for R meth path d
  by unfold_locales (rule handle_static_says)

interpretation install: answering "rv_stream R" "\<lambda>v. False" "handle_api_install R meth path d" for R meth path d
  by unfold_locales (rule handle_api_install_says)

end
