(* ===== verification/Server.thy ===== *)
theory Server
  imports Replies
begin

text \<open>
  The dispatcher of server.c, the removal of old temporary files, and the start, the loop and the
  end of the server.  Every handler meets the interface \<open>answering\<close>, so that every request that is
  handed to the dispatcher gets one complete answer.
\<close>

section \<open>The table of handlers\<close>

definition METHOD_GET :: u32 where "METHOD_GET = 1"
definition METHOD_POST :: u32 where "METHOD_POST = 2"

record 'w handler_desc =
  hd_path :: string
  hd_handler :: "'w api"
  hd_methods :: u32
  hd_need_partial_match :: bool

text \<open>An entry that is matched as a whole and takes both methods.\<close>

definition endpoint :: "string \<Rightarrow> 'w api \<Rightarrow> 'w handler_desc" where
  "endpoint path h = \<lparr>hd_path = path, hd_handler = h, hd_methods = METHOD_GET OR METHOD_POST,
     hd_need_partial_match = False\<rparr>"

definition s_handlers :: "'w rpi_env \<Rightarrow> 'w handler_desc list" where
  "s_handlers R =
     [\<lparr>hd_path = ''/static/'', hd_handler = handle_static R, hd_methods = METHOD_GET, hd_need_partial_match = True\<rparr>,
      endpoint ''/api/install'' (handle_api_install R),
      endpoint ''/api/uninstall_game'' (handle_api_uninstall R),
      endpoint ''/api/uninstall_ac'' (handle_api_uninstall R),
      endpoint ''/api/uninstall_patch'' (handle_api_uninstall R),
      endpoint ''/api/uninstall_theme'' (handle_api_uninstall R),
      endpoint ''/api/is_exists'' (handle_api_is_exists R),
      endpoint ''/api/start_task'' (handle_api_task_action R),
      endpoint ''/api/stop_task'' (handle_api_task_action R),
      endpoint ''/api/pause_task'' (handle_api_task_action R),
      endpoint ''/api/resume_task'' (handle_api_task_action R),
      endpoint ''/api/unregister_task'' (handle_api_task_action R),
      endpoint ''/api/get_task_progress'' (handle_api_get_task_progress R),
      endpoint ''/api/find_task'' (handle_api_find_task R),
      endpoint ''/api/settings'' (handle_api_settings R)]"

fun find_handler :: "'w handler_desc list \<Rightarrow> u32 \<Rightarrow> string \<Rightarrow> 'w handler_desc option" where
  "find_handler [] wanted path = None"
| "find_handler (h # hs) wanted path =
     (if hd_methods h AND wanted = 0 then find_handler hs wanted path
      else if hd_need_partial_match h then
        (if strstr path (hd_path h) = Some 0 then Some h else find_handler hs wanted path)
      else if path = hd_path h then Some h else find_handler hs wanted path)"

section \<open>Dispatch\<close>

text \<open>The data of a request: the body of a POST, in the memory of the received text; the variable
  \<open>data\<close> of a GET, in an array of its own.  \<open>Inl\<close> is a variable that is too long.\<close>

definition post_data :: "sb_Stream \<Rightarrow> char list option" where
  "post_data st =
     (let b = st_recv_buf st; i = st_data_idx st in
      if 0 < i \<and> i < st_expected_recv_len st then Some (take (sb_len b + 1 - i) (drop i (sb_s b))) else None)"

definition query_data :: "sb_Stream \<Rightarrow> (unit + char list option) option" where
  "query_data st = do {
     (val, code) \<leftarrow> sb_get_var st ''data'' QUERY_DATA_SIZE;
     Some (if code = SB_ESUCCESS then Inr (Some (val @ [NUL]))
           else if code = SB_ETRUNCATED then Inl () else Inr None) }"

definition wanted_method :: "string \<Rightarrow> u32 option" where
  "wanted_method meth =
     (if strcasecmp_eq meth ''GET'' then Some METHOD_GET
      else if strcasecmp_eq meth ''POST'' then Some METHOD_POST else None)"

definition handle_event_request :: "'w rpi_env \<Rightarrow> string \<Rightarrow> string \<Rightarrow> ('w, cint) reply_op" where
  "handle_event_request R meth path st v =
     (if strcasecmp_eq meth ''OPTIONS'' then do {
        (_, st, v) \<leftarrow> kick_result_header_json R st v;
        Some (SB_RES_OK, st, v) }
      else case wanted_method meth of
        None \<Rightarrow> do {
          (_, st, v) \<leftarrow> kick_error R 400 ''Bad request'' (Some ''Unsupported method'') st v;
          Some (SB_RES_OK, st, v) }
      | Some wanted \<Rightarrow>
          (case find_handler (s_handlers R) wanted path of
             None \<Rightarrow> do {
               (_, st, v) \<leftarrow> kick_error R 404 ''Not found'' (Some ''Unknown endpoint'') st v;
               Some (SB_RES_OK, st, v) }
           | Some desc \<Rightarrow> do {
               in_data \<leftarrow> (if wanted = METHOD_POST then Some (Inr (post_data st)) else query_data st);
               case in_data of
                 Inl _ \<Rightarrow> do {
                   (_, st, v) \<leftarrow> kick_error R 400 ''Bad request'' (Some ''Query data too long'') st v;
                   Some (SB_RES_OK, st, v) }
               | Inr in_data \<Rightarrow> do {
                   (_, st, v) \<leftarrow> hd_handler desc meth path in_data st v;
                   Some (SB_RES_OK, st, v) } }))"

fun event_handler :: "'w rpi_env \<Rightarrow> 'w world sb_handler" where
  "event_handler R (EV_REQUEST meth path) st v = handle_event_request R meth path st v"
| "event_handler R EV_CONNECT st v = Some (SB_RES_OK, st, v)"
| "event_handler R EV_CLOSE st v = Some (SB_RES_OK, st, v)"

section \<open>Old temporary files\<close>

text \<open>The directory calls of the kernel.  \<open>de_now\<close> is the time of day (code, seconds and
  microseconds), \<open>de_getdents\<close> the result of the call and the bytes it stored, \<open>de_stat\<close> the code
  and the time of the last access.\<close>

record 'w dir_env =
  de_now :: "'w \<Rightarrow> (cint \<times> int \<times> int) \<times> 'w"
  de_open :: "string option \<Rightarrow> 'w \<Rightarrow> cint \<times> 'w"
  de_getdents :: "cint \<Rightarrow> nat \<Rightarrow> 'w \<Rightarrow> (cint \<times> char list) \<times> 'w"
  de_stat :: "string \<Rightarrow> 'w \<Rightarrow> (cint \<times> int) \<times> 'w"
  de_unlink :: "string \<Rightarrow> 'w \<Rightarrow> 'w"
  de_close :: "cint \<Rightarrow> 'w \<Rightarrow> cint \<times> 'w"

definition CLEANUP_DAY_COUNT :: int where "CLEANUP_DAY_COUNT = 3"
definition DIR_BUF_SIZE :: nat where "DIR_BUF_SIZE = 8192"

text \<open>\<open>struct dirent\<close> of dirent.h, in which \<open>d_fileno\<close> is a macro for \<open>d_ino\<close>.\<close>

definition OFFSET_D_INO :: nat where "OFFSET_D_INO = 4"
definition OFFSET_D_RECLEN :: nat where "OFFSET_D_RECLEN = 8"
definition OFFSET_D_TYPE :: nat where "OFFSET_D_TYPE = 10"
definition OFFSET_D_NAME :: nat where "OFFSET_D_NAME = 12"

text \<open>\<open>strcmp(m + k, s) == 0\<close>, which stops at the first difference.\<close>

fun streq_at :: "char list \<Rightarrow> nat \<Rightarrow> string \<Rightarrow> bool option" where
  "streq_at m k [] = do { x \<leftarrow> rd m k; Some (x = NUL) }"
| "streq_at m k (c # cs) = do { x \<leftarrow> rd m k; if x \<noteq> c then Some False else streq_at m (k + 1) cs }"

text \<open>\<open>d_fileno != 0 && strcmp(d_name, ".") != 0 && strcmp(d_name, "..") != 0 && d_type == 8\<close>.\<close>

definition regular_entry :: "char list \<Rightarrow> nat \<Rightarrow> bool option" where
  "regular_entry buf i = do {
     ino \<leftarrow> ld32 buf (i + OFFSET_D_INO);
     if ino = 0 then Some False
     else do {
       here \<leftarrow> streq_at buf (i + OFFSET_D_NAME) ''.'';
       if here then Some False
       else do {
         parent \<leftarrow> streq_at buf (i + OFFSET_D_NAME) ''..'';
         if parent then Some False
         else do {
           ty \<leftarrow> rd buf (i + OFFSET_D_TYPE);
           Some (chr_code ty = 8) } } } }"

definition tmp_name :: "string \<Rightarrow> bool" where
  "tmp_name name \<longleftrightarrow> starts_with name ''tmp_''
     \<and> (ends_with name ''.json'' \<or> ends_with name ''.sfo'' \<or> ends_with name ''.png'')"

text \<open>One entry; the result is whether the walk goes on, and not to \<open>err\<close>.\<close>

definition cleanup_entry ::
    "'w dir_env \<Rightarrow> string option \<Rightarrow> timespec \<Rightarrow> char list \<Rightarrow> nat \<Rightarrow> 'w \<Rightarrow> (bool \<times> 'w) option" where
  "cleanup_entry D dir now buf i w = do {
     regular \<leftarrow> regular_entry buf i;
     if \<not> regular then Some (True, w)
     else do {
       name \<leftarrow> cstr_at buf (i + OFFSET_D_NAME);
       let full_path = trunc_cpy 1024 ((case dir of None \<Rightarrow> ''(null)'' | Some d \<Rightarrow> d) @ ''/'' @ name);
       if \<not> tmp_name name then Some (True, w)
       else case de_stat D full_path w of
         ((ret, atime), w) \<Rightarrow>
           if ret \<noteq> 0 then Some (False, w)
           else Some (True,
             if atime \<le> tv_sec now \<and> CLEANUP_DAY_COUNT * 24 * 60 * 60 \<le> tv_sec now - atime
             then de_unlink D full_path w else w) } }"

function walk_entries ::
    "'w dir_env \<Rightarrow> string option \<Rightarrow> timespec \<Rightarrow> char list \<Rightarrow> nat \<Rightarrow> nat \<Rightarrow> 'w \<Rightarrow> (bool \<times> 'w) option" where
  "walk_entries D dir now buf dent_size i w =
     (if i + OFFSET_D_NAME \<le> dent_size then do {
        reclen \<leftarrow> map_option unat (ld16 buf (i + OFFSET_D_RECLEN));
        if reclen < OFFSET_D_NAME \<or> dent_size < i + reclen then Some (True, w)
        else do {
          (ok, w) \<leftarrow> cleanup_entry D dir now buf i w;
          if \<not> ok then Some (False, w) else walk_entries D dir now buf dent_size (i + reclen) w } }
      else Some (True, w))"
  by pat_completeness auto
termination by (relation "measure (\<lambda>(D, dir, now, buf, n, i, w). n - i)") (auto simp: OFFSET_D_NAME_def)

declare walk_entries.simps [simp del]

text \<open>The bytes that the kernel did not store are zero.\<close>

partial_function (option) read_dir ::
    "'w dir_env \<Rightarrow> string option \<Rightarrow> timespec \<Rightarrow> cint \<Rightarrow> 'w \<Rightarrow> 'w option" where
  "read_dir D dir now fd w =
     (case de_getdents D fd DIR_BUF_SIZE w of ((ret, bytes), w) \<Rightarrow>
        if sint ret \<le> 0 then Some w
        else if DIR_BUF_SIZE < length bytes \<or> sint ret \<noteq> int (length bytes) then None
        else do {
          (ok, w) \<leftarrow> walk_entries D dir now (bytes @ replicate (DIR_BUF_SIZE - length bytes) NUL) (nat (sint ret)) 0 w;
          if \<not> ok then Some w else read_dir D dir now fd w })"

definition cleanup_temp_files :: "'w dir_env \<Rightarrow> string option \<Rightarrow> 'w \<Rightarrow> 'w option" where
  "cleanup_temp_files D dir w =
     (case de_now D w of (tod, w) \<Rightarrow>
        (case timespec_now tod of
           None \<Rightarrow> Some w
         | Some now \<Rightarrow>
             (case de_open D dir w of (fd, w) \<Rightarrow>
                if sint fd < 0 then Some w
                else do { w \<leftarrow> read_dir D dir now fd w; Some (snd (de_close D fd w)) })))"

section \<open>The life of the server\<close>

record server =
  ss_server :: "sb_Server option"
  ss_started :: bool

definition server_static :: server where
  "server_static = \<lparr>ss_server = None, ss_started = False\<rparr>"

definition strdup :: "'w posix \<Rightarrow> string \<Rightarrow> 'w \<Rightarrow> string option \<times> 'w" where
  "strdup P s w = (case px_malloc P (length s + 1) w of (ok, w) \<Rightarrow> (if ok then Some s else None, w))"

definition server_options :: "cint \<Rightarrow> sb_Options" where
  "server_options port = \<lparr>op_host = None, op_port = Some (trunc_cpy 16 (fmt_d port)), op_timeout = Some ''0'',
     op_max_lifetime = Some ''0'', op_max_request_size = Some ''0''\<rparr>"

text \<open>The handler of the server is \<open>event_handler R\<close>; \<open>V\<close> are the sockets.\<close>

definition server_start ::
    "'w rpi_env \<Rightarrow> 'w dir_env \<Rightarrow> 'w world srv_env \<Rightarrow> string option \<Rightarrow> cint \<Rightarrow> string option \<Rightarrow> server \<Rightarrow> 'w world
      \<Rightarrow> (bool \<times> server \<times> 'w world) option" where
  "server_start R D V ip_address port work_dir S v =
     (if ss_started S then Some (True, S, v)
      else if ip_address = None \<or> ip_address = Some [] then Some (False, S, v)
      else do {
        let (ip, w) = strdup (rv_posix R) (the ip_address) (snd v);
        let st = (fst v)\<lparr>rp_ip_address := ip, rp_port := port\<rparr>;
        if work_dir = None \<or> work_dir = Some [] then Some (False, S, st\<lparr>rp_ip_address := None\<rparr>, w)
        else do {
          let (dir, w) = strdup (rv_posix R) (the work_dir) w;
          let st = st\<lparr>rp_work_dir := dir\<rparr>;
          w \<leftarrow> cleanup_temp_files D dir w;
          (s, v) \<leftarrow> sb_new_server V (event_handler R) (server_options port) (st, w);
          let S = S\<lparr>ss_server := s\<rparr>;
          if s = None
          then Some (False, S, (fst v)\<lparr>rp_work_dir := None, rp_ip_address := None\<rparr>, snd v)
          else Some (True, S\<lparr>ss_started := True\<rparr>, v) } })"

definition SERVER_POLL_INTERVAL_US :: nat where "SERVER_POLL_INTERVAL_US = 10 * 1000"

text \<open>One round of the loop: a poll, whatever its result, and the pause.\<close>

definition server_round ::
    "'w rpi_env \<Rightarrow> 'w world srv_env \<Rightarrow> (nat \<Rightarrow> 'w world \<Rightarrow> 'w world) \<Rightarrow> server \<Rightarrow> 'w world
      \<Rightarrow> (server \<times> 'w world) option" where
  "server_round R V usleep S v = do {
     s \<leftarrow> ss_server S;
     (ret, s, v) \<leftarrow> sb_poll_server V (event_handler R) s v;
     Some (S\<lparr>ss_server := Some s\<rparr>, usleep SERVER_POLL_INTERVAL_US v) }"

partial_function (option) listen_loop ::
    "'w rpi_env \<Rightarrow> 'w world srv_env \<Rightarrow> (nat \<Rightarrow> 'w world \<Rightarrow> 'w world) \<Rightarrow> server \<Rightarrow> 'w world
      \<Rightarrow> (server \<times> 'w world) option" where
  "listen_loop R V usleep S v =
     (if \<not> ss_started S then Some (S, v)
      else do { (S, v) \<leftarrow> server_round R V usleep S v; listen_loop R V usleep S v })"

definition server_listen ::
    "'w rpi_env \<Rightarrow> 'w world srv_env \<Rightarrow> (nat \<Rightarrow> 'w world \<Rightarrow> 'w world) \<Rightarrow> server \<Rightarrow> 'w world
      \<Rightarrow> (bool \<times> server \<times> 'w world) option" where
  "server_listen R V usleep S v =
     (if \<not> ss_started S then Some (False, S, v)
      else do { (S, v) \<leftarrow> listen_loop R V usleep S v; Some (True, S, v) })"

definition server_stop ::
    "'w rpi_env \<Rightarrow> 'w world srv_env \<Rightarrow> server \<Rightarrow> 'w world \<Rightarrow> (server \<times> 'w world) option" where
  "server_stop R V S v =
     (if \<not> ss_started S then Some (S, v)
      else do {
        s \<leftarrow> ss_server S;
        v \<leftarrow> sb_close_server (ve_env V) (event_handler R) s v;
        Some (\<lparr>ss_server = None, ss_started = False\<rparr>,
              (fst v)\<lparr>rp_work_dir := None, rp_ip_address := None, rp_port := 0\<rparr>, snd v) })"

section \<open>Every request is answered\<close>

text \<open>The endpoints whose handlers may fault: their calls reach code that may read outside its
  memory or use a variable that was never set.\<close>

definition risky :: "string \<Rightarrow> bool" where
  "risky path \<longleftrightarrow> path = ''/api/install'' \<or> path = ''/api/settings''"

definition desc_answers :: "'w rpi_env \<Rightarrow> 'w handler_desc \<Rightarrow> bool" where
  "desc_answers R h \<longleftrightarrow> (\<forall>meth path d st v r. represents st r \<longrightarrow>
     says (rv_stream R) (\<not> risky (hd_path h) \<and> data_ok d \<and> rp_work_dir (fst v) \<noteq> None) any any r
       (hd_handler h meth path d st v))"

lemma endpoint_answers:
  assumes "\<And>meth path d. answering (rv_stream R) (safe d) (h meth path d)"
    and "\<And>d v. \<not> risky p \<Longrightarrow> data_ok d \<Longrightarrow> safe d v"
  shows "desc_answers R (endpoint p h)"
  unfolding desc_answers_def endpoint_def
  by (auto intro: says_weaken [OF answering.answer [OF assms(1)]] assms(2))

lemmas handler_contracts = uninstall.answering_axioms query.answering_axioms action.answering_axioms
  watch.answering_axioms lookup.answering_axioms

lemma handlers_answer: "h \<in> set (s_handlers R) \<Longrightarrow> desc_answers R h"
proof -
  have "desc_answers R \<lparr>hd_path = ''/static/'', hd_handler = handle_static R, hd_methods = METHOD_GET,
      hd_need_partial_match = True\<rparr>"
    unfolding desc_answers_def by (auto intro: says_weaken [OF static.answer])
  moreover have "desc_answers R (endpoint ''/api/install'' (handle_api_install R))"
    by (rule endpoint_answers, rule install.answering_axioms) (simp add: risky_def)
  moreover have "desc_answers R (endpoint ''/api/settings'' (handle_api_settings R))"
    by (rule endpoint_answers, rule settings.answering_axioms) (simp add: risky_def)
  moreover have "desc_answers R (endpoint p (handle_api_uninstall R))" "desc_answers R (endpoint p (handle_api_is_exists R))"
    "desc_answers R (endpoint p (handle_api_task_action R))" "desc_answers R (endpoint p (handle_api_get_task_progress R))"
    "desc_answers R (endpoint p (handle_api_find_task R))" for p
    by (rule endpoint_answers, rule handler_contracts, assumption)+
  moreover assume "h \<in> set (s_handlers R)"
  ultimately show ?thesis unfolding s_handlers_def by auto
qed

lemma find_handler_in: "find_handler hs wanted path = Some h \<Longrightarrow> h \<in> set hs"
  by (induction hs) (auto split: if_splits)

lemma find_handler_path:
  "find_handler hs wanted path = Some h \<Longrightarrow> if hd_need_partial_match h then prefix (hd_path h) path else path = hd_path h"
  by (induction hs) (auto simp: strstr_0_iff split: if_splits)

lemma not_risky: "find_handler (s_handlers R) wanted path = Some h \<Longrightarrow> \<not> risky path \<Longrightarrow> \<not> risky (hd_path h)"
  using find_handler_in [of "s_handlers R" wanted path h] find_handler_path [of "s_handlers R" wanted path h]
  by (auto simp: s_handlers_def endpoint_def risky_def)

section \<open>The data of a ready request\<close>

lemma terminated_text: "terminated b \<Longrightarrow> i \<le> sb_len b \<Longrightarrow> cstr_at (sb_s b) i \<noteq> None"
proof -
  assume t: "terminated b" and i: "i \<le> sb_len b"
  then have "drop i (sb_s b) ! (sb_len b - i) = NUL" "sb_len b - i < length (drop i (sb_s b))"
    by (auto simp: terminated_def)
  then have "NUL \<in> set (drop i (sb_s b))" by (metis nth_mem)
  then show ?thesis unfolding cstr_at_def by simp
qed

lemma post_data_ok: "request_ready st \<Longrightarrow> data_ok (post_data st)"
proof -
  assume r: "request_ready st"
  let ?b = "st_recv_buf st" and ?i = "st_data_idx st"
  show ?thesis unfolding data_ok_def
  proof (intro allI impI)
    fix m assume m: "post_data st = Some m"
    then have i: "0 < ?i" "?i < st_expected_recv_len st" and e: "m = take (sb_len ?b + 1 - ?i) (drop ?i (sb_s ?b))"
      by (auto simp: post_data_def Let_def split: if_splits)
    with r have l: "?i < sb_len ?b" "sb_len ?b < length (sb_s ?b)" "sb_s ?b ! sb_len ?b = NUL"
      by (auto simp: request_ready_def body_bounds_def terminated_def)
    then have "length m = sb_len ?b + 1 - ?i" "m ! (sb_len ?b - ?i) = NUL" using e by simp_all
    with l have "m \<noteq> []" "m ! (length m - 1) = NUL" by auto
    then show "nulterm m" by (simp add: nulterm_def last_conv_nth)
  qed
qed

lemma query_data_run: "request_ready st \<Longrightarrow> run (query_data st) (\<lambda>x. \<forall>d. x = Inr d \<longrightarrow> data_ok d)"
proof -
  assume r: "request_ready st"
  then have b: "terminated (st_recv_buf st)" "st_data_idx st \<le> sb_len (st_recv_buf st)"
    by (auto simp: request_ready_def body_bounds_def)
  have t: "recv_text st 0 \<noteq> None" "recv_text st (st_data_idx st) \<noteq> None"
    unfolding recv_text_def using terminated_text [OF b(1)] b(2) by blast+
  then have "sb_get_var st ''data'' QUERY_DATA_SIZE \<noteq> None"
    by (auto simp: sb_get_var_def sb_get_var_ex_def Let_def split: option.splits)
  then show ?thesis by (auto simp: query_data_def run_def data_ok_def nulterm_def)
qed

lemma event_handler_says:
  assumes r: "request_ready st"
  shows "says (rv_stream R) (\<not> risky path \<and> rp_work_dir (fst v) \<noteq> None) (\<lambda>e. e = SB_RES_OK)
    (\<lambda>_. \<not> strcasecmp_eq meth ''OPTIONS'') Unsent (handle_event_request R meth path st v)"
proof -
  let ?t = "\<not> risky path \<and> rp_work_dir (fst v) \<noteq> None"
  from r have u: "represents st Unsent" by (simp add: request_ready_def)
  have err: "says (rv_stream R) ?t (\<lambda>e. e = SB_RES_OK) (\<lambda>_. \<not> strcasecmp_eq meth ''OPTIONS'') Unsent
      (kick_error R c a b st v \<bind> (\<lambda>(_, st, v). Some (SB_RES_OK, st, v)))" for c a b
    by (rule says_bind [OF kick_error_says [OF u]], erule says_Some; simp)
  show ?thesis
    unfolding handle_event_request_def
  proof (intro says_if says_case_option)
    assume "strcasecmp_eq meth ''OPTIONS''"
    then show "says (rv_stream R) ?t (\<lambda>e. e = SB_RES_OK) (\<lambda>_. \<not> strcasecmp_eq meth ''OPTIONS'') Unsent
        (kick_result_header_json R st v \<bind> (\<lambda>(_, st, v). Some (SB_RES_OK, st, v)))"
      by (intro says_bind [OF kick_result_header_says [OF u]] says_Some) simp_all
  next
    fix wanted desc
    assume f: "find_handler (s_handlers R) wanted path = Some desc"
    note a = handlers_answer [OF find_handler_in [OF f], unfolded desc_answers_def, rule_format, OF u]
    show "says (rv_stream R) ?t (\<lambda>e. e = SB_RES_OK) (\<lambda>_. \<not> strcasecmp_eq meth ''OPTIONS'') Unsent
       ((if wanted = METHOD_POST then Some (Inr (post_data st)) else query_data st) \<bind> (\<lambda>in_data.
         case in_data of
           Inl _ \<Rightarrow> kick_error R 400 ''Bad request'' (Some ''Query data too long'') st v \<bind>
             (\<lambda>(_, st, v). Some (SB_RES_OK, st, v))
         | Inr in_data \<Rightarrow> hd_handler desc meth path in_data st v \<bind> (\<lambda>(_, st, v). Some (SB_RES_OK, st, v))))"
    proof (rule says_obind [where P = "\<lambda>x. \<forall>d. x = Inr d \<longrightarrow> data_ok d"], goal_cases)
      case 1
      then show ?case using query_data_run [OF r] post_data_ok [OF r] by (auto simp: run_simps)
    next
      case (2 x)
      show ?case
      proof (rule says_case_sum)
        fix d assume d: "x = Inr d"
        have "says (rv_stream R) ?t any any Unsent (hd_handler desc meth path d st v)"
          by (rule says_weaken [OF a]) (use 2(2) d not_risky [OF f] in auto)
        then show "says (rv_stream R) ?t (\<lambda>e. e = SB_RES_OK) (\<lambda>_. \<not> strcasecmp_eq meth ''OPTIONS'') Unsent
           (hd_handler desc meth path d st v \<bind> (\<lambda>(_, st, v). Some (SB_RES_OK, st, v)))"
          by (rule says_bind) (erule says_Some; simp)
      qed (rule err)
    qed
  qed (rule err)+
qed

section \<open>Answers written out\<close>

text \<open>\<open>becomes r x\<close>: the computation returns, and the response is then \<open>r\<close>.\<close>

definition becomes :: "reply \<Rightarrow> ('a \<times> sb_Stream \<times> 'v) option \<Rightarrow> bool" where
  "becomes r x \<longleftrightarrow> run x (\<lambda>(a, st, v). represents st r)"

lemma becomes_Some: "represents st r \<Longrightarrow> becomes r (Some (a, st, v))"
  by (simp add: becomes_def run_simps)

lemma becomes_bind:
  assumes "becomes r1 x" and "\<And>a st v. represents st r1 \<Longrightarrow> becomes r (k a st v)"
  shows "becomes r (x \<bind> (\<lambda>(a, st, v). k a st v))"
  using assms by (auto simp: becomes_def run_def)

lemma becomes_case_prod: "(\<And>x y. p = (x, y) \<Longrightarrow> becomes r (f x y)) \<Longrightarrow> becomes r (case p of (x, y) \<Rightarrow> f x y)"
  by (cases p) simp

lemma becomes_let: "(\<And>y. y = x \<Longrightarrow> becomes r (f y)) \<Longrightarrow> becomes r (let y = x in f y)"
  by simp

lemma refines_becomes:
  assumes "run x (refines_to r new)" and "\<And>err st v. x = Some (err, st, v) \<Longrightarrow> err = 0"
  shows "becomes new x"
  using assms by (fastforce simp: becomes_def run_def refines_to_def)

lemma send_status_becomes:
  "plenty E \<Longrightarrow> represents st Unsent \<Longrightarrow> becomes (Heading code msg []) (sb_send_status E code msg st v)"
  using send_status_refines [of st Unsent E code msg v] by (auto intro: refines_becomes send_status_plenty)

lemma send_header_plenty:
  "plenty E \<Longrightarrow> represents st (Heading c m hs) \<Longrightarrow> sb_send_header E f x st v = Some (err, st', v') \<Longrightarrow> err = 0"
  by (auto simp: sb_send_header_def represents_def sb_codes dest: send_writef_plenty)

lemma send_header_becomes:
  "plenty E \<Longrightarrow> represents st (Heading c m hs) \<Longrightarrow> becomes (Heading c m (hs @ [(f, x)])) (sb_send_header E f x st v)"
  using send_header_refines [of st "Heading c m hs" E f x v] by (auto intro: refines_becomes send_header_plenty)

lemma writef_becomes:
  assumes "plenty E" and r: "represents st (Heading c m hs)" and "render fmt args = Some out"
  shows "becomes (Body c m hs out) (sb_writef E fmt args st v)"
proof (rule refines_becomes)
  show "run (sb_writef E fmt args st v) (refines_to (Heading c m hs) (Body c m hs out))"
    using writef_refines [OF r assms(3), of E v] by simp
next
  fix err st' v' assume w: "sb_writef E fmt args st v = Some (err, st', v')"
  have d: "st_state st < SENDING_DATA" using r by (simp add: represents_def)
  obtain e st1 v1 where f: "sb_stream_finalize_header E st v = Some (e, st1, v1)"
    and "refines_to (Heading c m hs) (Body c m hs []) (e, st1, v1)"
    using finalize_refines [OF r, of E v] by (auto simp: run_def)
  with finalize_plenty [OF assms(1) r f] have "e = 0" "st_state st1 = SENDING_DATA"
    by (auto simp: refines_to_def represents_def)
  with w d f show "err = 0" by (auto simp: sb_writef_def dest: send_writef_plenty [OF assms(1)])
qed

definition cors_headers :: "(string \<times> string) list" where
  "cors_headers = [(''Content-Type'', ''application/json''), (''Access-Control-Allow-Origin'', ''*''),
     (''Access-Control-Allow-Methods'', ''*''), (''Access-Control-Allow-Headers'', ''*''), (''Connection'', ''close'')]"

definition error_body :: "string \<Rightarrow> string" where
  "error_body msg = ''{ '' @ json_quoted ''status'' @ '': '' @ json_quoted ''fail'' @ '', '' @ json_quoted ''error''
     @ '': '' @ json_quoted msg @ '' }'' @ [CHR 0x0A]"

lemma set_cors_becomes:
  assumes "plenty (rv_stream R)" and "represents st (Heading c m [])"
  shows "becomes (Heading c m (butlast cors_headers)) (set_cors_header R st v)"
  unfolding set_cors_header_def
  apply (insert assms(2))
  apply (rule becomes_bind, erule send_header_becomes [OF assms(1)])+
  apply (rule becomes_Some, simp add: cors_headers_def)
  done

lemma result_header_becomes:
  assumes "plenty (rv_stream R)" and "represents st Unsent"
  shows "becomes (Heading 200 ''OK'' cors_headers) (kick_result_header_json R st v)"
  unfolding kick_result_header_json_def
  apply (rule becomes_bind, rule send_status_becomes [OF assms])
  apply (rule becomes_bind, erule set_cors_becomes [OF assms(1)])
  apply (rule becomes_bind, erule send_header_becomes [OF assms(1)])
  apply (rule becomes_Some, simp add: cors_headers_def)
  done

lemma error_render:
  "render (json_lit ''{ `status`: `fail`, `error`: `%s` }'') [VaStr (Some e)] = Some (error_body e)"
  by (simp add: json_lit_def error_body_def json_quoted_def render.simps)

lemma becomesE:
  assumes "becomes r x"
  obtains a st v where "x = Some (a, st, v)" and "represents st r"
  using assms by (auto simp: becomes_def run_def)

lemma kick_error_becomes:
  assumes "plenty (rv_stream R)" and "represents st Unsent"
  shows "\<exists>e. becomes (Body code title cors_headers (error_body e)) (kick_error R code title (Some msg) st v)"
proof -
  note p = assms(1)
  from send_status_becomes [OF assms, of code title v] obtain a1 st1 v1 where
    1: "sb_send_status (rv_stream R) code title st v = Some (a1, st1, v1)" "represents st1 (Heading code title [])" by (rule becomesE)
  from set_cors_becomes [OF p 1(2), of v1] obtain a2 st2 v2 where
    2: "set_cors_header R st1 v1 = Some (a2, st2, v2)" "represents st2 (Heading code title (butlast cors_headers))" by (rule becomesE)
  from send_header_becomes [OF p 2(2), of "''Connection''" "''close''" v2] obtain a3 st3 v3 where
    3: "sb_send_header (rv_stream R) ''Connection'' ''close'' st2 v2 = Some (a3, st3, v3)"
      "represents st3 (Heading code title cors_headers)" by (rule becomesE) (simp add: cors_headers_def)
  obtain e v4 where 4: "escape_json R 1024 msg v3 = (e, v4)" by (metis prod.exhaust)
  let ?e = "case e of None \<Rightarrow> ''Unable to escape error string.'' | Some e \<Rightarrow> e"
  from writef_becomes [OF p 3(2) error_render, of ?e v4] obtain a5 st5 v5 where
    5: "sb_writef (rv_stream R) (json_lit ''{ `status`: `fail`, `error`: `%s` }'') [VaStr (Some ?e)] st3 v4 = Some (a5, st5, v5)"
      "represents st5 (Body code title cors_headers (error_body ?e))" by (rule becomesE)
  from 1 2 3 4 5 have "becomes (Body code title cors_headers (error_body ?e)) (kick_error R code title (Some msg) st v)"
    by (simp add: kick_error_def becomes_def run_simps)
  then show ?thesis ..
qed

section \<open>Files outside the working directory\<close>

text \<open>Only \<open>sb_send_file\<close> opens a file: the other response functions do not depend on \<open>se_open\<close>.\<close>

named_theorems no_open \<open>functions that open no file\<close>

lemma env_no_open [no_open]:
  "se_realloc (E\<lparr>se_open := f\<rparr>) = se_realloc E" "se_junk (E\<lparr>se_open := f\<rparr>) = se_junk E"
  "se_fstat (E\<lparr>se_open := f\<rparr>) = se_fstat E" "se_close (E\<lparr>se_open := f\<rparr>) = se_close E"
  by simp_all

lemma sel_open: "se_open (E\<lparr>se_open := f\<rparr>) = f"
  by simp

lemma push_char_no_open [no_open]: "sb_buffer_push_char (E\<lparr>se_open := f\<rparr>) = sb_buffer_push_char E"
  by (intro ext) (simp only: sb_buffer_push_char_def sb_buffer_reserve_def no_open)

lemma push_str_loop_no_open: "push_str_loop (E\<lparr>se_open := f\<rparr>) p n b w = push_str_loop E p n b w"
  by (induction p arbitrary: b w) (simp_all only: push_str_loop.simps no_open)

lemma push_str_no_open [no_open]: "sb_buffer_push_str (E\<lparr>se_open := f\<rparr>) = sb_buffer_push_str E"
  by (intro ext) (simp only: sb_buffer_push_str_def push_str_loop_no_open)

lemma vwritef_loop_no_open: "vwritef_loop (E\<lparr>se_open := f\<rparr>) n fmt args b w = vwritef_loop E n fmt args b w"
proof (induction "length fmt" arbitrary: fmt args b w rule: less_induct)
  case less
  note v = vwritef_loop.simps [of "E\<lparr>se_open := f\<rparr>" n fmt] vwritef_loop.simps [of E n fmt] no_open
  show ?case
  proof (cases fmt)
    case (Cons c cs)
    then have cs: "length cs < length fmt" "length (tl cs) < length fmt" by simp_all
    show ?thesis
    proof (cases "c \<noteq> CHR ''%'' \<or> cs \<noteq> [] \<and> hd cs = CHR ''s''")
      case True
      show ?thesis
      proof (cases "c \<noteq> CHR ''%''")
        case plain: True
        show ?thesis unfolding v by (simp only: Cons list.case less [OF cs(1)] if_P [OF plain])
      next
        case False
        with True have s: "cs \<noteq> [] \<and> hd cs = CHR ''s''" by blast
        show ?thesis unfolding v by (simp only: Cons list.case less [OF cs(2)] if_not_P [OF False] if_P [OF s])
      qed
    next
      case False
      then have n: "\<not> c \<noteq> CHR ''%''" "\<not> (cs \<noteq> [] \<and> hd cs = CHR ''s'')" by blast+
      show ?thesis
      proof (cases "format_spec cs args")
        case (Some x)
        obtain tx rest as where x: "x = (tx, rest, as)" by (metis prod_cases3)
        with Some format_spec_shorter [of cs args tx rest as] cs have "length rest < length fmt" by simp
        note l = less [OF this]
        show ?thesis unfolding v by (simp only: Cons list.case option.case prod.case l Some x if_not_P [OF n(1)] if_not_P [OF n(2)])
      qed (unfold v, simp only: Cons list.case option.case if_not_P [OF n(1)] if_not_P [OF n(2)])
    qed
  qed (unfold v, simp)
qed

lemma send_writef_no_open [no_open]: "send_writef (E\<lparr>se_open := f\<rparr>) = send_writef E"
  by (intro ext) (simp only: send_writef_def sb_buffer_vwritef_def vwritef_loop_no_open)

lemma send_push_no_open [no_open]: "send_push (E\<lparr>se_open := f\<rparr>) = send_push E"
  by (intro ext) (simp only: send_push_def no_open)

lemma send_status_no_open [no_open]: "sb_send_status (E\<lparr>se_open := f\<rparr>) = sb_send_status E"
  by (intro ext) (simp only: sb_send_status_def no_open)

lemma finalize_no_open [no_open]: "sb_stream_finalize_header (E\<lparr>se_open := f\<rparr>) = sb_stream_finalize_header E"
  by (intro ext) (simp only: sb_stream_finalize_header_def no_open)

lemma send_header_no_open [no_open]: "sb_send_header (E\<lparr>se_open := f\<rparr>) = sb_send_header E"
  by (intro ext) (simp only: sb_send_header_def no_open)

lemma writef_no_open [no_open]: "sb_writef (E\<lparr>se_open := f\<rparr>) = sb_writef E"
  by (intro ext) (simp only: sb_writef_def no_open)

lemma send_file_open: "f p = se_open E p \<Longrightarrow> sb_send_file (E\<lparr>se_open := f\<rparr>) p = sb_send_file E p"
  by (intro ext) (simp only: sb_send_file_def no_open sb_env.simps sel_open)

text \<open>A path below the directory that does not climb out of it, and an environment in which
  every other path is answered in some other way.\<close>

definition inside :: "string \<Rightarrow> string \<Rightarrow> bool" where
  "inside dir p \<longleftrightarrow> prefix (dir @ ''/'') p \<and> \<not> sublist ''..'' (drop (length dir + 1) p)"

definition elsewhere ::
    "string \<Rightarrow> (string \<Rightarrow> 'w \<Rightarrow> (cint \<times> bool) \<times> 'w) \<Rightarrow> (string \<Rightarrow> 'w world \<Rightarrow> cint \<times> 'w world) \<Rightarrow> 'w rpi_env \<Rightarrow> 'w rpi_env" where
  "elsewhere dir stat' open' R = R\<lparr>
     rv_stat := \<lambda>p. if inside dir p then rv_stat R p else stat' p,
     rv_stream := (rv_stream R)\<lparr>se_open := \<lambda>p. if inside dir p then se_open (rv_stream R) p else open' p\<rparr>\<rparr>"

lemma elsewhere_simps [simp]:
  "rv_pkg (elsewhere dir s f R) = rv_pkg R"
  "rv_stream (elsewhere dir s f R) = (rv_stream R)\<lparr>se_open := \<lambda>p. if inside dir p then se_open (rv_stream R) p else f p\<rparr>"
  "inside dir p \<Longrightarrow> rv_stat (elsewhere dir s f R) p = rv_stat R p"
  by (simp_all add: elsewhere_def)

lemma kick_error_elsewhere [simp]: "kick_error (elsewhere dir s f R) = kick_error R"
  by (intro ext) (simp only: kick_error_def set_cors_header_def escape_json_def elsewhere_simps no_open)

lemma send_file_elsewhere:
  "inside dir p \<Longrightarrow> sb_send_file (rv_stream (elsewhere dir s f R)) p = sb_send_file (rv_stream R) p"
  unfolding elsewhere_simps by (rule send_file_open) simp

lemma static_path_inside:
  assumes "length dir < 1023" and "\<not> sublist ''..'' path"
  shows "inside dir (trunc_cpy 1024 (dir @ ''/'' @ drop 8 path))"
proof -
  let ?tail = "take (1022 - length dir) (drop 8 path)"
  have e: "trunc_cpy 1024 (dir @ ''/'' @ drop 8 path) = (dir @ ''/'') @ ?tail"
    using assms(1) by (simp add: trunc_cpy_def take_Cons' Suc_diff_Suc)
  have "sublist ?tail path"
    by (rule sublist_order.order_trans [OF sublist_take sublist_drop])
  with assms(2) have "\<not> sublist ''..'' ?tail" by (meson sublist_order.order_trans)
  then show ?thesis unfolding e inside_def by simp
qed

section \<open>What the cleanup removes\<close>

text \<open>The files of a device with the time of their last access: only \<open>de_unlink\<close> changes them, and
  \<open>de_stat\<close> reports them.\<close>

definition dir_ok :: "'w dir_env \<Rightarrow> ('w \<Rightarrow> string \<Rightarrow> int option) \<Rightarrow> bool" where
  "dir_ok D files \<longleftrightarrow>
     (\<forall>w. files (snd (de_now D w)) = files w) \<and> (\<forall>p w. files (snd (de_open D p w)) = files w) \<and>
     (\<forall>fd n w. files (snd (de_getdents D fd n w)) = files w) \<and> (\<forall>fd w. files (snd (de_close D fd w)) = files w) \<and>
     (\<forall>p w. files (snd (de_stat D p w)) = files w) \<and>
     (\<forall>p w a w'. de_stat D p w = ((0, a), w') \<longrightarrow> files w p = Some a) \<and>
     (\<forall>p w. files (de_unlink D p w) = (files w)(p := None))"

text \<open>A temporary file of the directory that nobody has touched for three days, and a change that
  removes at most such files.\<close>

definition stale :: "string \<Rightarrow> int \<Rightarrow> (string \<Rightarrow> int option) \<Rightarrow> string \<Rightarrow> bool" where
  "stale dir now F p \<longleftrightarrow> (\<exists>name a. p = trunc_cpy 1024 (dir @ ''/'' @ name) \<and> tmp_name name
     \<and> F p = Some a \<and> 3 * 24 * 60 * 60 \<le> now - a)"

definition prunes :: "string \<Rightarrow> int \<Rightarrow> (string \<Rightarrow> int option) \<Rightarrow> (string \<Rightarrow> int option) \<Rightarrow> bool" where
  "prunes dir now F F' \<longleftrightarrow> (\<forall>p. F' p = F p \<or> F' p = None \<and> stale dir now F p)"

lemma prunes_refl: "F' = F \<Longrightarrow> prunes dir now F F'"
  by (simp add: prunes_def)

lemma prunes_trans: "prunes dir now F G \<Longrightarrow> prunes dir now G H \<Longrightarrow> prunes dir now F H"
  unfolding prunes_def stale_def by (metis option.distinct(1))

lemma cleanup_entry_prunes:
  assumes ok: "dir_ok D files" and e: "cleanup_entry D (Some dir) now buf i w = Some (go, w')"
  shows "prunes dir (tv_sec now) (files w) (files w')"
proof -
  from e obtain regular where r: "regular_entry buf i = Some regular" by (auto simp: cleanup_entry_def bind_eq_Some_conv)
  show ?thesis
  proof (cases regular)
    case True
    with e r obtain name where n: "cstr_at buf (i + OFFSET_D_NAME) = Some name" by (auto simp: cleanup_entry_def bind_eq_Some_conv)
    let ?p = "trunc_cpy 1024 (dir @ ''/'' @ name)"
    obtain ret a w1 where s: "de_stat D ?p w = ((ret, a), w1)" by (metis prod.exhaust)
    have f: "files w1 = files w" and u: "files (de_unlink D ?p w1) = (files w)(?p := None)"
      using ok s unfolding dir_ok_def by (metis snd_conv)+
    have "ret = 0 \<Longrightarrow> files w ?p = Some a" using ok s unfolding dir_ok_def by blast
    with e r True n s f u show ?thesis
      by (auto simp: cleanup_entry_def CLEANUP_DAY_COUNT_def prunes_def stale_def Let_def split: if_splits)
  qed (use e r in \<open>auto simp: cleanup_entry_def intro: prunes_refl\<close>)
qed

lemma walk_entries_prunes:
  assumes ok: "dir_ok D files"
  shows "walk_entries D (Some dir) now buf n i w = Some (go, w') \<Longrightarrow> prunes dir (tv_sec now) (files w) (files w')"
proof (induction "n - i" arbitrary: i w rule: less_induct)
  case less
  note e = less.prems [unfolded walk_entries.simps [of D "Some dir" now buf n i w]]
  show ?case
  proof (cases "i + OFFSET_D_NAME \<le> n")
    case False
    with e show ?thesis by (simp add: prunes_refl)
  next
    case True
    with e obtain len where l: "map_option unat (ld16 buf (i + OFFSET_D_RECLEN)) = Some len" by (auto simp: bind_eq_Some_conv)
    show ?thesis
    proof (cases "len < OFFSET_D_NAME \<or> n < i + len")
      case True
      with e l \<open>i + OFFSET_D_NAME \<le> n\<close> show ?thesis by (simp add: prunes_refl)
    next
      case False
      with e l True obtain c w1 where c: "cleanup_entry D (Some dir) now buf i w = Some (c, w1)"
        and k: "(if \<not> c then Some (False, w1) else walk_entries D (Some dir) now buf n (i + len) w1) = Some (go, w')"
        by (auto simp: bind_eq_Some_conv)
      note p = cleanup_entry_prunes [OF ok c]
      have "n - (i + len) < n - i" using False True by (auto simp: OFFSET_D_NAME_def)
      from less.hyps [OF this, of w1] k p show ?thesis by (cases c) (auto intro: prunes_trans)
    qed
  qed
qed

lemma read_dir_prunes:
  fixes D :: "'w dir_env"
  assumes ok: "dir_ok D files" and r: "read_dir D (Some dir) now fd w = Some w'"
  shows "prunes dir (tv_sec now) (files w) (files w')"
proof -
  define P where "P E d t x v v' \<longleftrightarrow> (E = D \<and> d = Some dir \<and> t = now \<longrightarrow> prunes dir (tv_sec now) (files v) (files v'))"
    for E :: "'w dir_env" and d :: "string option" and t :: timespec and x :: cint and v v' :: 'w
  have "P D (Some dir) now fd w w'"
  proof (rule read_dir.raw_induct [of P, OF _ r])
    fix f E d t x v v'
    assume IH: "\<And>E d t x v v'. f E d t x v = Some v' \<Longrightarrow> P E d t x v v'"
      and e: "(case de_getdents E x DIR_BUF_SIZE v of ((ret, bytes), w) \<Rightarrow>
        if sint ret \<le> 0 then Some w
        else if DIR_BUF_SIZE < length bytes \<or> sint ret \<noteq> int (length bytes) then None
        else do {
          (ok, w) \<leftarrow> walk_entries E d t (bytes @ replicate (DIR_BUF_SIZE - length bytes) NUL) (nat (sint ret)) 0 w;
          if \<not> ok then Some w else f E d t x w }) = Some v'"
    show "P E d t x v v'" unfolding P_def
    proof (intro impI, elim conjE)
      assume D: "E = D" "d = Some dir" "t = now"
      obtain ret bytes w1 where g: "de_getdents D x DIR_BUF_SIZE v = ((ret, bytes), w1)" by (metis prod.exhaust)
      with ok have f1: "files w1 = files v" unfolding dir_ok_def by (metis snd_conv)
      show "prunes dir (tv_sec now) (files v) (files v')"
      proof (cases "sint ret \<le> 0")
        case True
        with e D g f1 show ?thesis by (simp add: prunes_refl)
      next
        case False
        with e D g obtain go w2 where k: "walk_entries D (Some dir) now (bytes @ replicate (DIR_BUF_SIZE - length bytes) NUL)
            (nat (sint ret)) 0 w1 = Some (go, w2)" and go: "(if \<not> go then Some w2 else f D (Some dir) now x w2) = Some v'"
          by (auto simp: bind_eq_Some_conv split: if_splits)
        from walk_entries_prunes [OF ok k] f1 have "prunes dir (tv_sec now) (files v) (files w2)" by simp
        with go IH [of D "Some dir" now x w2 v'] show ?thesis
          by (cases go) (auto simp: P_def intro: prunes_trans)
      qed
    qed
  qed
  then show ?thesis by (simp add: P_def)
qed

section \<open>Start and end\<close>

lemma new_server_serves: "sb_new_server V h opt w = Some (Some s, w') \<Longrightarrow> serves s []"
  by (auto simp: sb_new_server_def Let_def bind_eq_Some_conv intro!: serves_empty
      split: prod.splits bool.splits option.splits if_splits)

lemma stop_idle:
  assumes "ss_started S" and "ss_server S = Some s" and "serves s []"
  shows "\<exists>w. server_stop R V S v = Some (server_static,
     (fst w)\<lparr>rp_work_dir := None, rp_ip_address := None, rp_port := 0\<rparr>, snd w)"
proof -
  from assms(3) have "sv_streams s = None" by (simp add: serves_def stream_list_def)
  with assms(1,2) show ?thesis
    by (auto simp: server_stop_def close_server_empty server_static_def)
qed

text \<open>The loop of a started server goes on for ever.\<close>

lemma round_started: "server_round R V usleep S v = Some (S', v') \<Longrightarrow> ss_started S' = ss_started S"
  by (auto simp: server_round_def bind_eq_Some_conv)

lemma listen_loop_never_ends: "listen_loop R V usleep S v = Some x \<Longrightarrow> \<not> ss_started S"
proof (rule listen_loop.raw_induct [of "\<lambda>R V u S v x. \<not> ss_started S"])
  fix f R V usleep S v x
  assume IH: "\<And>R V u S v x. f R V u S v = Some x \<Longrightarrow> \<not> ss_started S"
    and e: "(if \<not> ss_started S then Some (S, v)
      else do { (S, v) \<leftarrow> server_round R V usleep S v; f R V usleep S v }) = Some x"
  show "\<not> ss_started S"
  proof
    assume "ss_started S"
    with e obtain S' v' where "server_round R V usleep S v = Some (S', v')" "f R V usleep S' v' = Some x"
      by (auto simp: bind_eq_Some_conv)
    with IH [of R V usleep S' v' x] round_started \<open>ss_started S\<close> show False by blast
  qed
qed

section \<open>A small device\<close>

text \<open>Its world is the list of the paths of its files; memory never runs out, downloads fail, and the
  services answer as the small console does.\<close>

definition roomy_env :: "'v sb_env" where
  "roomy_env = \<lparr>
     se_malloc = \<lambda>w. (True, w), se_realloc = \<lambda>n w. (True, w), se_junk = \<lambda>i w. CHR ''?'',
     se_recv = \<lambda>fd n w. ((0, [], False), w), se_send = \<lambda>fd bs w. ((int (length bs), False), w),
     se_read = \<lambda>fd n w. ((0, []), w), se_open = \<lambda>p w. (-1, w), se_fstat = \<lambda>fd w. ((-1, 0), w),
     se_shutdown = \<lambda>fd w. w, se_close = \<lambda>fd w. w, se_time = \<lambda>w. 0, se_now = \<lambda>w. 0,
     se_address = \<lambda>fd w. ''127.0.0.1''\<rparr>"

definition desk_http :: "string list http_lib" where
  "desk_http =
     \<lparr>hl_posix = console_posix,
      sceSslInit = (\<lambda>n w. (1, w)), sceSslTerm = (\<lambda>i w. (0, w)),
      sceHttpInit = (\<lambda>m s n w. (1, w)), sceHttpTerm = (\<lambda>i w. (0, w)),
      sceHttpCreateTemplate = (\<lambda>c w. (1, w)), sceHttpDeleteTemplate = (\<lambda>i w. (0, w)),
      sceHttpsEnableOption = (\<lambda>i f w. (0, w)), sceHttpsDisableOption = (\<lambda>i f w. (0, w)),
      sceHttpsLoadCert = (\<lambda>i d w. (0, w)), sceHttpsUnloadCert = (\<lambda>i w. (0, w)),
      sceHttpCreateConnectionWithURL = (\<lambda>i u w. (-1, w)), sceHttpDeleteConnection = (\<lambda>i w. (0, w)),
      sceHttpCreateRequestWithURL = (\<lambda>i m u n w. (-1, w)), sceHttpDeleteRequest = (\<lambda>i w. (0, w)),
      sceHttpAddRequestHeader = (\<lambda>i n v w. (0, w)), sceHttpSendRequest = (\<lambda>i d w. (0, w)),
      sceHttpGetLastErrno = (\<lambda>i w. ((0, 0), w)), sceHttpGetStatusCode = (\<lambda>i w. ((0, 200), w)),
      sceHttpGetResponseContentLength = (\<lambda>i w. ((0, 0, 0), w)),
      sceHttpReadData = (\<lambda>i n w. ((0, []), w)),
      sceHttpUriUnescape = (\<lambda>n s w. ((0, length s + 1, s), w)),
      sceNpUtilJsonEscape = (\<lambda>n s w. ((0, s), w)),
      ORBIS_HTTP_CONTENTLEN_EXIST = 0, ORBIS_METHOD_GET = 0, O_TRUNC = 0x400\<rparr>"

definition desk :: "string list rpi_env" where
  "desk = \<lparr>rv_stream = roomy_env,
     rv_pkg = \<lparr>pe_http = desk_http, pe_fopen = (\<lambda>p w. ((None, 2), w)), pe_fputs = (\<lambda>fp s w. w),
       pe_fclose = (\<lambda>fp w. w), pe_errors = \<lparr>ORBIS_EINVAL = 22, ORBIS_ENOSPC = 28, ORBIS_ENXIO = 6\<rparr>\<rparr>,
     rv_installer = console 0, rv_language = (\<lambda>w. ((0, 1), w)), rv_stream_address = (\<lambda>w. 0x200000),
     rv_stat = (\<lambda>p w. if p \<in> set w then ((0, True), w) else ((-1, False), w))\<rparr>"

definition desk_state :: rpi where
  "desk_state = \<lparr>rp_http = http_static, rp_installer = installer_static, rp_ip_address = Some ''10.0.0.2'',
     rp_port = 12801, rp_work_dir = Some ''/data''\<rparr>"

text \<open>A stream with a received request line and nothing sent.\<close>

definition asked_stream :: sb_Stream where
  "asked_stream = ready_stream\<lparr>st_recv_buf := \<lparr>sb_s = ''GET /nowhere HTTP/1.1'' @ CRLF @ CRLF @ [NUL], sb_len = 25\<rparr>\<rparr>"

lemma asked_stream_ready: "request_ready asked_stream"
proof -
  have "terminated (st_recv_buf asked_stream)"
    by (simp add: asked_stream_def terminated_def sb_wf_def CRLF_def)
  moreover have "represents asked_stream Unsent"
    using ready_stream_represents by (simp add: asked_stream_def represents_def)
  ultimately show ?thesis
    by (simp add: request_ready_def body_bounds_def asked_stream_def ready_stream_def fresh_stream_def)
qed

lemma desk_simps [simp]: "rv_stream desk = roomy_env" "plenty roomy_env"
  by (simp_all add: desk_def plenty_def roomy_env_def)

section \<open>Properties\<close>



text \<open>C11: once the server has its working directory, no request to an endpoint other than install
  and settings makes the dispatcher read or write outside its memory, use a null pointer or run
  forever, whatever the client sent as method, path, query and body.\<close>

theorem requests_do_not_fault:
  assumes "request_ready st" and "\<not> risky path" and "rp_work_dir (fst v) \<noteq> None"
  shows "event_handler R (EV_REQUEST meth path) st v \<noteq> None"
  using event_handler_says [OF assms(1), of R path v meth] assms(2,3) by (simp add: says_def)

theorem requests_do_not_fault_witness:
  "event_handler desk (EV_REQUEST ''POST'' ''/static/icon.png'') asked_stream (desk_state, [''/data/icon.png'']) \<noteq> None"
  by (rule requests_do_not_fault [OF asked_stream_ready]) (simp_all add: risky_def desk_state_def)

text \<open>C28: requests that reach no handler get a fixed answer if there is memory: an OPTIONS request
  a head with the five headers that stops without the empty line that would end it; an
  unknown method the whole of a 400 error, and a path that no entry of the table matches for
  the method the whole of a 404 error.\<close>

theorem unrouted_answers:
  assumes "request_ready st" and "plenty (rv_stream R)"
    and "\<And>m. wanted_method meth = Some m \<Longrightarrow> find_handler (s_handlers R) m path = None"
  shows "\<exists>st' v' e. event_handler R (EV_REQUEST meth path) st v = Some (SB_RES_OK, st', v')
    \<and> sb_content (st_send_buf st') = reply_text
       (if strcasecmp_eq meth ''OPTIONS'' then Heading 200 ''OK'' cors_headers
        else if wanted_method meth = None then Body 400 ''Bad request'' cors_headers (error_body e)
        else Body 404 ''Not found'' cors_headers (error_body e))"
proof -
  from assms(1) have u: "represents st Unsent" by (simp add: request_ready_def)
  have content: "represents st' r \<Longrightarrow> sb_content (st_send_buf st') = reply_text r" for st' r
    by (simp add: represents_def)
  obtain st1 v1 where 1: "kick_result_header_json R st v = Some ((), st1, v1)" "represents st1 (Heading 200 ''OK'' cors_headers)"
    using result_header_becomes [OF assms(2) u, of v] by (auto elim!: becomesE)
  have "\<exists>st2 v2 e. kick_error R code title (Some msg) st v = Some ((), st2, v2)
      \<and> sb_content (st_send_buf st2) = reply_text (Body code title cors_headers (error_body e))" for code title msg
  proof -
    obtain e a st2 v2 where "kick_error R code title (Some msg) st v = Some (a, st2, v2)"
      and "represents st2 (Body code title cors_headers (error_body e))"
      using kick_error_becomes [OF assms(2) u, of code title msg v] by (auto elim!: becomesE)
    with content show ?thesis by auto
  qed
  from this [of 400 "''Bad request''" "''Unsupported method''"] this [of 404 "''Not found''" "''Unknown endpoint''"]
  show ?thesis
    using 1 content [OF 1(2)] assms(3)
    by (cases "strcasecmp_eq meth ''OPTIONS''"; cases "wanted_method meth")
      (auto simp: handle_event_request_def)
qed

theorem unrouted_answers_witness:
  "\<exists>st' v'. event_handler desk (EV_REQUEST ''OPTIONS'' ''/'') asked_stream (desk_state, []) = Some (SB_RES_OK, st', v')
    \<and> sb_content (st_send_buf st') = reply_text (Heading 200 ''OK'' cors_headers)"
proof -
  have "strcasecmp_eq ''OPTIONS'' ''OPTIONS''" "wanted_method ''OPTIONS'' = None" by code_simp+
  then show ?thesis
    using unrouted_answers [OF asked_stream_ready, of desk "''OPTIONS''" "''/''" "(desk_state, [])"] by simp
qed

text \<open>C13: a request for a static file only ever looks at paths below the working directory that do
  not climb out of it: whatever the file system would answer for any other path makes no
  difference to what the handler does and sends.\<close>

theorem static_stays_inside:
  assumes "rp_work_dir (fst v) = Some dir" and "length dir < 1023"
  shows "handle_static (elsewhere dir stat' open' R) meth path d st v = handle_static R meth path d st v"
proof (cases "\<not> starts_with path ''/static/'' \<or> strstr path '':/'' \<noteq> None \<or> strstr path ''..'' \<noteq> None")
  case True
  then show ?thesis unfolding handle_static_def if_P [OF True] by simp
next
  case False
  then have "\<not> sublist ''..'' path" by (simp add: strstr_None_iff)
  note i = static_path_inside [OF assms(2) this]
  show ?thesis unfolding handle_static_def if_not_P [OF False] assms(1) Option.bind.bind_lunit Let_def
    by (simp only: elsewhere_simps(3) [OF i] send_file_elsewhere [OF i] kick_error_elsewhere)
      (simp only: elsewhere_simps no_open)
qed

theorem static_stays_inside_witness:
  "handle_static (elsewhere ''/data'' (\<lambda>p w. ((0, True), w)) (\<lambda>p v. (9, v)) desk) ''GET'' ''/static/a.png'' None
      asked_stream (desk_state, [])
    = handle_static desk ''GET'' ''/static/a.png'' None asked_stream (desk_state, [])"
  by (rule static_stays_inside) (simp_all add: desk_state_def)

text \<open>C21: at the start the server removes no file other than stale ones: files in its directory
  whose names start with \<open>tmp_\<close> and end in \<open>.json\<close>, \<open>.sfo\<close> or \<open>.png\<close>, and whose last access is
  at least three days before the present time.  This holds whatever bytes the kernel reports as the
  content of the directory.\<close>

theorem cleanup_removes_stale:
  assumes "dir_ok D files" and "fst (de_now D w) = (ret, sec, usec)" and "cleanup_temp_files D (Some dir) w = Some w'"
  shows "files w' p = files w p \<or> files w' p = None \<and> stale dir sec (files w) p"
proof -
  obtain w1 where n: "de_now D w = ((ret, sec, usec), w1)" using assms(2) by (metis prod.collapse)
  obtain fd w2 where o2: "de_open D (Some dir) w1 = (fd, w2)" by (metis prod.exhaust)
  have f: "files w1 = files w" "files w2 = files w" using assms(1) n o2 unfolding dir_ok_def by (metis snd_conv)+
  have "prunes dir sec (files w) (files w')"
  proof (cases "ret \<noteq> 0 \<or> sint fd < 0")
    case True
    with assms(3) n o2 f show ?thesis
      by (auto simp: cleanup_temp_files_def timespec_now_def split: if_splits intro: prunes_refl)
  next
    case False
    let ?now = "\<lparr>tv_sec = sec, tv_nsec = usec_to_nsec usec\<rparr>"
    from False assms(3) n o2 obtain w3 where r: "read_dir D (Some dir) ?now fd w2 = Some w3"
      and w': "w' = snd (de_close D fd w3)"
      by (auto simp: cleanup_temp_files_def timespec_now_def bind_eq_Some_conv)
    from assms(1) w' have "files w' = files w3" unfolding dir_ok_def by blast
    with read_dir_prunes [OF assms(1) r] f show ?thesis by simp
  qed
  then show ?thesis by (simp add: prunes_def)
qed

text \<open>A directory with two entries, whose world is what the next call reports and the files.\<close>

definition dir_record :: "string \<Rightarrow> char list" where
  "dir_record name = replicate 4 NUL @ [CHR 0x01, NUL, NUL, NUL, char_of (13 + length name), NUL, CHR 0x08, NUL] @ name @ [NUL]"

type_synonym drawer = "char list \<times> (string \<times> int) list"

definition drawer_env :: "drawer dir_env" where
  "drawer_env = \<lparr>de_now = (\<lambda>w. ((0, 1000000, 0), w)), de_open = (\<lambda>p w. (3, w)),
     de_getdents = (\<lambda>fd n w. ((word_of_nat (length (fst w)), fst w), ([], snd w))),
     de_stat = (\<lambda>p w. (case map_of (snd w) p of None \<Rightarrow> (-1, 0) | Some a \<Rightarrow> (0, a), w)),
     de_unlink = (\<lambda>p w. (fst w, filter (\<lambda>(q, a). q \<noteq> p) (snd w))), de_close = (\<lambda>fd w. (0, w))\<rparr>"

lemma map_of_filter_key: "map_of (filter (\<lambda>(q, a). q \<noteq> p) xs) = (map_of xs)(p := None)"
  by (induction xs) (auto simp: fun_eq_iff)

lemma drawer_ok: "dir_ok drawer_env (\<lambda>w. map_of (snd w))"
  by (auto simp: dir_ok_def drawer_env_def map_of_filter_key split: option.splits)

definition old_drawer :: drawer where
  "old_drawer = (dir_record ''tmp_a.sfo'' @ dir_record ''tmp_b.sfo'' @ dir_record ''c.sfo'',
     [(''/d/tmp_a.sfo'', 5), (''/d/tmp_b.sfo'', 999999), (''/d/c.sfo'', 5)])"

lemma drawer_names: "tmp_name ''tmp_a.sfo''" "tmp_name ''tmp_b.sfo''" "\<not> tmp_name ''c.sfo''"
  by code_simp+

lemma drawer_codes:
  "le_word [CHR 0x16, NUL] = (22 :: u16)" "le_word [CHR 0x12, NUL] = (18 :: u16)"
  "le_word [CHR 0x01, NUL, NUL, NUL] = (1 :: u32)"
  by code_simp+

lemma old_drawer_eq:
  "old_drawer = ([NUL, NUL, NUL, NUL, CHR 0x01, NUL, NUL, NUL, CHR 0x16, NUL, CHR 0x08, NUL] @ ''tmp_a.sfo'' @ [NUL]
     @ [NUL, NUL, NUL, NUL, CHR 0x01, NUL, NUL, NUL, CHR 0x16, NUL, CHR 0x08, NUL] @ ''tmp_b.sfo'' @ [NUL]
     @ [NUL, NUL, NUL, NUL, CHR 0x01, NUL, NUL, NUL, CHR 0x12, NUL, CHR 0x08, NUL] @ ''c.sfo'' @ [NUL],
     [(''/d/tmp_a.sfo'', 5), (''/d/tmp_b.sfo'', 999999), (''/d/c.sfo'', 5)])"
  by code_simp

lemma drawer_walk:
  "walk_entries drawer_env (Some ''/d'') \<lparr>tv_sec = 1000000, tv_nsec = 0\<rparr> (fst old_drawer @ pad) 62 0 ([], snd old_drawer)
     = Some (True, [], [(''/d/tmp_b.sfo'', 999999), (''/d/c.sfo'', 5)])"
  unfolding old_drawer_eq fst_conv snd_conv
  by (simp add: walk_entries.simps ld16_def ld32_def OFFSET_D_INO_def OFFSET_D_RECLEN_def OFFSET_D_NAME_def
      OFFSET_D_TYPE_def drawer_codes cleanup_entry_def regular_entry_def cstr_at_def drawer_names Let_def
      drawer_env_def CLEANUP_DAY_COUNT_def trunc_cpy_def chr_code_def)

lemma drawer_reads:
  "de_getdents drawer_env fd n old_drawer = ((62, fst old_drawer), ([], snd old_drawer))"
  "de_getdents drawer_env fd n ([], xs) = ((0, []), ([], xs))"
  by (simp_all add: drawer_env_def old_drawer_eq)

lemma drawer_cleanup:
  "cleanup_temp_files drawer_env (Some ''/d'') old_drawer = Some ([], [(''/d/tmp_b.sfo'', 999999), (''/d/c.sfo'', 5)])"
proof -
  let ?now = "\<lparr>tv_sec = 1000000, tv_nsec = 0\<rparr>"
  have l: "length (fst old_drawer) = 62" "\<not> DIR_BUF_SIZE < 62" by (simp_all add: old_drawer_eq DIR_BUF_SIZE_def)
  have s: "sint (62 :: cint) = 62" by simp
  have two: "read_dir drawer_env (Some ''/d'') ?now 3 ([], xs) = Some ([], xs)" for xs
    by (subst read_dir.simps) (simp add: drawer_reads)
  have "read_dir drawer_env (Some ''/d'') ?now 3 old_drawer = Some ([], [(''/d/tmp_b.sfo'', 999999), (''/d/c.sfo'', 5)])"
    by (subst read_dir.simps) (simp add: drawer_reads l s drawer_walk two)
  moreover have "de_now drawer_env old_drawer = ((0, 1000000, 0), old_drawer)"
    "de_open drawer_env (Some ''/d'') old_drawer = (3, old_drawer)" "snd (de_close drawer_env 3 v) = v" for v
    by (simp_all add: drawer_env_def)
  ultimately show ?thesis
    by (simp add: cleanup_temp_files_def timespec_now_def usec_to_nsec_def)
qed

theorem cleanup_removes_stale_witness:
  "stale ''/d'' 1000000 (map_of (snd old_drawer)) ''/d/tmp_a.sfo''"
proof -
  have "fst (de_now drawer_env old_drawer) = (0, 1000000, 0)" by (simp add: drawer_env_def)
  moreover have "map_of (snd old_drawer) ''/d/tmp_a.sfo'' = Some 5" by (simp add: old_drawer_eq)
  ultimately show ?thesis
    using cleanup_removes_stale [OF drawer_ok _ drawer_cleanup, of 0 1000000 0 "''/d/tmp_a.sfo''"] by simp
qed


definition desk_dir :: "string list dir_env" where
  "desk_dir = \<lparr>de_now = (\<lambda>w. ((0, 1000000, 0), w)), de_open = (\<lambda>p w. (3, w)),
     de_getdents = (\<lambda>fd n w. ((0, []), w)), de_stat = (\<lambda>p w. ((-1, 0), w)), de_unlink = (\<lambda>p w. w),
     de_close = (\<lambda>fd w. (0, w))\<rparr>"

definition desk_sockets :: "string list world srv_env" where
  "desk_sockets = \<lparr>ve_env = roomy_env, ve_erange = (\<lambda>w. False), ve_inet_pton = (\<lambda>h w. (1, w)),
     ve_socket = (\<lambda>w. (5, w)), ve_getfl = (\<lambda>fd w. (0, w)), ve_setfl = (\<lambda>fd fl w. (0, w)), ve_O_NONBLOCK = 4,
     ve_setsockopt = (\<lambda>fd w. (0, w)), ve_bind = (\<lambda>fd p w. (0, w)), ve_listen = (\<lambda>fd n w. (0, w)),
     ve_mutex_init = (\<lambda>w. (0, w)), ve_accept = (\<lambda>fd w. (-1, w)), ve_address = (\<lambda>H w. 9),
     ve_pthread_create = (\<lambda>i w. (0, w))\<rparr>"

lemma desk_starts:
  "\<exists>S' v'. server_start desk desk_dir desk_sockets (Some ''10.0.0.2'') 80 (Some ''/data'') server_static (desk_state, [])
     = Some (True, S', v')"
proof -
  have p: "strtol0 (trunc_cpy 16 (fmt_d 80)) = (2, 80, False)" by code_simp
  have "read_dir desk_dir dir now fd w = Some w" for dir now fd w
    by (subst read_dir.simps) (simp add: desk_dir_def)
  then have c: "cleanup_temp_files desk_dir (Some ''/data'') [] = Some []"
    by (simp add: cleanup_temp_files_def desk_dir_def timespec_now_def)
  have d: "strdup (rv_posix desk) s w = (Some s, w)" for s w
    by (simp add: strdup_def desk_def desk_http_def console_posix_def)
  obtain s where n: "sb_new_server desk_sockets (event_handler desk) (server_options 80) v = Some (Some s, v)" for v
    by (simp add: sb_new_server_def server_port_def server_options_def p desk_sockets_def roomy_env_def USHRT_MAX_def
        set_socket_blocking_def INVALID_SOCKET_def Let_def)
  show ?thesis
    by (simp add: server_start_def server_static_def d c Let_def n)
qed


end
