(* ===== verification/Net.thy ===== *)
theory Net
  imports Util Lifecycle
begin

text \<open>
  The network library of net.c: the three layers it brings up and takes down again, the memory
  pool it owns while it is up, and the address of the device.
\<close>

section \<open>State and services\<close>

record net =
  s_libnet_mem_id :: cint
  s_net_initialized :: bool

definition net_static :: net where
  "net_static = \<lparr>s_libnet_mem_id = -1, s_net_initialized = False\<rparr>"

text \<open>\<open>sceNetCtlGetInfo\<close> returns its code and the array with the address, up to the terminator.\<close>

record 'w net_lib =
  sceNetCtlInit :: "'w \<Rightarrow> cint \<times> 'w"
  sceNetInit :: "'w \<Rightarrow> cint \<times> 'w"
  sceNetPoolCreate :: "nat \<Rightarrow> 'w \<Rightarrow> cint \<times> 'w"
  sceNetPoolDestroy :: "cint \<Rightarrow> 'w \<Rightarrow> cint \<times> 'w"
  sceNetTerm :: "'w \<Rightarrow> cint \<times> 'w"
  sceNetCtlTerm :: "'w \<Rightarrow> 'w"
  sceNetCtlGetInfo :: "'w \<Rightarrow> (cint \<times> string) \<times> 'w"

definition NET_HEAP_SIZE :: nat where "NET_HEAP_SIZE = 1 * 1024 * 1024"

definition net_init :: "'w net_lib \<Rightarrow> net \<Rightarrow> 'w \<Rightarrow> bool \<times> net \<times> 'w" where
  "net_init L N w =
     (if s_net_initialized N then (True, N, w)
      else case sceNetCtlInit L w of (ret, w) \<Rightarrow>
        if ret \<noteq> 0 then (False, N, w)
        else case sceNetInit L w of (ret, w) \<Rightarrow>
          if ret \<noteq> 0 then (False, N, sceNetCtlTerm L w)
          else case sceNetPoolCreate L NET_HEAP_SIZE w of (ret, w) \<Rightarrow>
            if sint ret < 0 then (False, N, sceNetCtlTerm L (snd (sceNetTerm L w)))
            else (True, N\<lparr>s_libnet_mem_id := ret, s_net_initialized := True\<rparr>, w))"

definition net_get_mem_id :: "net \<Rightarrow> cint" where
  "net_get_mem_id N = (if \<not> s_net_initialized N then -1 else s_libnet_mem_id N)"

definition net_fini :: "'w net_lib \<Rightarrow> net \<Rightarrow> 'w \<Rightarrow> net \<times> 'w" where
  "net_fini L N w =
     (if \<not> s_net_initialized N then (N, w)
      else
        let w = snd (sceNetPoolDestroy L (s_libnet_mem_id N) w);
            N = N\<lparr>s_libnet_mem_id := -1\<rparr>;
            w = snd (sceNetTerm L w);
            w = sceNetCtlTerm L w
        in (N\<lparr>s_net_initialized := False\<rparr>, w))"

text \<open>The size of the array in \<open>OrbisNetCtlInfo\<close>.\<close>

definition SIZEOF_IP_ADDRESS :: nat where "SIZEOF_IP_ADDRESS = 16"

definition net_get_ipv4 :: "'w net_lib \<Rightarrow> nat \<Rightarrow> 'w \<Rightarrow> (cint \<times> string option) \<times> 'w" where
  "net_get_ipv4 L buf_size w =
     (if buf_size < SIZEOF_IP_ADDRESS then ((0x80020016, None), w)
      else case sceNetCtlGetInfo L w of ((ret, ip), w) \<Rightarrow>
        if ret \<noteq> 0 then ((ret, None), w) else ((ret, Some (trunc_cpy buf_size ip)), w))"

section \<open>Starting and stopping\<close>

interpretation net: owning_cycle s_net_initialized "\<lambda>N w. Some (net_init L N w)" "net_fini L"
  "\<lambda>N. s_libnet_mem_id N \<noteq> -1" for L
  by unfold_locales (auto simp: net_init_def net_fini_def Let_def split: prod.splits if_splits)

text \<open>The layers that are up, in the order in which they came up, for some way of telling it from
  the world: each call works on the top of the stack.\<close>

datatype net_layer = NetCtl | NetCore | NetPool cint

definition net_tracking :: "'w net_lib \<Rightarrow> ('w \<Rightarrow> net_layer list) \<Rightarrow> bool" where
  "net_tracking L layers \<longleftrightarrow>
     (\<forall>w r w'. sceNetCtlInit L w = (r, w') \<longrightarrow> layers w' = (if r = 0 then NetCtl # layers w else layers w)) \<and>
     (\<forall>w r w'. sceNetInit L w = (r, w') \<longrightarrow> layers w' = (if r = 0 then NetCore # layers w else layers w)) \<and>
     (\<forall>n w r w'. sceNetPoolCreate L n w = (r, w') \<longrightarrow>
        layers w' = (if 0 \<le> sint r then NetPool r # layers w else layers w)) \<and>
     (\<forall>i w rest. layers w = NetPool i # rest \<longrightarrow> layers (snd (sceNetPoolDestroy L i w)) = rest) \<and>
     (\<forall>w rest. layers w = NetCore # rest \<longrightarrow> layers (snd (sceNetTerm L w)) = rest) \<and>
     (\<forall>w rest. layers w = NetCtl # rest \<longrightarrow> layers (sceNetCtlTerm L w) = rest)"

text \<open>What the library holds while it is up lies on top of what was there before.\<close>

definition net_layers :: "net \<Rightarrow> net_layer list" where
  "net_layers N = (if s_net_initialized N then [NetPool (s_libnet_mem_id N), NetCore, NetCtl] else [])"

lemma net_init_layers:
  assumes "net_tracking L layers" and "\<not> s_net_initialized N" and "net_init L N w = (ok, N', w')"
  shows "layers w' = net_layers N' @ layers w"
proof -
  note T = assms(1) [unfolded net_tracking_def]
  obtain r1 w1 where 1: "sceNetCtlInit L w = (r1, w1)" by (metis prod.exhaust)
  obtain r2 w2 where 2: "sceNetInit L w1 = (r2, w2)" by (metis prod.exhaust)
  obtain r3 w3 where 3: "sceNetPoolCreate L NET_HEAP_SIZE w2 = (r3, w3)" by (metis prod.exhaust)
  have l: "layers w1 = (if r1 = 0 then NetCtl # layers w else layers w)"
    "layers w2 = (if r2 = 0 then NetCore # layers w1 else layers w1)"
    "layers w3 = (if 0 \<le> sint r3 then NetPool r3 # layers w2 else layers w2)"
    using T 1 2 3 by blast+
  have t: "layers v = NetCtl # rest \<Longrightarrow> layers (sceNetCtlTerm L v) = rest"
    "layers v = NetCore # rest \<Longrightarrow> layers (snd (sceNetTerm L v)) = rest" for v rest
    using T by blast+
  show ?thesis
    using assms(2,3) 1 2 3 l
    by (auto simp: net_init_def net_layers_def t split: if_splits)
qed

lemma net_fini_layers:
  assumes "net_tracking L layers" and "layers w = net_layers N @ rest" and "net_fini L N w = (N', w')"
  shows "layers w' = rest"
proof (cases "s_net_initialized N")
  case True
  note T = assms(1) [unfolded net_tracking_def]
  let ?w1 = "snd (sceNetPoolDestroy L (s_libnet_mem_id N) w)"
  let ?w2 = "snd (sceNetTerm L ?w1)"
  have "layers w = NetPool (s_libnet_mem_id N) # NetCore # NetCtl # rest"
    using assms(2) True by (simp add: net_layers_def)
  then have "layers ?w1 = NetCore # NetCtl # rest" using T by blast
  then have "layers ?w2 = NetCtl # rest" using T by blast
  then have "layers (sceNetCtlTerm L ?w2) = rest" using T by blast
  with assms(3) True show ?thesis by (simp add: net_fini_def Let_def)
qed (use assms(2,3) in \<open>simp add: net_fini_def net_layers_def\<close>)

section \<open>Properties\<close>

text \<open>C36: bringing the network up and down is balanced: a start that fails at any of its steps
  takes down, in reverse order, exactly the layers it had brought up; one that succeeds leaves the
  three layers up, with the pool whose identifier is handed out, and stopping then takes all
  three down again.\<close>

theorem net_layers_balanced:
  assumes "net_tracking L layers" and "\<not> s_net_initialized N" and "net_init L N w = (ok, N', w')"
  shows "if ok then layers w' = [NetPool (net_get_mem_id N'), NetCore, NetCtl] @ layers w
      \<and> layers (snd (net_fini L N' w')) = layers w
    else layers w' = layers w"
proof -
  have up: "s_net_initialized N' \<longleftrightarrow> ok" using net.start_up [of L N w ok N' w'] assms(3) by simp
  note l = net_init_layers [OF assms]
  obtain N2 w2 where f: "net_fini L N' w' = (N2, w2)" by (metis prod.exhaust)
  from net_fini_layers [OF assms(1) l f] f l up show ?thesis
    by (auto simp: net_layers_def net_get_mem_id_def)
qed

text \<open>A device whose world is the stack of its layers; \<open>pool\<close> is what creating a pool returns.\<close>

definition net_desk :: "cint \<Rightarrow> net_layer list net_lib" where
  "net_desk pool = \<lparr>sceNetCtlInit = (\<lambda>w. (0, NetCtl # w)), sceNetInit = (\<lambda>w. (0, NetCore # w)),
     sceNetPoolCreate = (\<lambda>n w. (pool, if 0 \<le> sint pool then NetPool pool # w else w)),
     sceNetPoolDestroy = (\<lambda>i w. (0, tl w)), sceNetTerm = (\<lambda>w. (0, tl w)), sceNetCtlTerm = tl,
     sceNetCtlGetInfo = (\<lambda>w. ((0, ''10.0.0.2''), w))\<rparr>"

lemma net_desk_tracking: "net_tracking (net_desk pool) (\<lambda>w. w)"
  by (auto simp: net_tracking_def net_desk_def)

theorem net_layers_balanced_witness:
  "net_init (net_desk (-1)) net_static [] = (False, net_static, []) \<and> net_get_mem_id net_static = -1
    \<and> snd (net_fini (net_desk 4) \<lparr>s_libnet_mem_id = 4, s_net_initialized = True\<rparr> [NetPool 4, NetCore, NetCtl]) = []"
proof -
  have "net_init (net_desk (-1)) net_static [] = (False, net_static, [])"
    "net_init (net_desk 4) net_static [] = (True, \<lparr>s_libnet_mem_id = 4, s_net_initialized = True\<rparr>, [NetPool 4, NetCore, NetCtl])"
    by (simp_all add: net_init_def net_desk_def net_static_def)
  with net_layers_balanced [OF net_desk_tracking _ this(2)] show ?thesis
    by (simp add: net_static_def net_get_mem_id_def)
qed

end
