(* ===== verification/Program.thy ===== *)
theory Program
  imports Server Net
begin

text \<open>
  The program as main.c puts it together: the credentials of the process, the system modules, and
  the services, each brought up on top of the one before and taken down in reverse order when a
  later one fails, when the server ends, or at the exit.
\<close>

section \<open>State and services\<close>

datatype sysmodule =
  SYSCORE | SYSTEM_SERVICE | USER_SERVICE | NETCTL | NET | HTTP | SSL | APP_INST_UTIL | BGFT | NP_COMMON

record jbc_cred =
  jc_uid :: u32
  jc_ruid :: u32
  jc_svuid :: u32
  jc_rgid :: u32
  jc_svgid :: u32
  jc_prison :: u64
  jc_cdir :: u64
  jc_rdir :: u64
  jc_jdir :: u64
  jc_sceProcType :: u64
  jc_sonyCred :: u64
  jc_sceProcCap :: u64

text \<open>\<open>pg_set_cred\<close> is whether the pointer \<open>jbc_set_cred\<close> is set.\<close>

record program =
  pg_rpi :: rpi
  pg_net :: net
  pg_server :: server
  s_modules_loaded :: bool
  s_jailbroken :: bool
  pg_og :: jbc_cred
  pg_set_cred :: bool

text \<open>\<open>sy_dlsym\<close> returns whether the pointer is set after the look-up, and \<open>sy_pool\<close> what the
  uninitialised pool of the settings parser holds.\<close>

record 'w sys_lib =
  sy_rpi :: "'w rpi_env"
  sy_dir :: "'w dir_env"
  sy_sockets :: "'w world srv_env"
  sy_net :: "'w net_lib"
  sy_usleep :: "nat \<Rightarrow> 'w world \<Rightarrow> 'w world"
  sy_pool :: "'w \<Rightarrow> json_t list"
  sy_load_module :: "sysmodule \<Rightarrow> 'w \<Rightarrow> cint \<times> 'w"
  sy_unload_module :: "sysmodule \<Rightarrow> 'w \<Rightarrow> cint \<times> 'w"
  sy_load_jbc :: "'w \<Rightarrow> cint \<times> 'w"
  sy_dlsym :: "string \<Rightarrow> 'w \<Rightarrow> bool \<times> 'w"
  sy_load_exec :: "'w \<Rightarrow> 'w"
  sy_get_cred :: "'w \<Rightarrow> jbc_cred \<times> 'w"
  sy_jailbreak_cred :: "'w \<Rightarrow> jbc_cred \<times> 'w"
  sy_set_cred :: "jbc_cred \<Rightarrow> 'w \<Rightarrow> 'w"
  sceUserServiceInitialize :: "'w \<Rightarrow> cint \<times> 'w"
  sceUserServiceTerminate :: "'w \<Rightarrow> cint \<times> 'w"

section \<open>Credentials\<close>

definition jailbreak :: "'w sys_lib \<Rightarrow> program \<Rightarrow> 'w \<Rightarrow> program \<times> 'w" where
  "jailbreak A P w =
     (case sy_load_jbc A w of (handle, w) \<Rightarrow>
        if sint handle \<le> 0 then (P, sy_load_exec A w)
        else case sy_dlsym A ''jbc_get_cred'' w of (getc, w) \<Rightarrow>
          case sy_dlsym A ''jbc_jailbreak_cred'' w of (jb, w) \<Rightarrow>
          case sy_dlsym A ''jbc_set_cred'' w of (setc, w) \<Rightarrow>
            let P = P\<lparr>pg_set_cred := setc\<rparr> in
            if \<not> getc \<or> \<not> jb \<or> \<not> setc then (P, sy_load_exec A w)
            else case sy_get_cred A w of (og, w) \<Rightarrow>
              case sy_jailbreak_cred A w of (cred, w) \<Rightarrow>
                (P\<lparr>pg_og := og, s_jailbroken := True\<rparr>, sy_set_cred A cred w))"

definition unjailbreak :: "'w sys_lib \<Rightarrow> program \<Rightarrow> 'w \<Rightarrow> program \<times> 'w" where
  "unjailbreak A P w =
     (if s_jailbroken P \<and> pg_set_cred P then (P\<lparr>s_jailbroken := False\<rparr>, sy_set_cred A (pg_og P) w) else (P, w))"

section \<open>Modules\<close>

text \<open>The modules in the order in which \<open>load_modules\<close> loads them.  A failure jumps to the label that
  unloads the modules loaded so far, the last one first, and falls through the labels after it.\<close>

definition rpi_modules :: "sysmodule list" where
  "rpi_modules = [SYSCORE, SYSTEM_SERVICE, USER_SERVICE, NETCTL, NET, HTTP, SSL, APP_INST_UTIL, BGFT, NP_COMMON]"

definition unload_list :: "'w sys_lib \<Rightarrow> sysmodule list \<Rightarrow> 'w \<Rightarrow> 'w" where
  "unload_list A ms w = fold (\<lambda>m w. snd (sy_unload_module A m w)) ms w"

fun load_list :: "'w sys_lib \<Rightarrow> sysmodule list \<Rightarrow> sysmodule list \<Rightarrow> 'w \<Rightarrow> bool \<times> 'w" where
  "load_list A loaded [] w = (True, w)"
| "load_list A loaded (m # ms) w =
     (case sy_load_module A m w of (ret, w) \<Rightarrow>
        if ret \<noteq> 0 then (False, unload_list A loaded w) else load_list A (m # loaded) ms w)"

definition load_modules :: "'w sys_lib \<Rightarrow> program \<Rightarrow> 'w \<Rightarrow> bool \<times> program \<times> 'w" where
  "load_modules A P w =
     (if s_modules_loaded P then (True, P, w)
      else case load_list A [] rpi_modules w of (ok, w) \<Rightarrow>
        (ok, if ok then P\<lparr>s_modules_loaded := True\<rparr> else P, w))"

definition unload_modules :: "'w sys_lib \<Rightarrow> program \<Rightarrow> 'w \<Rightarrow> program \<times> 'w" where
  "unload_modules A P w =
     (if \<not> s_modules_loaded P then (P, w)
      else (P\<lparr>s_modules_loaded := False\<rparr>, unload_list A (rev rpi_modules) w))"

definition cleanup :: "'w sys_lib \<Rightarrow> program \<Rightarrow> 'w \<Rightarrow> program \<times> 'w" where
  "cleanup A P w = (case unload_modules A P w of (P, w) \<Rightarrow> unjailbreak A P w)"

section \<open>The main function\<close>

definition SERVER_PORT :: cint where "SERVER_PORT = 12801"

text \<open>From each service on: bring it up, run what depends on it, take it down.  What follows a
  \<open>goto\<close> label of \<open>main\<close> is what follows the inner part.\<close>

definition on_installer ::
    "(installer \<Rightarrow> 'w \<Rightarrow> installer \<times> 'w) \<Rightarrow> program \<Rightarrow> 'w \<Rightarrow> program \<times> 'w" where
  "on_installer f P w =
     (case f (rp_installer (pg_rpi P)) w of (I, w) \<Rightarrow> (P\<lparr>pg_rpi := (pg_rpi P)\<lparr>rp_installer := I\<rparr>\<rparr>, w))"

definition run_server :: "'w sys_lib \<Rightarrow> string \<Rightarrow> program \<Rightarrow> 'w \<Rightarrow> (program \<times> 'w) option" where
  "run_server A ip P w = do {
     (ok, S, v) \<leftarrow> server_start (sy_rpi A) (sy_dir A) (sy_sockets A) (Some ip) SERVER_PORT (Some ''/data'')
       (pg_server P) (pg_rpi P, w);
     if \<not> ok then Some (P\<lparr>pg_server := S, pg_rpi := fst v\<rparr>, snd v)
     else do {
       (_, S, v) \<leftarrow> server_listen (sy_rpi A) (sy_sockets A) (sy_usleep A) S v;
       (S, v) \<leftarrow> server_stop (sy_rpi A) (sy_sockets A) S v;
       Some (P\<lparr>pg_server := S, pg_rpi := fst v\<rparr>, snd v) } }"

definition run_http :: "'w sys_lib \<Rightarrow> program \<Rightarrow> 'w \<Rightarrow> (program \<times> 'w) option" where
  "run_http A P w =
     (case net_get_ipv4 (sy_net A) 16 w of ((ret, ip), w) \<Rightarrow>
        if ret \<noteq> 0 then Some (P, w)
        else do {
          let mem = (if s_net_initialized (pg_net P) then Some (net_get_mem_id (pg_net P)) else None);
          (ok, H, w) \<leftarrow> http_init (rv_http (sy_rpi A)) mem (sy_pool A w) (rp_http (pg_rpi P)) w;
          let P = P\<lparr>pg_rpi := (pg_rpi P)\<lparr>rp_http := H\<rparr>\<rparr>;
          if \<not> ok then Some (P, w)
          else do {
            (P, w) \<leftarrow> run_server A (case ip of None \<Rightarrow> [] | Some s \<Rightarrow> s) P w;
            let (H, w) = http_fini (rv_http (sy_rpi A)) (rp_http (pg_rpi P)) w;
            Some (P\<lparr>pg_rpi := (pg_rpi P)\<lparr>rp_http := H\<rparr>\<rparr>, w) } })"

definition run_net :: "'w sys_lib \<Rightarrow> program \<Rightarrow> 'w \<Rightarrow> (program \<times> 'w) option" where
  "run_net A P w =
     (case net_init (sy_net A) (pg_net P) w of (ok, N, w) \<Rightarrow>
        let P = P\<lparr>pg_net := N\<rparr> in
        if \<not> ok then Some (P, w)
        else do {
          (P, w) \<leftarrow> run_http A P w;
          let (N, w) = net_fini (sy_net A) (pg_net P) w;
          Some (P\<lparr>pg_net := N\<rparr>, w) })"

definition run_bgft :: "'w sys_lib \<Rightarrow> program \<Rightarrow> 'w \<Rightarrow> (program \<times> 'w) option" where
  "run_bgft A P w =
     (case bgft_init (rv_installer (sy_rpi A)) (rp_installer (pg_rpi P)) w of (ok, I, w) \<Rightarrow>
        let P = P\<lparr>pg_rpi := (pg_rpi P)\<lparr>rp_installer := I\<rparr>\<rparr> in
        if \<not> ok then Some (P, w)
        else do {
          (P, w) \<leftarrow> run_net A P w;
          Some (on_installer (bgft_fini (rv_installer (sy_rpi A))) P w) })"

definition run_app :: "'w sys_lib \<Rightarrow> program \<Rightarrow> 'w \<Rightarrow> (program \<times> 'w) option" where
  "run_app A P w =
     (case app_inst_util_init (rv_installer (sy_rpi A)) (rp_installer (pg_rpi P)) w of (ok, I, w) \<Rightarrow>
        let P = P\<lparr>pg_rpi := (pg_rpi P)\<lparr>rp_installer := I\<rparr>\<rparr> in
        if \<not> ok then Some (P, w)
        else do {
          (P, w) \<leftarrow> run_bgft A P w;
          Some (on_installer (app_inst_util_fini (rv_installer (sy_rpi A))) P w) })"

definition run_services :: "'w sys_lib \<Rightarrow> program \<Rightarrow> 'w \<Rightarrow> (program \<times> 'w) option" where
  "run_services A P w =
     (case sceUserServiceInitialize A w of (ret, w) \<Rightarrow>
        if ret \<noteq> 0 then Some (P, w)
        else do { (P, w) \<leftarrow> run_app A P w; Some (P, snd (sceUserServiceTerminate A w)) })"

text \<open>\<open>main\<close> ends with \<open>exit\<close>, which runs \<open>cleanup\<close>.\<close>

definition run_main :: "'w sys_lib \<Rightarrow> program \<Rightarrow> 'w \<Rightarrow> (program \<times> 'w) option" where
  "run_main A P w =
     (case jailbreak A P w of (P, w) \<Rightarrow>
      case load_modules A P w of (ok, P, w) \<Rightarrow> do {
        (P, w) \<leftarrow> (if \<not> ok then Some (P, w) else run_services A P w);
        Some (cleanup A P w) })"

section \<open>The HTTP library as a service\<close>

lemma load_config_ids:
  "http_load_config L pool p H w = Some (ok, H', w') \<Longrightarrow>
     s_http_initialized H' = s_http_initialized H \<and> s_libhttp_ctx_id H' = s_libhttp_ctx_id H"
  by (auto simp: http_load_config_def config_apply_def bind_eq_Some_conv split: option.splits prod.splits if_splits)

lemma load_ca_bundle_ids:
  "http_load_ca_bundle L p H w = Some (ok, H', w') \<Longrightarrow>
     s_http_initialized H' = s_http_initialized H \<and> s_libhttp_ctx_id H' = s_libhttp_ctx_id H"
  by (auto simp: http_load_ca_bundle_def unload_ca_bundle_def set_last_error_def Let_def
      split: option.splits prod.splits if_splits)

lemma http_init_ids:
  assumes "http_init L net pool H w = Some (ok, H', w')" and "\<not> s_http_initialized H"
  shows "s_http_initialized H' = ok \<and> (ok \<longrightarrow> s_libhttp_ctx_id H' \<noteq> -1) \<and> (\<not> ok \<longrightarrow> s_libhttp_ctx_id H' = s_libhttp_ctx_id H)"
  using assms
  by (auto simp: http_init_def Let_def http_clear_last_error_def split: option.splits prod.splits if_splits
      dest!: load_config_ids load_ca_bundle_ids)

interpretation http: owning_cycle s_http_initialized "http_init L net pool" "http_fini L"
  "\<lambda>H. s_libhttp_ctx_id H \<noteq> -1" for L net pool
proof unfold_locales
  fix H w ok H' w'
  assume i: "http_init L net pool H w = Some (ok, H', w')"
  show "s_http_initialized H' = ok"
    using i http_init_ids [OF i] by (cases "s_http_initialized H") (auto simp: http_init_def)
  show "(s_libhttp_ctx_id H' \<noteq> -1) = s_http_initialized H'" if "(s_libhttp_ctx_id H \<noteq> -1) = s_http_initialized H"
    using that i http_init_ids [OF i] by (cases "s_http_initialized H") (auto simp: http_init_def)
qed (auto simp: http_init_def http_fini_def unload_ca_bundle_def Let_def split: prod.splits if_splits)

section \<open>The stack of modules\<close>

text \<open>\<open>loaded\<close> tells from the world which modules are loaded, the last one first.  A module that
  another was loaded on top of is not unloaded.\<close>

definition module_tracking :: "'w sys_lib \<Rightarrow> ('w \<Rightarrow> sysmodule list) \<Rightarrow> bool" where
  "module_tracking A loaded \<longleftrightarrow>
     (\<forall>m w ret w'. sy_load_module A m w = (ret, w') \<longrightarrow> loaded w' = (if ret = 0 then m # loaded w else loaded w)) \<and>
     (\<forall>m w rest. loaded w = m # rest \<longrightarrow> loaded (snd (sy_unload_module A m w)) = rest)"

lemma unload_list_pops:
  assumes "module_tracking A loaded" and "loaded w = ms @ rest"
  shows "loaded (unload_list A ms w) = rest"
  using assms(2)
proof (induction ms arbitrary: w)
  case (Cons m ms)
  then have "loaded (snd (sy_unload_module A m w)) = ms @ rest"
    using assms(1) by (simp add: module_tracking_def)
  from Cons.IH [OF this] show ?case by (simp add: unload_list_def)
qed (simp add: unload_list_def)

lemma load_list_stack:
  assumes "module_tracking A loaded" and "loaded w = up @ rest" and "load_list A up ms w = (ok, w')"
  shows "loaded w' = (if ok then rev ms @ up @ rest else rest)"
  using assms(2,3)
proof (induction ms arbitrary: up w)
  case (Cons m ms)
  obtain ret w1 where l: "sy_load_module A m w = (ret, w1)" by (metis prod.exhaust)
  with assms(1) Cons.prems(1) have w1: "loaded w1 = (if ret = 0 then m # up else up) @ rest"
    by (simp add: module_tracking_def)
  show ?case
  proof (cases "ret = 0")
    case True
    with l w1 Cons.prems(2) Cons.IH [of w1 "m # up"] show ?thesis by simp
  next
    case False
    with l w1 Cons.prems(2) unload_list_pops [OF assms(1), of w1 up rest] show ?thesis by simp
  qed
qed simp

section \<open>What is down when the program ends\<close>

text \<open>The services that are down, from the last one to come up to the first.\<close>

definition server_down :: "program \<Rightarrow> bool" where
  "server_down P \<longleftrightarrow> \<not> ss_started (pg_server P)"

definition http_down :: "program \<Rightarrow> bool" where
  "http_down P \<longleftrightarrow> server_down P \<and> \<not> s_http_initialized (rp_http (pg_rpi P))"

definition net_down :: "program \<Rightarrow> bool" where
  "net_down P \<longleftrightarrow> http_down P \<and> \<not> s_net_initialized (pg_net P)"

definition bgft_down :: "program \<Rightarrow> bool" where
  "bgft_down P \<longleftrightarrow> net_down P \<and> \<not> s_bgft_initialized (rp_installer (pg_rpi P))"

definition app_down :: "program \<Rightarrow> bool" where
  "app_down P \<longleftrightarrow> bgft_down P \<and> \<not> s_app_inst_util_initialized (rp_installer (pg_rpi P))"

lemmas down_defs = server_down_def http_down_def net_down_def bgft_down_def app_down_def

text \<open>A part of \<open>main\<close> keeps what is not its own: the flags of the modules and credentials.\<close>

definition same_process :: "program \<Rightarrow> program \<Rightarrow> bool" where
  "same_process P P' \<longleftrightarrow> s_modules_loaded P' = s_modules_loaded P \<and> s_jailbroken P' = s_jailbroken P
     \<and> pg_og P' = pg_og P \<and> pg_set_cred P' = pg_set_cred P"

lemma run_server_down: "run_server A ip P w = Some (P', w') \<Longrightarrow> server_down P \<Longrightarrow> server_down P' \<and> same_process P P'"
proof -
  assume r: "run_server A ip P w = Some (P', w')" and d: "server_down P"
  then obtain ok S v where s: "server_start (sy_rpi A) (sy_dir A) (sy_sockets A) (Some ip) SERVER_PORT (Some ''/data'')
      (pg_server P) (pg_rpi P, w) = Some (ok, S, v)"
    by (auto simp: run_server_def bind_eq_Some_conv)
  show ?thesis
  proof (cases ok)
    case True
    then have "ss_started S"
      using s by (auto simp: server_start_def Let_def bind_eq_Some_conv split: if_splits prod.splits)
    then have "server_listen (sy_rpi A) (sy_sockets A) (sy_usleep A) S v = None"
      using listen_loop_never_ends [of "sy_rpi A" "sy_sockets A" "sy_usleep A" S v]
      by (cases "listen_loop (sy_rpi A) (sy_sockets A) (sy_usleep A) S v") (auto simp: server_listen_def)
    with r s True show ?thesis by (simp add: run_server_def)
  next
    case False
    then have "\<not> ss_started S"
      using s d by (auto simp: server_down_def server_start_def Let_def bind_eq_Some_conv split: if_splits prod.splits)
    with r s False show ?thesis by (auto simp: run_server_def server_down_def same_process_def)
  qed
qed

lemma same_trans [trans]: "same_process P Q \<Longrightarrow> same_process Q R \<Longrightarrow> same_process P R"
  by (simp add: same_process_def)

lemma run_http_down: "run_http A P w = Some (P', w') \<Longrightarrow> http_down P \<Longrightarrow> http_down P' \<and> same_process P P'"
proof -
  assume r: "run_http A P w = Some (P', w')" and d: "http_down P"
  obtain ret ip w1 where g: "net_get_ipv4 (sy_net A) 16 w = ((ret, ip), w1)" by (metis prod.exhaust)
  show ?thesis
  proof (cases "ret = 0")
    case False
    with r d g show ?thesis by (simp add: run_http_def same_process_def)
  next
    case True
    let ?mem = "if s_net_initialized (pg_net P) then Some (net_get_mem_id (pg_net P)) else None"
    let ?P = "\<lambda>H. P\<lparr>pg_rpi := (pg_rpi P)\<lparr>rp_http := H\<rparr>\<rparr>"
    from r g True obtain ok H w2 where
      i: "http_init (rv_http (sy_rpi A)) ?mem (sy_pool A w1) (rp_http (pg_rpi P)) w1 = Some (ok, H, w2)"
      and k: "(if \<not> ok then Some (?P H, w2)
          else do {
            (P, w) \<leftarrow> run_server A (case ip of None \<Rightarrow> [] | Some s \<Rightarrow> s) (?P H) w2;
            let (H, w) = http_fini (rv_http (sy_rpi A)) (rp_http (pg_rpi P)) w;
            Some (P\<lparr>pg_rpi := (pg_rpi P)\<lparr>rp_http := H\<rparr>\<rparr>, w) }) = Some (P', w')"
      by (auto simp: run_http_def Let_def bind_eq_Some_conv)
    from http.start_up [OF i] have up: "s_http_initialized H = ok" .
    show ?thesis
    proof (cases ok)
      case False
      with k d up show ?thesis by (auto simp: http_down_def server_down_def same_process_def)
    next
      case True
      with k obtain Q w3 where q: "run_server A (case ip of None \<Rightarrow> [] | Some s \<Rightarrow> s) (?P H) w2 = Some (Q, w3)"
        and f: "(let (H, w) = http_fini (rv_http (sy_rpi A)) (rp_http (pg_rpi Q)) w3
            in Some (Q\<lparr>pg_rpi := (pg_rpi Q)\<lparr>rp_http := H\<rparr>\<rparr>, w)) = Some (P', w')"
        by (auto simp: bind_eq_Some_conv)
      have "server_down (?P H)" using d by (simp add: http_down_def server_down_def)
      from run_server_down [OF q this] have "server_down Q" "same_process P Q"
        by (simp_all add: same_process_def)
      moreover obtain H2 w4 where e: "http_fini (rv_http (sy_rpi A)) (rp_http (pg_rpi Q)) w3 = (H2, w4)" by (metis prod.exhaust)
      moreover from http.stop_down [OF e] have "\<not> s_http_initialized H2" .
      ultimately show ?thesis using f by (auto simp: http_down_def server_down_def same_process_def)
    qed
  qed
qed

lemma run_net_down: "run_net A P w = Some (P', w') \<Longrightarrow> net_down P \<Longrightarrow> net_down P' \<and> same_process P P'"
proof -
  assume r: "run_net A P w = Some (P', w')" and d: "net_down P"
  obtain ok N w1 where i: "net_init (sy_net A) (pg_net P) w = (ok, N, w1)" by (metis prod.exhaust)
  have up: "s_net_initialized N = ok" using net.start_up [of "sy_net A" "pg_net P" w ok N w1] i by simp
  show ?thesis
  proof (cases ok)
    case False
    with r i d up show ?thesis by (auto simp: run_net_def down_defs same_process_def)
  next
    case True
    with r i obtain Q w2 where q: "run_http A (P\<lparr>pg_net := N\<rparr>) w1 = Some (Q, w2)"
      and f: "(let (N, w) = net_fini (sy_net A) (pg_net Q) w2 in Some (Q\<lparr>pg_net := N\<rparr>, w)) = Some (P', w')"
      by (auto simp: run_net_def Let_def bind_eq_Some_conv)
    have "http_down (P\<lparr>pg_net := N\<rparr>)" using d by (simp add: down_defs)
    from run_http_down [OF q this] have "http_down Q" "same_process P Q" by (simp_all add: same_process_def)
    moreover obtain N2 w3 where e: "net_fini (sy_net A) (pg_net Q) w2 = (N2, w3)" by (metis prod.exhaust)
    moreover from net.stop_down [OF e] have "\<not> s_net_initialized N2" .
    ultimately show ?thesis using f by (auto simp: down_defs same_process_def)
  qed
qed

text \<open>The two services of the installer module are flags of the same record.\<close>

lemma app_fini_keeps_bgft:
  "app_inst_util_fini L I w = (I', w') \<Longrightarrow> s_bgft_initialized I' = s_bgft_initialized I"
  by (auto simp: app_inst_util_fini_def split: prod.splits if_splits)

lemma app_init_keeps_bgft:
  "app_inst_util_init L I w = (ok, I', w') \<Longrightarrow> s_bgft_initialized I' = s_bgft_initialized I"
  by (auto simp: app_inst_util_init_def split: prod.splits if_splits)

lemma run_bgft_down: "run_bgft A P w = Some (P', w') \<Longrightarrow> bgft_down P \<Longrightarrow> bgft_down P' \<and> same_process P P'"
proof -
  assume r: "run_bgft A P w = Some (P', w')" and d: "bgft_down P"
  let ?L = "rv_installer (sy_rpi A)"
  let ?P = "\<lambda>I. P\<lparr>pg_rpi := (pg_rpi P)\<lparr>rp_installer := I\<rparr>\<rparr>"
  obtain ok I w1 where i: "bgft_init ?L (rp_installer (pg_rpi P)) w = (ok, I, w1)" by (metis prod.exhaust)
  have up: "s_bgft_initialized I = ok" using bgft.start_up [of ?L "rp_installer (pg_rpi P)" w ok I w1] i by simp
  show ?thesis
  proof (cases ok)
    case False
    with r i d up show ?thesis by (auto simp: run_bgft_def down_defs same_process_def)
  next
    case True
    with r i obtain Q w2 where q: "run_net A (?P I) w1 = Some (Q, w2)"
      and f: "on_installer (bgft_fini ?L) Q w2 = (P', w')"
      by (auto simp: run_bgft_def Let_def bind_eq_Some_conv)
    have "net_down (?P I)" using d by (simp add: down_defs)
    from run_net_down [OF q this] have "net_down Q" "same_process P Q" by (simp_all add: same_process_def)
    moreover obtain I2 w3 where e: "bgft_fini ?L (rp_installer (pg_rpi Q)) w2 = (I2, w3)" by (metis prod.exhaust)
    moreover from bgft.stop_down [OF e] have "\<not> s_bgft_initialized I2" .
    ultimately show ?thesis using f by (auto simp: on_installer_def down_defs same_process_def)
  qed
qed

lemma run_app_down: "run_app A P w = Some (P', w') \<Longrightarrow> app_down P \<Longrightarrow> app_down P' \<and> same_process P P'"
proof -
  assume r: "run_app A P w = Some (P', w')" and d: "app_down P"
  let ?L = "rv_installer (sy_rpi A)"
  let ?P = "\<lambda>I. P\<lparr>pg_rpi := (pg_rpi P)\<lparr>rp_installer := I\<rparr>\<rparr>"
  obtain ok I w1 where i: "app_inst_util_init ?L (rp_installer (pg_rpi P)) w = (ok, I, w1)" by (metis prod.exhaust)
  have up: "s_app_inst_util_initialized I = ok" using aiu.start_up [of ?L "rp_installer (pg_rpi P)" w ok I w1] i by simp
  have b: "\<not> s_bgft_initialized I" using app_init_keeps_bgft [OF i] d by (simp add: down_defs)
  show ?thesis
  proof (cases ok)
    case False
    with r i d up b show ?thesis by (auto simp: run_app_def down_defs same_process_def)
  next
    case True
    with r i obtain Q w2 where q: "run_bgft A (?P I) w1 = Some (Q, w2)"
      and f: "on_installer (app_inst_util_fini ?L) Q w2 = (P', w')"
      by (auto simp: run_app_def Let_def bind_eq_Some_conv)
    have "bgft_down (?P I)" using d b by (simp add: down_defs)
    from run_bgft_down [OF q this] have "bgft_down Q" "same_process P Q" by (simp_all add: same_process_def)
    moreover obtain I2 w3 where e: "app_inst_util_fini ?L (rp_installer (pg_rpi Q)) w2 = (I2, w3)" by (metis prod.exhaust)
    moreover from aiu.stop_down [OF e] have "\<not> s_app_inst_util_initialized I2" .
    moreover have "s_bgft_initialized I2 = s_bgft_initialized (rp_installer (pg_rpi Q))" by (rule app_fini_keeps_bgft [OF e])
    ultimately show ?thesis using f by (auto simp: on_installer_def down_defs same_process_def)
  qed
qed

lemma run_services_down: "run_services A P w = Some (P', w') \<Longrightarrow> app_down P \<Longrightarrow> app_down P' \<and> same_process P P'"
  using run_app_down [of A P]
  by (auto simp: run_services_def bind_eq_Some_conv same_process_def split: prod.splits if_splits)

lemma jailbreak_keeps:
  "jailbreak A P w = (Q, w1) \<Longrightarrow> app_down Q = app_down P \<and> s_modules_loaded Q = s_modules_loaded P
     \<and> (\<not> s_jailbroken P \<and> s_jailbroken Q \<longrightarrow> pg_set_cred Q)"
  by (auto simp: jailbreak_def Let_def down_defs split: prod.splits if_splits)

lemma load_modules_keeps:
  "load_modules A P w = (ok, Q, w') \<Longrightarrow> app_down Q = app_down P \<and> s_jailbroken Q = s_jailbroken P
     \<and> pg_og Q = pg_og P \<and> pg_set_cred Q = pg_set_cred P \<and> (ok \<longleftrightarrow> s_modules_loaded Q)"
  by (auto simp: load_modules_def down_defs split: prod.splits if_splits)

lemma cleanup_ends:
  assumes "cleanup A P w = (Q, w')" and "s_jailbroken P \<longrightarrow> pg_set_cred P"
  shows "app_down Q = app_down P \<and> \<not> s_modules_loaded Q \<and> \<not> s_jailbroken Q
    \<and> (s_jailbroken P \<longrightarrow> (\<exists>v. w' = sy_set_cred A (pg_og P) v))"
  using assms by (auto simp: cleanup_def unload_modules_def unjailbreak_def down_defs split: prod.splits if_splits)

section \<open>A small process\<close>

text \<open>Its world is the stack of the loaded modules by name, on top of the credentials the process
  was given; \<open>room\<close> bounds the depth of the stack, and there is no network.\<close>

definition name_of_module :: "sysmodule \<Rightarrow> string" where
  "name_of_module m = (case m of SYSCORE \<Rightarrow> ''core'' | SYSTEM_SERVICE \<Rightarrow> ''system'' | USER_SERVICE \<Rightarrow> ''user''
     | NETCTL \<Rightarrow> ''netctl'' | NET \<Rightarrow> ''net'' | HTTP \<Rightarrow> ''http'' | SSL \<Rightarrow> ''ssl'' | APP_INST_UTIL \<Rightarrow> ''aiu''
     | BGFT \<Rightarrow> ''bgft'' | NP_COMMON \<Rightarrow> ''np'')"

definition module_named :: "string \<Rightarrow> sysmodule" where
  "module_named s = hd (filter (\<lambda>m. name_of_module m = s) rpi_modules @ [SYSCORE])"

lemma module_named_name: "module_named (name_of_module m) = m"
  by (cases m) (simp_all add: module_named_def name_of_module_def rpi_modules_def)

definition cred :: "u32 \<Rightarrow> jbc_cred" where
  "cred u = \<lparr>jc_uid = u, jc_ruid = u, jc_svuid = u, jc_rgid = u, jc_svgid = u, jc_prison = 0, jc_cdir = 0,
     jc_rdir = 0, jc_jdir = 0, jc_sceProcType = 0, jc_sonyCred = 0, jc_sceProcCap = 0\<rparr>"

definition quiet_console :: "string list installer_lib" where
  "quiet_console = (console 0)\<lparr>sceAppInstUtilInitialize := (\<lambda>w. (0, w)), sceBgftServiceIntInit := (\<lambda>n w. (0, w)),
     sceBgftServiceIntTerm := (\<lambda>w. (0, w))\<rparr>"

definition desk_process :: "nat \<Rightarrow> string list sys_lib" where
  "desk_process room = \<lparr>sy_rpi = desk\<lparr>rv_installer := quiet_console\<rparr>, sy_dir = desk_dir, sy_sockets = desk_sockets,
     sy_net = \<lparr>sceNetCtlInit = (\<lambda>w. (-1, w)), sceNetInit = (\<lambda>w. (-1, w)), sceNetPoolCreate = (\<lambda>n w. (-1, w)),
       sceNetPoolDestroy = (\<lambda>i w. (0, w)), sceNetTerm = (\<lambda>w. (0, w)), sceNetCtlTerm = (\<lambda>w. w),
       sceNetCtlGetInfo = (\<lambda>w. ((-1, []), w))\<rparr>,
     sy_usleep = (\<lambda>n v. v), sy_pool = (\<lambda>w. []),
     sy_load_module = (\<lambda>m w. if length w < room then (0, name_of_module m # w) else (-1, w)),
     sy_unload_module = (\<lambda>m w. (0, tl w)),
     sy_load_jbc = (\<lambda>w. (1, w)), sy_dlsym = (\<lambda>s w. (True, w)), sy_load_exec = (\<lambda>w. w),
     sy_get_cred = (\<lambda>w. (cred 1, w)), sy_jailbreak_cred = (\<lambda>w. (cred 0, w)),
     sy_set_cred = (\<lambda>c w. (if jc_uid c = 0 then ''as root'' else ''as user'') # w),
     sceUserServiceInitialize = (\<lambda>w. (0, w)), sceUserServiceTerminate = (\<lambda>w. (0, w))\<rparr>"

definition fresh_program :: program where
  "fresh_program = \<lparr>pg_rpi = desk_state, pg_net = net_static, pg_server = server_static, s_modules_loaded = False,
     s_jailbroken = False, pg_og = cred 0, pg_set_cred = False\<rparr>"

lemma desk_process_tracking: "module_tracking (desk_process room) (map module_named)"
  by (auto simp: module_tracking_def desk_process_def module_named_name split: if_splits)

section \<open>Properties\<close>



text \<open>C35: loading the system modules is all or nothing.  If each loads, the stack has all ten of them on
  top, and unloading takes exactly these off again; if one fails, at whatever place in the list, the
  stack is what it was and the state is unchanged.\<close>

theorem modules_balanced:
  assumes "module_tracking A loaded" and "\<not> s_modules_loaded P" and "load_modules A P w = (ok, P', w')"
  shows "if ok
    then s_modules_loaded P' \<and> loaded w' = rev rpi_modules @ loaded w
      \<and> loaded (snd (unload_modules A P' w')) = loaded w \<and> \<not> s_modules_loaded (fst (unload_modules A P' w'))
    else P' = P \<and> loaded w' = loaded w"
proof -
  from assms(2,3) have l: "load_list A [] rpi_modules w = (ok, w')"
    and P': "P' = (if ok then P\<lparr>s_modules_loaded := True\<rparr> else P)"
    by (auto simp: load_modules_def split: prod.splits)
  have s: "loaded w' = (if ok then rev rpi_modules @ loaded w else loaded w)"
    using load_list_stack [OF assms(1) _ l, of "loaded w"] by simp
  then have "ok \<Longrightarrow> loaded (unload_list A (rev rpi_modules) w') = loaded w"
    using unload_list_pops [OF assms(1), of w' "rev rpi_modules" "loaded w"] by simp
  with s P' show ?thesis by (simp add: unload_modules_def)
qed

theorem modules_balanced_witness:
  "map module_named (snd (snd (load_modules (desk_process 20) fresh_program []))) = rev rpi_modules
    \<and> map module_named (snd (snd (load_modules (desk_process 4) fresh_program []))) = []"
proof -
  have "\<not> s_modules_loaded fresh_program" by (simp add: fresh_program_def)
  moreover have "fst (load_modules (desk_process 20) fresh_program [])" "\<not> fst (load_modules (desk_process 4) fresh_program [])"
    by (simp_all add: load_modules_def rpi_modules_def desk_process_def fresh_program_def unload_list_def)
  ultimately show ?thesis
    using modules_balanced [OF desk_process_tracking, of fresh_program 20 "[]"]
      modules_balanced [OF desk_process_tracking, of fresh_program 4 "[]"]
    by (metis append_Nil2 list.map(1) prod.collapse)
qed

end
