(* ===== verification/Conversation.thy ===== *)
theory Conversation
  imports Server
begin

text \<open>
  A whole connection.  A client sends a complete request in whatever pieces and reads the answer
  in whatever pieces; the thread of the connection of sandbird.c, with the dispatcher of server.c
  as its event handler, ends after it has sent exactly one response.
\<close>

section \<open>A request in the air\<close>

text \<open>A request is its header up to and with the first empty line, and the announced number of
  further bytes.  \<open>meth\<close> and \<open>path\<close> are what the server reads in it.\<close>

definition complete_request :: "string \<Rightarrow> string \<Rightarrow> string \<Rightarrow> string \<Rightarrow> bool" where
  "complete_request hdr body meth path \<longleftrightarrow>
     NUL \<notin> set hdr \<and> suffix (CRLF @ CRLF) hdr \<and> (\<forall>n < length hdr. \<not> suffix (CRLF @ CRLF) (take n hdr)) \<and>
     (\<exists>v. find_header_value hdr ''Content-Length'' = Some v \<and> str_to_uint v = length body) \<and>
     (case scan_request (cstr_of (hdr @ body)) of None \<Rightarrow> False | Some (m, i, ver) \<Rightarrow> m = meth \<and> prefix ''HTTP'' ver
        \<and> path = cstr_of (fst (url_decode (drop i (cstr_of (hdr @ body))) PATH_SIZE)))"

text \<open>What does not change when memory is allocated.\<close>

definition undisturbed :: "'w sb_env \<Rightarrow> ('w \<Rightarrow> bool) \<Rightarrow> bool" where
  "undisturbed E Q \<longleftrightarrow> (\<forall>n w. Q w \<longrightarrow> Q (snd (se_realloc E n w)))"

text \<open>A client whose bytes arrive in order: \<open>inp\<close> is what is still to come, and every read returns
  a part of it.  \<open>keep\<close> is a property of the world that reading does not change.\<close>

definition client_sends :: "'w sb_env \<Rightarrow> ('w \<Rightarrow> string) \<Rightarrow> ('w \<Rightarrow> bool) \<Rightarrow> bool" where
  "client_sends E inp keep \<longleftrightarrow>
     (\<forall>fd w sz bs wb w'. se_recv E fd RECV_SIZE w = ((sz, bs, wb), w') \<longrightarrow> inp w \<noteq> [] \<longrightarrow>
        bs \<noteq> [] \<and> int (length bs) = sz \<and> length bs \<le> RECV_SIZE \<and> inp w = bs @ inp w' \<and> (keep w \<longrightarrow> keep w')) \<and>
     (\<forall>n w. inp (snd (se_realloc E n w)) = inp w \<and> (keep w \<longrightarrow> keep (snd (se_realloc E n w))))"

lemma client_undisturbed: "client_sends E inp keep \<Longrightarrow> undisturbed E (\<lambda>w. inp w = x \<and> keep w)"
  by (simp add: client_sends_def undisturbed_def)

section \<open>Buffers\<close>

lemma push_char_world:
  "sb_buffer_push_char E c b w = Some (err, b', w') \<Longrightarrow> undisturbed E Q \<Longrightarrow> Q w \<Longrightarrow> Q w'"
  by (auto simp: sb_buffer_push_char_def sb_buffer_reserve_def bind_eq_Some_conv undisturbed_def
      split: if_splits prod.splits bool.splits) (metis snd_conv)+

lemma push_char_ok:
  assumes "plenty E" and "undisturbed E Q" and "sb_wf b" and "Q w"
  shows "\<exists>b' w'. sb_buffer_push_char E c b w = Some (0, b', w') \<and> sb_wf b' \<and> sb_content b' = sb_content b @ [c] \<and> Q w'"
proof -
  obtain err b' w' where p: "sb_buffer_push_char E c b w = Some (err, b', w')"
    and a: "appended (sb_content b) (sb_content b @ [c]) (err, b', w')"
    using push_char_run [OF assms(3), of E c w] by (auto simp: run_def)
  from push_char_plenty [OF assms(1) p] a push_char_world [OF p assms(2,4)] p show ?thesis
    by (simp add: appended_def)
qed

lemma null_terminate_ok:
  assumes "plenty E" and "undisturbed E Q" and "sb_wf b" and "Q w"
  shows "\<exists>b' w'. sb_buffer_null_terminate E b w = Some (0, b', w') \<and> terminated b' \<and> sb_content b' = sb_content b \<and> Q w'"
proof -
  obtain b1 w1 where p: "sb_buffer_push_char E NUL b w = Some (0, b1, w1)" "Q w1"
    using push_char_ok [OF assms, of NUL] by blast
  then have n: "sb_buffer_null_terminate E b w = Some (0, b1\<lparr>sb_len := sb_len b1 - 1\<rparr>, w1)"
    by (simp add: sb_buffer_null_terminate_def sb_codes)
  with null_terminate_run [OF assms(3), of E w] p(2) show ?thesis by (auto simp: run_def)
qed

lemma terminated_content: "terminated b \<Longrightarrow> cstr_at (sb_s b) 0 = Some (cstr_of (sb_content b))"
proof -
  assume t: "terminated b"
  then have "sb_s b = sb_content b @ NUL # drop (Suc (sb_len b)) (sb_s b)"
    using id_take_nth_drop [of "sb_len b" "sb_s b"] by (simp add: terminated_def sb_content_def)
  then obtain r where r: "sb_s b = sb_content b @ NUL # r" by blast
  have "takeWhile (\<lambda>c. c \<noteq> NUL) (xs @ NUL # r) = takeWhile (\<lambda>c. c \<noteq> NUL) xs" for xs
    by (induction xs) auto
  then show ?thesis by (simp add: cstr_at_def cstr_of_def r)
qed

section \<open>Collecting the request\<close>

text \<open>\<open>answered\<close> says of the result of a function that it is that of the event handler, called with
  the method, the path and the whole text of the request.\<close>

definition answered ::
    "'w sb_handler \<Rightarrow> string \<Rightarrow> string \<Rightarrow> string \<Rightarrow> ('w \<Rightarrow> bool) \<Rightarrow> (sb_Stream \<Rightarrow> 'w \<Rightarrow> 'b) \<Rightarrow> 'b option \<Rightarrow> bool" where
  "answered h meth path txt Q f x \<longleftrightarrow> (\<exists>st0 w0. Q w0 \<and> request_ready st0 \<and> recv_text st0 0 = Some txt \<and>
     (\<forall>st1 w1. h (EV_REQUEST meth path) st0 w0 = Some (SB_RES_OK, st1, w1) \<longrightarrow> x = Some (f st1 w1)))"

lemma handle_request_answered:
  assumes "plenty E" and "undisturbed E Q" and "Q w" and "sb_wf (st_recv_buf st)" and "body_bounds st"
    and "sb_content (st_recv_buf st) = hdr @ body" and "sb_wf (st_send_buf st)" and "sb_content (st_send_buf st) = []"
    and "complete_request hdr body meth path"
  shows "answered h meth path (cstr_of (hdr @ body)) Q (\<lambda>st w. (SB_ESUCCESS, st, w)) (handle_request E h st w)"
proof -
  obtain b w1 where n: "sb_buffer_null_terminate E (st_recv_buf st) w = Some (0, b, w1)" "terminated b"
    "sb_content b = sb_content (st_recv_buf st)" "Q w1"
    using null_terminate_ok [OF assms(1,2,4,3)] by blast
  let ?st = "st\<lparr>st_state := SENDING_STATUS, st_recv_buf := b\<rparr>" and ?tx = "cstr_of (hdr @ body)"
  have "sb_len b = sb_len (st_recv_buf st)"
    using n(2,3) assms(4) length_sb_content [of b] length_sb_content [of "st_recv_buf st"] by (simp add: terminated_def)
  with assms(5,7,8) n(2) have r: "request_ready ?st"
    by (auto simp: request_ready_def body_bounds_def represents_def)
  have t: "recv_text ?st 0 = Some ?tx" using terminated_content [OF n(2)] n(3) assms(6) by (simp add: recv_text_def)
  from assms(9) obtain i ver where s: "scan_request ?tx = Some (meth, i, ver)" "prefix ''HTTP'' ver"
    "path = cstr_of (fst (url_decode (drop i ?tx) PATH_SIZE))"
    by (auto simp: complete_request_def split: option.splits)
  have "handle_request E h st w = Some (SB_ESUCCESS, st1, w2)"
    if "h (EV_REQUEST meth path) ?st w1 = Some (SB_RES_OK, st1, w2)" for st1 w2
    using that n(1) t s by (simp add: handle_request_def Let_def sb_stream_emit_def sb_codes SB_RES_OK_def SB_RES_CLOSE_def)
  with r t n(4) show ?thesis unfolding answered_def by blast
qed

text \<open>The stream after \<open>n\<close> bytes.\<close>

definition collecting :: "string \<Rightarrow> string \<Rightarrow> nat \<Rightarrow> sb_Stream \<Rightarrow> bool" where
  "collecting hdr body n st \<longleftrightarrow> sb_wf (st_recv_buf st) \<and> sb_content (st_recv_buf st) = take n (hdr @ body)
     \<and> sb_wf (st_send_buf st) \<and> sb_content (st_send_buf st) = []
     \<and> (if n < length hdr then st_state st = RECEIVING_HEADER \<and> st_data_idx st = 0 \<and> st_expected_recv_len st = 0
        else st_state st = RECEIVING_REQUEST \<and> st_data_idx st = length hdr
          \<and> st_expected_recv_len st = length (hdr @ body))"

lemma header_complete_iff:
  assumes "sb_wf (st_recv_buf st)"
  shows "header_complete st \<longleftrightarrow> st_state st = RECEIVING_HEADER \<and> suffix (CRLF @ CRLF) (sb_content (st_recv_buf st))"
proof -
  let ?b = "st_recv_buf st"
  have s: "suffix xs ys \<longleftrightarrow> length xs \<le> length ys \<and> drop (length ys - length xs) ys = xs" for xs ys :: string
    by (auto simp: suffix_def) (metis append_take_drop_id)
  have "length (CRLF @ CRLF) = 4" by (simp add: CRLF_def)
  moreover have "4 \<le> sb_len ?b \<Longrightarrow> take 4 (drop (sb_len ?b - 4) (sb_s ?b)) = drop (sb_len ?b - 4) (sb_content ?b)"
    by (simp add: sb_content_def drop_take)
  ultimately show ?thesis
    unfolding header_complete_def Let_def s length_sb_content [OF assms] by (metis order_refl)
qed

lemma received_length: "sb_wf b \<Longrightarrow> sb_content b = take n req \<Longrightarrow> n \<le> length req \<Longrightarrow> sb_len b = n"
  using length_sb_content [of b] by simp

lemma recv_byte_step:
  assumes P: "plenty E" and U: "undisturbed E Q" and Q: "Q w" and R: "complete_request hdr body meth path"
    and C: "collecting hdr body n st" and n: "n < length (hdr @ body)"
  shows "if Suc n < length (hdr @ body)
    then \<exists>st' w'. recv_byte E h ((hdr @ body) ! n) st w = Some (RGo, st', w') \<and> collecting hdr body (Suc n) st' \<and> Q w'
    else answered h meth path (cstr_of (hdr @ body)) Q (\<lambda>st w. (RRet SB_ESUCCESS, st, w))
      (recv_byte E h ((hdr @ body) ! n) st w)"
    (is "if ?more then ?go (recv_byte E h ?c st w) else ?last (recv_byte E h ?c st w)")
proof -
  let ?req = "hdr @ body"
  from C have c: "sb_wf (st_recv_buf st)" "sb_content (st_recv_buf st) = take n ?req"
    and snd: "sb_wf (st_send_buf st)" "sb_content (st_send_buf st) = []" by (simp_all add: collecting_def)
  obtain b w1 where p: "sb_buffer_push_char E ?c (st_recv_buf st) w = Some (0, b, w1)" and b: "sb_wf b" "Q w1"
    and bc: "sb_content b = take (Suc n) ?req"
    using push_char_ok [OF P U c(1) Q, of ?c] c(2) n take_Suc_conv_app_nth [OF n] by auto
  have len: "sb_len b = Suc n" using received_length [OF b(1) bc] n by simp
  let ?st = "st\<lparr>st_recv_buf := b\<rparr>"
  have lift: "?last (do { (err, st, w) \<leftarrow> x; Some (RRet err, st, w) })"
    if "answered h meth path (cstr_of ?req) Q (\<lambda>st w. (SB_ESUCCESS, st, w)) x" for x
    using that by (fastforce simp: answered_def)
  show ?thesis
  proof (cases "n < length hdr")
    case False
    with C have st: "st_state st = RECEIVING_REQUEST" "st_data_idx st = length hdr" "st_expected_recv_len st = length ?req"
      by (simp_all add: collecting_def)
    then have nc: "\<not> header_complete ?st" by (simp add: header_complete_def)
    show ?thesis
    proof (cases ?more)
      case True
      with nc p st len False b bc snd show ?thesis
        by (simp add: recv_byte_def sb_codes collecting_def)
    next
      case more: False
      have "answered h meth path (cstr_of ?req) Q (\<lambda>st w. (SB_ESUCCESS, st, w)) (handle_request E h ?st w1)"
        by (rule handle_request_answered [OF P U b(2) _ _ _ _ _ R])
          (use b bc snd st more n len False in \<open>simp_all add: body_bounds_def\<close>)
      from lift [OF this] more n nc p st len show ?thesis by (simp add: recv_byte_def sb_codes)
    qed
  next
    case h: True
    with C have st: "st_state st = RECEIVING_HEADER" "st_data_idx st = 0" "st_expected_recv_len st = 0"
      by (simp_all add: collecting_def)
    have bh: "sb_content b = take (Suc n) hdr" using bc h by simp
    show ?thesis
    proof (cases "Suc n < length hdr")
      case True
      then have "\<not> suffix (CRLF @ CRLF) (take (Suc n) hdr)" using R by (simp add: complete_request_def)
      then have "\<not> header_complete ?st" using header_complete_iff [of ?st] b(1) bh by simp
      with True p st len b bc snd show ?thesis by (simp add: recv_byte_def sb_codes collecting_def)
    next
      case False
      with h have hn: "length hdr = Suc n" by simp
      then have "header_complete ?st"
        using header_complete_iff [of ?st] b(1) bh st R by (simp add: complete_request_def)
      moreover obtain b2 w2 where z: "sb_buffer_null_terminate E b w1 = Some (0, b2, w2)" "terminated b2"
        "sb_content b2 = hdr" "Q w2"
        using null_terminate_ok [OF P U b] bh hn by auto
      moreover have len2: "sb_len b2 = Suc n" "sb_wf b2"
        using z(2,3) hn length_sb_content [of b2] by (auto simp: terminated_def)
      moreover have "cstr_of hdr = hdr" using R by (auto simp: complete_request_def cstr_of_def takeWhile_eq_all_conv)
      then have "cstr_at (sb_s b2) 0 = Some hdr" using terminated_content [OF z(2)] z(3) by simp
      moreover obtain v where v: "find_header_value hdr ''Content-Length'' = Some v" "str_to_uint v = length body"
        using R by (auto simp: complete_request_def)
      moreover let ?st2 = "st\<lparr>st_state := RECEIVING_REQUEST, st_recv_buf := b2\<rparr>"
      let ?st3 = "?st2\<lparr>st_expected_recv_len := Suc n + length body, st_data_idx := Suc n\<rparr>"
      have a: "answered h meth path (cstr_of ?req) Q (\<lambda>st w. (SB_ESUCCESS, st, w)) (handle_request E h s w2)"
        if "body = []" "s = ?st2 \<or> s = ?st3" for s
        by (rule handle_request_answered [OF P U z(4) _ _ _ _ _ R])
          (use that len2 z(3) snd st in \<open>auto simp: body_bounds_def\<close>)
      ultimately have e: "recv_byte E h ?c st w = (if v = None \<or> body = []
          then do { (err, st, w) \<leftarrow> handle_request E h (if v = None then ?st2 else ?st3) w2; Some (RRet err, st, w) }
          else Some (RGo, ?st3, w2))"
        using p st by (cases v) (simp_all add: recv_byte_def sb_codes recv_text_def Let_def)
      show ?thesis
      proof (cases "body = []")
        case True
        from e True have "recv_byte E h ?c st w
          = do { (err, st, w) \<leftarrow> handle_request E h (if v = None then ?st2 else ?st3) w2; Some (RRet err, st, w) }" by simp
        with lift [OF a [OF True, of "if v = None then ?st2 else ?st3"]] hn True show ?thesis by simp
      next
        case False
        then have "v \<noteq> None" using v(2) by (cases v) (simp_all add: str_to_uint_def)
        with e False have "recv_byte E h ?c st w = Some (RGo, ?st3, w2)" by simp
        moreover have "collecting hdr body (Suc n) ?st3"
          using len2 z(3) snd hn by (simp add: collecting_def)
        ultimately show ?thesis using False hn z(4) by simp
      qed
    qed
  qed
qed

lemma collecting_activity [simp]: "collecting hdr body n (st\<lparr>st_last_activity := t\<rparr>) = collecting hdr body n st"
  by (simp add: collecting_def)

lemma recv_bytes_step:
  assumes P: "plenty E" and U: "undisturbed E Q" and R: "complete_request hdr body meth path"
  shows "Q w \<Longrightarrow> collecting hdr body n st \<Longrightarrow> drop n (hdr @ body) = bs @ rest \<Longrightarrow>
    (rest \<noteq> [] \<longrightarrow> (\<exists>st' w'. recv_bytes E h bs st w = Some (RGo, st', w')
       \<and> collecting hdr body (n + length bs) st' \<and> Q w'))
    \<and> (rest = [] \<and> bs \<noteq> [] \<longrightarrow> answered h meth path (cstr_of (hdr @ body)) Q (\<lambda>st w. (RRet SB_ESUCCESS, st, w))
        (recv_bytes E h bs st w))"
proof (induction bs arbitrary: n st w)
  case (Cons c cs)
  let ?req = "hdr @ body"
  from Cons.prems(3) have n: "n < length ?req" by (metis append_Cons drop_all linorder_not_less list.distinct(1))
  then have c: "?req ! n = c" "drop (Suc n) ?req = cs @ rest"
    using Cons.prems(3) Cons_nth_drop_Suc [of n ?req] by auto
  note s = recv_byte_step [OF P U Cons.prems(1) R Cons.prems(2) n, of h, unfolded c(1)]
  show ?case
  proof (cases "cs @ rest = []")
    case False
    with c(2) have more: "Suc n < length ?req" by (metis drop_all linorder_not_less)
    with s obtain st1 w1 where g: "recv_byte E h c st w = Some (RGo, st1, w1)" "collecting hdr body (Suc n) st1" "Q w1"
      by auto
    from Cons.IH [OF g(3,2) c(2)] g(1) False show ?thesis by auto
  next
    case True
    with c(2) n have "\<not> Suc n < length ?req" by (metis drop_eq_Nil linorder_not_less)
    with s have "answered h meth path (cstr_of ?req) Q (\<lambda>st w. (RRet SB_ESUCCESS, st, w)) (recv_byte E h c st w)"
      by simp
    with True show ?thesis by (fastforce simp: answered_def)
  qed
qed simp

lemma stream_recv_answers:
  assumes P: "plenty E" and S: "client_sends E inp keep" and R: "complete_request hdr body meth path"
  shows "collecting hdr body n st \<Longrightarrow> inp w = drop n (hdr @ body) \<Longrightarrow> inp w \<noteq> [] \<Longrightarrow> keep w \<Longrightarrow>
    answered h meth path (cstr_of (hdr @ body)) keep (\<lambda>st w. (SB_ESUCCESS, st, w)) (sb_stream_recv E h st w)"
proof (induction "length (inp w)" arbitrary: n st w rule: less_induct)
  case less
  let ?req = "hdr @ body"
  obtain sz bs wb w1 where r: "se_recv E (st_sockfd st) RECV_SIZE w = ((sz, bs, wb), w1)" by (metis prod.exhaust)
  with S less.prems(3,4) have b: "bs \<noteq> []" "int (length bs) = sz" "length bs \<le> RECV_SIZE" "inp w = bs @ inp w1" "keep w1"
    unfolding client_sends_def by metis+
  define Q where "Q = (\<lambda>v. inp v = inp w1 \<and> keep v)"
  have U: "undisturbed E Q" unfolding Q_def by (rule client_undisturbed [OF S])
  have Q: "Q w1" using b(5) by (simp add: Q_def)
  let ?st = "st\<lparr>st_last_activity := se_now E w1\<rparr>"
  have "0 < sz" using b(1,2) by (cases bs) auto
  with r b(2,3) have e: "sb_stream_recv E h st w = do {
      (r, st, w) \<leftarrow> recv_bytes E h bs ?st w1;
      case r of RGo \<Rightarrow> sb_stream_recv E h st w | RRet err \<Rightarrow> Some (err, st, w) }"
    by (subst sb_stream_recv.simps) (simp add: Let_def)
  have d: "drop n ?req = bs @ inp w1" using less.prems(2) b(4) by simp
  note s = recv_bytes_step [OF P U R Q _ d, of ?st h, unfolded collecting_activity, OF less.prems(1)]
  show ?case
  proof (cases "inp w1 = []")
    case True
    with s b(1) have "answered h meth path (cstr_of ?req) Q (\<lambda>st w. (RRet SB_ESUCCESS, st, w)) (recv_bytes E h bs ?st w1)"
      by simp
    then show ?thesis unfolding e by (fastforce simp: answered_def Q_def)
  next
    case False
    with s obtain st2 w2 where g: "recv_bytes E h bs ?st w1 = Some (RGo, st2, w2)"
      "collecting hdr body (n + length bs) st2" "Q w2" by auto
    have "drop (length bs) (drop n ?req) = inp w1" unfolding d by simp
    then have i: "inp w2 = drop (n + length bs) ?req"
      using g(3) by (simp add: Q_def add.commute del: drop_append)
    have "length (inp w2) < length (inp w)" using g(3) b(1,4) by (simp add: Q_def)
    from less.hyps [OF this g(2) i] g(3) False have
      "answered h meth path (cstr_of ?req) keep (\<lambda>st w. (SB_ESUCCESS, st, w)) (sb_stream_recv E h st2 w2)"
      by (simp add: Q_def)
    with e g(1) show ?thesis by simp
  qed
qed

section \<open>Properties\<close>

lemma represents_open: "represents st r \<Longrightarrow> st_state st \<noteq> CLOSING \<and> sb_wf (st_send_buf st) \<and> sb_content (st_send_buf st) = reply_text r"
  by (cases r) (auto simp: represents_def)


text \<open>A device on the desk whose client sends seven bytes at a time and reads three; the world is
  what is still to come from the client and what was sent to it.\<close>

definition to_come :: "string list world \<Rightarrow> string" where
  "to_come v = (case snd v of a # b # _ \<Rightarrow> a | _ \<Rightarrow> [])"

definition was_sent :: "string list world \<Rightarrow> string" where
  "was_sent v = (case snd v of a # b # _ \<Rightarrow> b | _ \<Rightarrow> [])"

definition talk_env :: "string list world sb_env" where
  "talk_env = roomy_env\<lparr>
     se_recv := \<lambda>fd n v. let bs = take 7 (to_come v) in
       ((int (length bs), bs, False), (fst v, [drop 7 (to_come v), was_sent v])),
     se_send := \<lambda>fd bs v. ((int (min 3 (length bs)), False), (fst v, [to_come v, was_sent v @ take 3 bs]))\<rparr>"

lemma talk_sends: "client_sends talk_env to_come (\<lambda>v. rp_work_dir (fst v) \<noteq> None)"
  unfolding client_sends_def
  by (auto simp: talk_env_def roomy_env_def to_come_def RECV_SIZE_def Let_def min_def split: list.splits if_splits)

lemma talk_reads: "client_reads talk_env s f was_sent ((\<lambda>f v. []) f)"
  unfolding client_reads_def talk_env_def roomy_env_def by (auto simp: was_sent_def min_def)

definition small_request :: string where
  "small_request = ''GET /nowhere HTTP/1.1'' @ CRLF @ CRLF"

lemma small_request_complete: "complete_request small_request [] ''GET'' ''/nowhere''"
proof -
  have "find_header_value small_request ''Content-Length'' = Some None"
    using find_header_lines [of "[''GET /nowhere HTTP/1.1'']" "''Content-Length''" "[]"]
    by (simp add: small_request_def header_line_def has_field_def mem_case_prefix_def tolower_def ctype_defs chr_code_def
        CRLF_def)
  moreover have "NUL \<notin> set small_request \<and> suffix (CRLF @ CRLF) small_request
      \<and> (\<forall>n < length small_request. \<not> suffix (CRLF @ CRLF) (take n small_request))" by code_simp
  moreover have "scan_request (cstr_of (small_request @ [])) = Some (''GET'', 4, ''HTTP/1.1'')" by code_simp
  moreover have "cstr_of (fst (url_decode (drop 4 (cstr_of (small_request @ []))) 512)) = ''/nowhere''" by code_simp
  ultimately show ?thesis by (simp add: complete_request_def str_to_uint_def PATH_SIZE_def)
qed


end
