(* ===== verification/RequestFields.thy ===== *)
theory RequestFields
  imports Request
begin

text \<open>
  The remaining readers of requests of sandbird.c: cookies and the parts of a multipart body.  The
  program does not call them.  The look-up of a cookie is that in the list of pairs; the search
  for a part works on the received bytes, and leaving them is \<open>None\<close>.
\<close>

section \<open>Cookies\<close>

definition cookie_stop :: string where
  "cookie_stop = [CHR '';'', CHR 0x0D]"

text \<open>\<open>strchr\<close> finds the terminator, too: a name may end the text.\<close>

function get_cookie_loop :: "string \<Rightarrow> string \<Rightarrow> nat \<Rightarrow> string \<times> cint" where
  "get_cookie_loop str name len =
     (if str = [] then ([], SB_ENOTFOUND)
      else let s = drop (strspn str [CHR '' '', CHR 0x09]) str in
        if mem_case_prefix name s \<and> (length name = length s \<or> s ! length name \<in> {CHR '' '', CHR ''=''})
        then let s = drop (length name) s;
                 s = drop (strspn s [CHR ''='', CHR '' '', CHR 0x09, CHR 0x0D]) s;
                 n = strcspn s cookie_stop
             in if len - 1 \<le> n then (take (len - 1) s, SB_ETRUNCATED) else (take n s, SB_ESUCCESS)
        else case drop (strcspn s cookie_stop) s of
               [] \<Rightarrow> ([], SB_ENOTFOUND)
             | c # t \<Rightarrow> if c \<noteq> CHR '';'' then ([], SB_ENOTFOUND) else get_cookie_loop t name len)"
  by pat_completeness auto
termination
  by (relation "measure (\<lambda>(s, n, l). length s)") (auto dest!: drop_Cons_length)

declare get_cookie_loop.simps [simp del]

definition sb_get_cookie :: "sb_Stream \<Rightarrow> string \<Rightarrow> nat \<Rightarrow> (string \<times> cint) option" where
  "sb_get_cookie st name len = do {
     str \<leftarrow> recv_text st 0;
     v \<leftarrow> find_header_value str ''Cookie'';
     case v of None \<Rightarrow> Some ([], SB_ENOTFOUND) | Some s \<Rightarrow> Some (get_cookie_loop s name len) }"

text \<open>The value of a field with cookies.\<close>

fun cookie_text :: "(string \<times> string) list \<Rightarrow> string" where
  "cookie_text [] = []"
| "cookie_text [(n, v)] = n @ CHR ''='' # v"
| "cookie_text ((n, v) # p # ps) = n @ CHR ''='' # v @ CHR '';'' # CHR '' '' # cookie_text (p # ps)"

definition cookie_name :: "string \<Rightarrow> bool" where
  "cookie_name n \<longleftrightarrow> set n \<inter> {CHR ''='', CHR '' '', CHR 0x09, CHR '';'', CHR 0x0D} = {}"

definition cookie_pair :: "string \<times> string \<Rightarrow> bool" where
  "cookie_pair p \<longleftrightarrow> cookie_name (fst p) \<and> fst p \<noteq> [] \<and> snd p \<noteq> [] \<and> set (snd p) \<inter> set cookie_stop = {}
     \<and> hd (snd p) \<notin> {CHR ''='', CHR '' '', CHR 0x09}"

definition cut_value :: "string \<Rightarrow> nat \<Rightarrow> string \<times> cint" where
  "cut_value v len = (take (len - 1) v, if len - 1 \<le> length v then SB_ETRUNCATED else SB_ESUCCESS)"

lemma tolower_eq_sign: "tolower c = CHR ''='' \<longleftrightarrow> c = CHR ''=''"
  by (auto simp: tolower_def isupper_def chr_code_def split: if_splits
      dest!: arg_cong [where f = "of_char :: char \<Rightarrow> nat"])

lemma cookie_name_chars: "cookie_name n \<Longrightarrow> c \<in> set n \<Longrightarrow> c \<noteq> CHR ''='' \<and> c \<noteq> CHR '' '' \<and> c \<noteq> CHR 0x09 \<and> c \<noteq> CHR '';'' \<and> c \<noteq> CHR 0x0D"
  by (auto simp: cookie_name_def)

lemma cookie_name_match:
  assumes n: "cookie_name n" and m: "cookie_name name"
  shows "mem_case_prefix name (n @ CHR ''='' # r)
      \<and> (length name = length (n @ CHR ''='' # r) \<or> (n @ CHR ''='' # r) ! length name \<in> {CHR '' '', CHR ''=''})
    \<longleftrightarrow> map tolower n = map tolower name"
proof (cases "length name" "length n" rule: linorder_cases)
  case less
  then have "n ! length name \<notin> {CHR '' '', CHR ''=''}" using cookie_name_chars [OF n nth_mem [OF less]] by simp
  moreover have "map tolower n \<noteq> map tolower name" using less by (metis length_map less_irrefl)
  ultimately show ?thesis using less by (simp add: nth_append)
next
  case equal
  then show ?thesis by (auto simp: mem_case_prefix_def prefix_def nth_append)
next
  case greater
  have "\<not> mem_case_prefix name (n @ CHR ''='' # r)"
  proof
    assume "mem_case_prefix name (n @ CHR ''='' # r)"
    then obtain z where "map tolower (n @ CHR ''='' # r) = map tolower name @ z" by (auto simp: mem_case_prefix_def prefix_def)
    then have "map tolower (n @ CHR ''='' # r) ! length n = (map tolower name @ z) ! length n" by simp
    then have "tolower (name ! length n) = tolower CHR ''=''" using greater by (simp add: nth_append)
    moreover have "tolower CHR ''='' = CHR ''=''" by (simp add: tolower_eq_sign)
    ultimately have "name ! length n = CHR ''=''" by (simp add: tolower_eq_sign)
    then show False using m greater nth_mem [of "length n" name] by (auto simp: cookie_name_def)
  qed
  moreover have "map tolower n \<noteq> map tolower name" using greater by (metis length_map less_irrefl)
  ultimately show ?thesis by simp
qed

lemma strcspn_stop: "set v \<inter> set a = {} \<Longrightarrow> c \<in> set a \<Longrightarrow> strcspn (v @ c # t) a = length v"
  by (induction v) (auto simp: strcspn_def)

lemma strspn_front: "set b \<subseteq> set a \<Longrightarrow> s = [] \<or> hd s \<notin> set a \<Longrightarrow> strspn (b @ s) a = length b"
  by (induction b) (cases s; auto simp: strspn_def)+

lemma cookie_unfold:
  assumes "str \<noteq> []" and "drop (strspn str [CHR '' '', CHR 0x09]) str = s"
  shows "get_cookie_loop str name len =
    (if mem_case_prefix name s \<and> (length name = length s \<or> s ! length name \<in> {CHR '' '', CHR ''=''})
     then let s = drop (length name) s;
              s = drop (strspn s [CHR ''='', CHR '' '', CHR 0x09, CHR 0x0D]) s;
              n = strcspn s cookie_stop
          in if len - 1 \<le> n then (take (len - 1) s, SB_ETRUNCATED) else (take n s, SB_ESUCCESS)
     else case drop (strcspn s cookie_stop) s of
            [] \<Rightarrow> ([], SB_ENOTFOUND)
          | c # t \<Rightarrow> if c \<noteq> CHR '';'' then ([], SB_ENOTFOUND) else get_cookie_loop t name len)"
  using assms(1) by (subst get_cookie_loop.simps) (simp only: assms(2) if_False Let_def)

text \<open>One pair of the field, after blanks.\<close>

lemma cookie_step:
  assumes p: "cookie_pair (n, v)" and m: "cookie_name name" and c: "c \<in> set cookie_stop" and b: "set b \<subseteq> {CHR '' '', CHR 0x09}"
  shows "get_cookie_loop (b @ n @ CHR ''='' # v @ c # t) name len =
    (if map tolower n = map tolower name then cut_value v len
     else if c = CHR '';'' then get_cookie_loop t name len else ([], SB_ENOTFOUND))"
proof -
  let ?s = "n @ CHR ''='' # v @ c # t"
  from p have n: "cookie_name n" "n \<noteq> []" and v: "v \<noteq> []" "set v \<inter> set cookie_stop = {}"
    "hd v \<notin> {CHR ''='', CHR '' '', CHR 0x09}" "CHR 0x0D \<notin> set v" by (auto simp: cookie_pair_def cookie_stop_def)
  have "hd n \<in> set n" using n(2) by simp
  from cookie_name_chars [OF n(1) this] have "hd ?s \<notin> set [CHR '' '', CHR 0x09]" using n(2) by simp
  then have d: "drop (strspn (b @ ?s) [CHR '' '', CHR 0x09]) (b @ ?s) = ?s"
    using strspn_front [of b "[CHR '' '', CHR 0x09]" ?s] b by simp
  have "hd v \<noteq> CHR 0x0D" using v(1,4) by (metis list.set_sel(1))
  then have e: "drop (strspn (CHR ''='' # v @ c # t) [CHR ''='', CHR '' '', CHR 0x09, CHR 0x0D]) (CHR ''='' # v @ c # t) = v @ c # t"
    using strspn_front [of "[CHR ''='']" "[CHR ''='', CHR '' '', CHR 0x09, CHR 0x0D]" "v @ c # t"] v(1,3) by simp
  have "set (n @ CHR ''='' # v) \<inter> set cookie_stop = {}" using n(1) v(2) by (auto simp: cookie_name_def cookie_stop_def)
  from strcspn_stop [OF this c, of t] have f: "drop (strcspn ?s cookie_stop) ?s = c # t" by simp
  have ne: "b @ ?s \<noteq> []" by simp
  show ?thesis
  proof (cases "map tolower n = map tolower name")
    case True
    then have "length name = length n" by (metis length_map)
    then have g: "drop (length name) ?s = CHR ''='' # v @ c # t" by simp
    have "get_cookie_loop (b @ ?s) name len = (if len - 1 \<le> length v then (take (len - 1) (v @ c # t), SB_ETRUNCATED)
        else (take (length v) (v @ c # t), SB_ESUCCESS))"
      unfolding cookie_unfold [OF ne d] cookie_name_match [OF n(1) m]
      by (simp only: True simp_thms if_True Let_def g e strcspn_stop [OF v(2) c])
    with True show ?thesis by (simp add: cut_value_def)
  next
    case False
    then show ?thesis
      unfolding cookie_unfold [OF ne d] cookie_name_match [OF n(1) m] f by simp
  qed
qed

lemma cookie_loop_find:
  assumes "cookie_name name"
  shows "\<forall>p \<in> set ps. cookie_pair p \<Longrightarrow> ps \<noteq> [] \<Longrightarrow> set b \<subseteq> {CHR '' '', CHR 0x09} \<Longrightarrow>
    get_cookie_loop (b @ cookie_text ps @ CHR 0x0D # t) name len =
      (case find (\<lambda>(n, v). map tolower n = map tolower name) ps of
         None \<Rightarrow> ([], SB_ENOTFOUND) | Some (n, v) \<Rightarrow> cut_value v len)"
proof (induction ps arbitrary: b rule: cookie_text.induct)
  case (2 n v)
  then show ?case using cookie_step [OF _ assms, of n v "CHR 0x0D" b t len] by (simp add: cookie_stop_def)
next
  case (3 n v p ps)
  note c = cookie_step [OF _ assms, of n v "CHR '';''" b "CHR '' '' # cookie_text (p # ps) @ CHR 0x0D # t" len]
  from "3.IH" [of "'' ''"] "3.prems"(1) c "3.prems"(3) show ?case by (simp add: cookie_stop_def)
qed simp

text \<open>On a request with a header of non-empty lines, and a cookie field that is a list of pairs,
  \<open>sb_get_cookie\<close> is the look-up of the name in that list, in any case.\<close>

theorem get_cookie_equiv:
  assumes "recv_text st 0 = Some (lines_text ls @ CRLF @ t)" and "\<forall>l \<in> set ls. header_line l"
    and "\<And>l. find (has_field ''Cookie'') ls = Some l \<Longrightarrow> dropWhile blank (drop (length ''Cookie'' + 1) l) = cookie_text ps"
    and "\<forall>p \<in> set ps. cookie_pair p" and "ps \<noteq> []" and "cookie_name name"
  shows "sb_get_cookie st name len = Some (
    if find (has_field ''Cookie'') ls = None then ([], SB_ENOTFOUND)
    else case find (\<lambda>(n, v). map tolower n = map tolower name) ps of
      None \<Rightarrow> ([], SB_ENOTFOUND) | Some (n, v) \<Rightarrow> cut_value v len)"
proof (cases "find (has_field ''Cookie'') ls")
  case None
  with find_header_lines [OF assms(2), of "''Cookie''" t] assms(1) show ?thesis by (simp add: sb_get_cookie_def)
next
  case (Some l)
  with find_header_lines [OF assms(2), of "''Cookie''" t] assms(3) obtain r
    where "find_header_value (lines_text ls @ CRLF @ t) ''Cookie'' = Some (Some (cookie_text ps @ CHR 0x0D # r))" by auto
  with cookie_loop_find [OF assms(6,4,5), of "[]" r len] assms(1) Some show ?thesis by (simp add: sb_get_cookie_def)
qed

theorem get_cookie_equiv_witness:
  "sb_get_cookie (fresh_stream\<lparr>st_recv_buf := \<lparr>sb_s = lines_text [''GET / HTTP/1.1'', ''cookie: a=1; sid=xyz''] @ CRLF @ [NUL],
     sb_len = 41\<rparr>\<rparr>) ''SID'' 3 = Some (''xy'', SB_ETRUNCATED)"
proof -
  let ?ls = "[''GET / HTTP/1.1'', ''cookie: a=1; sid=xyz'']" and ?ps = "[(''a'', ''1''), (''sid'', ''xyz'')]"
  have f: "find (has_field ''Cookie'') ?ls = Some ''cookie: a=1; sid=xyz''" by code_simp
  have p: "\<forall>p \<in> set ?ps. cookie_pair p" "cookie_name ''SID''" "\<forall>l \<in> set ?ls. header_line l"
    by (simp_all add: cookie_pair_def cookie_name_def cookie_stop_def header_line_def)
  have t: "recv_text (fresh_stream\<lparr>st_recv_buf := \<lparr>sb_s = lines_text ?ls @ CRLF @ [NUL], sb_len = 41\<rparr>\<rparr>) 0
      = Some (lines_text ?ls @ CRLF @ [])"
    by (simp add: recv_text_def cstr_at_def CRLF_def)
  have r: "find (\<lambda>(n, v). map tolower n = map tolower ''SID'') ?ps = Some (''sid'', ''xyz'')" by code_simp
  show ?thesis
    using get_cookie_equiv [OF t p(3) _ p(1) _ p(2), of 3] f r by (simp add: cut_value_def)
qed

text \<open>The blanks after the name include the end of the line: an empty value at the end of the field
  is read as the rest of the next line.\<close>

theorem empty_cookie_reads_on:
  assumes "cookie_name n" and "n \<noteq> []" and "set nx \<inter> set cookie_stop = {}" and "length nx + 2 < len"
  shows "get_cookie_loop (n @ CHR ''='' # CRLF @ nx @ CHR 0x0D # t) n len = (CHR 0x0A # nx, SB_ESUCCESS)"
proof -
  let ?r = "CRLF @ nx @ CHR 0x0D # t"
  have "hd n \<in> set n" using assms(2) by simp
  from cookie_name_chars [OF assms(1) this] have "hd (n @ CHR ''='' # ?r) \<notin> set [CHR '' '', CHR 0x09]"
    using assms(2) by simp
  then have d: "drop (strspn (n @ CHR ''='' # ?r) [CHR '' '', CHR 0x09]) (n @ CHR ''='' # ?r) = n @ CHR ''='' # ?r"
    using strspn_front [of "[]" "[CHR '' '', CHR 0x09]" "n @ CHR ''='' # ?r"] by simp
  have e: "drop (strspn (CHR ''='' # ?r) [CHR ''='', CHR '' '', CHR 0x09, CHR 0x0D]) (CHR ''='' # ?r) = CHR 0x0A # nx @ CHR 0x0D # t"
    by (simp add: strspn_def CRLF_def)
  have f: "strcspn ((CHR 0x0A # nx) @ CHR 0x0D # t) cookie_stop = length (CHR 0x0A # nx)"
    by (rule strcspn_stop) (use assms(3) in \<open>auto simp: cookie_stop_def\<close>)
  have ne: "n @ CHR ''='' # ?r \<noteq> []" by simp
  have g: "drop (length n) (n @ CHR ''='' # ?r) = CHR ''='' # ?r" by simp
  have "get_cookie_loop (n @ CHR ''='' # ?r) n len = (if len - 1 \<le> length (CHR 0x0A # nx)
      then (take (len - 1) ((CHR 0x0A # nx) @ CHR 0x0D # t), SB_ETRUNCATED)
      else (take (length (CHR 0x0A # nx)) ((CHR 0x0A # nx) @ CHR 0x0D # t), SB_ESUCCESS))"
    unfolding cookie_unfold [OF ne d] cookie_name_match [OF assms(1,1)]
    by (simp only: simp_thms if_True Let_def g e f [unfolded append_Cons] append_Cons)
  with assms(4) show ?thesis by simp
qed

section \<open>Multipart bodies\<close>

text \<open>The received bytes are a memory, a pointer is an index, and \<open>fin\<close> the end of what was
  received.\<close>

fun mem_equal :: "char list \<Rightarrow> nat \<Rightarrow> string \<Rightarrow> bool option" where
  "mem_equal m p [] = Some True"
| "mem_equal m p (c # cs) = do { d \<leftarrow> rd m p; if d \<noteq> c then Some False else mem_equal m (p + 1) cs }"

lemma mem_equal_True: "mem_equal m p x = Some True \<Longrightarrow> take (length x) (drop p m) = x \<and> (x \<noteq> [] \<longrightarrow> p + length x \<le> length m)"
proof (induction m p x rule: mem_equal.induct)
  case (2 m p c cs)
  then have p: "p < length m" "m ! p = c" "mem_equal m (p + 1) cs = Some True"
    by (auto simp: bind_eq_Some_conv rd_def split: if_splits)
  with 2 have "take (length cs) (drop (Suc p) m) = cs" "cs \<noteq> [] \<longrightarrow> Suc p + length cs \<le> length m"
    by (auto simp: rd_def)
  with p show ?case by (cases cs) (simp_all add: Cons_nth_drop_Suc [symmetric])
qed simp

lemma mem_equal_False: "mem_equal m p x = Some False \<Longrightarrow> p < length m"
  by (cases x) (auto simp: bind_eq_Some_conv rd_def split: if_splits)

text \<open>\<open>P_AFTERL\<close>: the search gives up exactly at \<open>fin - length x\<close>; a pointer beyond that runs on.
  The inner option is the jump to \<open>fail\<close>.\<close>

function p_after :: "char list \<Rightarrow> nat \<Rightarrow> string \<Rightarrow> nat \<Rightarrow> nat option option" where
  "p_after m fin x p =
     (if int p = int fin - int (length x) then Some None
      else case mem_equal m p x of
        None \<Rightarrow> None
      | Some True \<Rightarrow> Some (Some (p + length x))
      | Some False \<Rightarrow> p_after m fin x (p + 1))"
  by pat_completeness auto
termination
  by (relation "measure (\<lambda>(m, f, x, p). length m - p)") (auto dest!: mem_equal_False)

declare p_after.simps [simp del]

lemma p_after_found:
  "p_after m fin x p = Some (Some q) \<Longrightarrow>
     p + length x \<le> q \<and> take (length x) (drop (q - length x) m) = x \<and> (x \<noteq> [] \<longrightarrow> q \<le> length m)"
proof (induction m fin x p rule: p_after.induct)
  case (1 m fin x p)
  note v = "1.prems" [unfolded p_after.simps [of m fin x p]]
  then consider "mem_equal m p x = Some True" "q = p + length x"
    | "int p \<noteq> int fin - int (length x)" "mem_equal m p x = Some False" "p_after m fin x (p + 1) = Some (Some q)"
    by (auto split: if_splits option.splits bool.splits)
  then show ?case
  proof cases
    case 1
    with mem_equal_True [OF 1(1)] show ?thesis by simp
  next
    case 2
    from "1.IH" [OF 2(1,2) _ 2(3)] show ?thesis by simp
  qed
qed

lemma p_after_empty: "p_after m fin [] p = Some (Some q) \<Longrightarrow> q = p"
  by (subst (asm) p_after.simps) (auto split: if_splits)

text \<open>From the end of a part to the start of the next part's name, and, for the right name, from
  there to its data.\<close>

definition part_name :: "char list \<Rightarrow> nat \<Rightarrow> string \<Rightarrow> nat \<Rightarrow> nat option option" where
  "part_name m fin boundary p = do {
     a \<leftarrow> p_after m fin boundary p;
     case a of None \<Rightarrow> Some None | Some p \<Rightarrow> do {
       a \<leftarrow> p_after m fin CRLF p;
       case a of None \<Rightarrow> Some None | Some p \<Rightarrow> do {
         str \<leftarrow> cstr_at m p;
         v \<leftarrow> find_header_value str ''Content-Disposition'';
         case v of None \<Rightarrow> Some None
         | Some s \<Rightarrow> p_after m fin (''name='' @ [CHR 0x22]) (p + (length str - length s)) } } }"

definition name_matches :: "char list \<Rightarrow> nat \<Rightarrow> string \<Rightarrow> bool option" where
  "name_matches m p name = do {
     hit \<leftarrow> mem_equal m p name;
     if \<not> hit then Some False else do { c \<leftarrow> rd m (p + length name); Some (c = CHR 0x22) } }"

definition part_data :: "char list \<Rightarrow> nat \<Rightarrow> string \<Rightarrow> nat \<Rightarrow> (nat \<times> u64) option option" where
  "part_data m fin boundary p = do {
     a \<leftarrow> p_after m fin (CRLF @ CRLF) p;
     case a of None \<Rightarrow> Some None | Some res \<Rightarrow> do {
       a \<leftarrow> p_after m fin boundary res;
       case a of None \<Rightarrow> Some None
       | Some p \<Rightarrow> Some (Some (res, word_of_int (int p - int res - int (length boundary) - 4))) } }"

lemma part_name_moves:
  assumes "part_name m fin boundary p = Some (Some q)"
  shows "p < q \<and> q \<le> length m"
proof -
  from assms obtain p1 where 1: "p_after m fin boundary p = Some (Some p1)"
    by (auto simp: part_name_def bind_eq_Some_conv split: option.splits)
  with assms obtain p2 where 2: "p_after m fin CRLF p1 = Some (Some p2)"
    by (auto simp: part_name_def bind_eq_Some_conv split: option.splits)
  define key where "key = ''name='' @ [CHR 0x22]"
  from assms 1 2 have "\<exists>k. p_after m fin key (p2 + k) = Some (Some q)"
    unfolding part_name_def key_def [symmetric] by (auto simp: bind_eq_Some_conv split: option.splits)
  then obtain k where 3: "p_after m fin key (p2 + k) = Some (Some q)" ..
  show ?thesis using p_after_found [OF 1] p_after_found [OF 2] p_after_found [OF 3] by (auto simp: key_def)
qed

function multipart_loop :: "char list \<Rightarrow> nat \<Rightarrow> string \<Rightarrow> string \<Rightarrow> nat \<Rightarrow> (nat \<times> u64) option option" where
  "multipart_loop m fin boundary name p = do {
     a \<leftarrow> part_name m fin boundary p;
     case a of None \<Rightarrow> Some None
     | Some p \<Rightarrow> do {
         hit \<leftarrow> name_matches m p name;
         if hit then part_data m fin boundary p else multipart_loop m fin boundary name p } }"
  by pat_completeness auto
termination
  by (relation "measure (\<lambda>(m, f, b, n, p). length m - p)") (auto dest!: part_name_moves)

declare multipart_loop.simps [simp del]

text \<open>The position and the length of the part, or \<open>NULL\<close> and the length 0.\<close>

definition sb_get_multipart :: "sb_Stream \<Rightarrow> string \<Rightarrow> (nat \<times> u64) option option" where
  "sb_get_multipart st name =
     (let m = sb_s (st_recv_buf st); fin = sb_len (st_recv_buf st) in do {
        str \<leftarrow> recv_text st 0;
        v \<leftarrow> find_header_value str ''Content-Type'';
        case v of None \<Rightarrow> Some None | Some s \<Rightarrow> do {
          a \<leftarrow> p_after m fin ''boundary='' (length str - length s);
          case a of None \<Rightarrow> Some None | Some b \<Rightarrow> do {
            a \<leftarrow> p_after m fin CRLF b;
            case a of None \<Rightarrow> Some None
            | Some p \<Rightarrow> multipart_loop m fin (take (p - b - 2) (drop b m)) name p } } })"

text \<open>Where a part is: after an empty line, up to the next boundary.  The length is that up to four
  bytes before the boundary, so that it wraps around when there are fewer bytes than that.\<close>

definition part_at :: "char list \<Rightarrow> nat \<Rightarrow> u64 \<Rightarrow> bool" where
  "part_at m res n \<longleftrightarrow> 4 \<le> res \<and> take 4 (drop (res - 4) m) = CRLF @ CRLF \<and>
     (\<exists>b q. res \<le> q \<and> q + length b \<le> length m \<and> take (length b) (drop q m) = b
        \<and> n = word_of_int (int q - int res - 4))"

lemma part_data_at:
  assumes "part_data m fin b p = Some (Some (res, n))"
  shows "part_at m res n"
proof -
  from assms obtain q where r: "p_after m fin (CRLF @ CRLF) p = Some (Some res)" "p_after m fin b res = Some (Some q)"
    and n: "n = word_of_int (int q - int res - int (length b) - 4)"
    by (auto simp: part_data_def bind_eq_Some_conv split: option.splits)
  have c: "length (CRLF @ CRLF) = 4" by (simp add: CRLF_def)
  note f = p_after_found [OF r(1), unfolded c] p_after_found [OF r(2)]
  have "q \<le> length m" using f p_after_empty [of m fin res q] r(2) by (cases "b = []") (auto simp: CRLF_def)
  with f n show ?thesis unfolding part_at_def
    by (intro conjI exI [of _ b] exI [of _ "q - length b"]) (auto simp: algebra_simps)
qed

theorem multipart_part_at:
  assumes "sb_get_multipart st name = Some (Some (res, n))"
  shows "part_at (sb_s (st_recv_buf st)) res n"
proof -
  have "multipart_loop m fin b name p = Some (Some (res, n)) \<Longrightarrow> part_at m res n" for m fin b p
  proof (induction m fin b name p rule: multipart_loop.induct)
    case (1 m fin b name p)
    from "1.prems" [unfolded multipart_loop.simps [of m fin b name p]] obtain q hit where
      q: "part_name m fin b p = Some (Some q)" "name_matches m q name = Some hit"
      "(if hit then part_data m fin b q else multipart_loop m fin b name q) = Some (Some (res, n))"
      by (auto simp: bind_eq_Some_conv split: option.splits)
    with "1.IH" [OF q(1) refl q(2)] show ?case by (auto split: if_splits intro: part_data_at)
  qed
  with assms show ?thesis
    by (auto simp: sb_get_multipart_def Let_def bind_eq_Some_conv split: option.splits)
qed

end
