(* ===== verification/KernelModules.thy ===== *)
theory KernelModules
  imports Util
begin

text \<open>
  The helpers of module.c: starting a module from the sandbox, the search of the table of loaded
  modules by name, and making a module writable before it is patched.  The program does not call
  them.
\<close>

definition SCE_KERNEL_ERROR_EFAULT :: cint where "SCE_KERNEL_ERROR_EFAULT = 0x8002000E"
definition SCE_KERNEL_ERROR_ENOENT :: cint where "SCE_KERNEL_ERROR_ENOENT = 0x80020002"

text \<open>The name and the first segment of a module.\<close>

record module_info =
  mi_name :: string
  mi_address :: u64
  mi_size :: u32

text \<open>\<open>sceKernelGetModuleList\<close> returns its code, the handles it stored and the number it reports.\<close>

record 'w kernel_lib =
  sceKernelGetFsSandboxRandomWord :: "'w \<Rightarrow> string option \<times> 'w"
  sceKernelLoadStartModule :: "string \<Rightarrow> u32 \<Rightarrow> 'w \<Rightarrow> cint \<times> 'w"
  sceKernelGetModuleList :: "nat \<Rightarrow> 'w \<Rightarrow> (cint \<times> cint list \<times> nat) \<times> 'w"
  sceKernelGetModuleInfo :: "cint \<Rightarrow> 'w \<Rightarrow> (cint \<times> module_info) \<times> 'w"
  sceKernelMprotect :: "u64 \<Rightarrow> u64 \<Rightarrow> 'w \<Rightarrow> cint \<times> 'w"
  supercall_dlsym :: "cint \<Rightarrow> string \<Rightarrow> string \<Rightarrow> u32 \<Rightarrow> 'w \<Rightarrow> cint \<times> 'w"

text \<open>The first argument is the static \<open>sandboxWord\<close>.\<close>

definition sceKernelLoadStartModuleFromSandbox ::
    "'w kernel_lib \<Rightarrow> string option \<Rightarrow> string \<Rightarrow> u32 \<Rightarrow> 'w \<Rightarrow> cint \<times> string option \<times> 'w" where
  "sceKernelLoadStartModuleFromSandbox K sandboxWord name flags w =
     (case (if sandboxWord = None then sceKernelGetFsSandboxRandomWord K w else (sandboxWord, w)) of
        (None, w) \<Rightarrow> (SCE_KERNEL_ERROR_EFAULT, None, w)
      | (Some word, w) \<Rightarrow>
          (case sceKernelLoadStartModule K (trunc_cpy 1024 (''/'' @ word @ ''/common/lib/'' @ name)) flags w of
             (handle, w) \<Rightarrow> (handle, Some word, w)))"

text \<open>The loop over the handles: \<open>i\<close> are done, the last number counts the rest.\<close>

fun find_module_loop ::
    "'w kernel_lib \<Rightarrow> string \<Rightarrow> cint list \<Rightarrow> nat \<Rightarrow> nat \<Rightarrow> 'w \<Rightarrow> ((cint \<times> module_info option) \<times> 'w) option" where
  "find_module_loop K name handles i 0 w = Some ((SCE_KERNEL_ERROR_ENOENT, None), w)"
| "find_module_loop K name handles i (Suc n) w = do {
     h \<leftarrow> rd handles i;
     case sceKernelGetModuleInfo K h w of ((ret, tmpInfo), w) \<Rightarrow>
       if ret \<noteq> 0 then Some ((ret, None), w)
       else if mi_name tmpInfo = name then Some ((0, Some tmpInfo), w)
       else find_module_loop K name handles (i + 1) n w }"

definition MODULE_HANDLES :: nat where "MODULE_HANDLES = 255"

definition sceKernelGetModuleInfoByName ::
    "'w kernel_lib \<Rightarrow> string option \<Rightarrow> bool \<Rightarrow> 'w \<Rightarrow> ((cint \<times> module_info option) \<times> 'w) option" where
  "sceKernelGetModuleInfoByName K name info w =
     (case name of None \<Rightarrow> Some ((SCE_KERNEL_ERROR_EFAULT, None), w)
      | Some name \<Rightarrow>
          if \<not> info then Some ((SCE_KERNEL_ERROR_EFAULT, None), w)
          else case sceKernelGetModuleList K MODULE_HANDLES w of ((ret, hs, numModules), w) \<Rightarrow>
            if ret \<noteq> 0 then Some ((ret, None), w)
            else if MODULE_HANDLES < length hs then None
            else find_module_loop K name (hs @ replicate (MODULE_HANDLES - length hs) 0) 0 numModules w)"

definition sceKernelDlsymEx ::
    "'w kernel_lib \<Rightarrow> cint \<Rightarrow> string option \<Rightarrow> string option \<Rightarrow> u32 \<Rightarrow> bool \<Rightarrow> 'w \<Rightarrow> cint \<times> 'w" where
  "sceKernelDlsymEx K handle symbol lib flags addrp w =
     (case (symbol, lib, addrp) of
        (Some s, Some l, True) \<Rightarrow> supercall_dlsym K handle s l flags w
      | _ \<Rightarrow> (SCE_KERNEL_ERROR_EFAULT, w))"

text \<open>The base address and the size, if the module was found.\<close>

definition get_module_base :: "'w kernel_lib \<Rightarrow> string option \<Rightarrow> 'w \<Rightarrow> ((u64 \<times> u64) option \<times> 'w) option" where
  "get_module_base K name w = do {
     ((ret, info), w) \<leftarrow> sceKernelGetModuleInfoByName K name True w;
     if ret \<noteq> 0 then Some (None, w)
     else do { mi \<leftarrow> info; Some (Some (mi_address mi, ucast (mi_size mi)), w) } }"

definition patch_module ::
    "'w kernel_lib \<Rightarrow> string option \<Rightarrow> (u64 \<Rightarrow> u64 \<Rightarrow> 'w \<Rightarrow> 'w) option \<Rightarrow> 'w \<Rightarrow> (bool \<times> 'w) option" where
  "patch_module K name cb w = do {
     (found, w) \<leftarrow> get_module_base K name w;
     case found of None \<Rightarrow> Some (False, w)
     | Some (base, sz) \<Rightarrow>
         (case sceKernelMprotect K base sz w of (ret, w) \<Rightarrow>
            if ret \<noteq> 0 then Some (False, w)
            else Some (True, case cb of None \<Rightarrow> w | Some f \<Rightarrow> f base sz w)) }"

section \<open>The search is that for the first module of the name\<close>

text \<open>A table of modules that answers without changing: the handles, and what is known of each.\<close>

definition module_table :: "'w kernel_lib \<Rightarrow> cint list \<Rightarrow> (cint \<Rightarrow> module_info) \<Rightarrow> bool" where
  "module_table K hs info \<longleftrightarrow> length hs \<le> MODULE_HANDLES
     \<and> (\<forall>w. sceKernelGetModuleList K MODULE_HANDLES w = ((0, hs, length hs), w))
     \<and> (\<forall>h w. h \<in> set hs \<longrightarrow> sceKernelGetModuleInfo K h w = ((0, info h), w))"

lemma find_module_loop_eq:
  assumes "\<forall>h \<in> set hs. \<forall>w. sceKernelGetModuleInfo K h w = ((0, info h), w)"
  shows "find_module_loop K name (pre @ hs @ post) (length pre) (length hs) w
    = Some (case find (\<lambda>mi. mi_name mi = name) (map info hs) of
        None \<Rightarrow> ((SCE_KERNEL_ERROR_ENOENT, None), w) | Some mi \<Rightarrow> ((0, Some mi), w))"
  using assms
proof (induction hs arbitrary: pre)
  case (Cons h hs)
  from Cons.IH [of "pre @ [h]"] Cons.prems show ?case by (simp add: rd_def nth_append)
qed simp

theorem module_by_name:
  assumes "module_table K hs info"
  shows "sceKernelGetModuleInfoByName K (Some name) True w
    = Some (case find (\<lambda>mi. mi_name mi = name) (map info hs) of
        None \<Rightarrow> ((SCE_KERNEL_ERROR_ENOENT, None), w) | Some mi \<Rightarrow> ((0, Some mi), w))"
  using assms find_module_loop_eq [of hs K info name "[]" "replicate (MODULE_HANDLES - length hs) 0" w]
  by (auto simp: module_table_def sceKernelGetModuleInfoByName_def)

text \<open>A callback that patches a module only ever runs on the range of the module of that name, after
  the range was made writable.\<close>

theorem patch_after_protect:
  assumes "module_table K hs info" and "patch_module K (Some name) (Some f) w = Some (True, w')"
  shows "\<exists>mi v. find (\<lambda>mi. mi_name mi = name) (map info hs) = Some mi
    \<and> sceKernelMprotect K (mi_address mi) (ucast (mi_size mi)) w = (0, v)
    \<and> w' = f (mi_address mi) (ucast (mi_size mi)) v"
  using assms(2) module_by_name [OF assms(1), of name w]
  by (auto simp: patch_module_def get_module_base_def bind_eq_Some_conv SCE_KERNEL_ERROR_ENOENT_def
      split: option.splits prod.splits if_splits)

end
