(* ===== verification/JsonText.thy ===== *)
theory JsonText
  imports TinyJson
begin

text \<open>
  What the parser of tiny-json.c reads.  A flat object is written as the list of its members, with
  any blanks and commas between them; parsing its text in place and looking a name up afterwards
  is the look-up in that list.
\<close>

section \<open>Strings\<close>

text \<open>The value of the inside of a JSON string, without \<open>\u\<close>, which the parser maps to a question
  mark.\<close>

fun unescape :: "string \<Rightarrow> string option" where
  "unescape [] = Some []"
| "unescape (c # cs) =
     (if chr_code c < 32 \<or> c = CHR 0x22 then None
      else if c = CHR 0x5C then
        (case cs of [] \<Rightarrow> None
         | e # es \<Rightarrow> if getEscape e = NUL then None else map_option (Cons (getEscape e)) (unescape es))
      else map_option (Cons c) (unescape cs))"

lemma getEscape_u: "getEscape CHR ''u'' = NUL"
  by (simp add: getEscape_def escape_pairs_def)

lemma unescape_length: "unescape raw = Some s \<Longrightarrow> length s \<le> length raw"
proof (induction raw arbitrary: s rule: unescape.induct)
  case (2 c cs)
  show ?case
  proof (cases "c = CHR 0x5C")
    case True
    with "2.prems" obtain e es s' where e: "cs = e # es" "getEscape e \<noteq> NUL" "unescape es = Some s'" "s = getEscape e # s'"
      by (auto split: if_splits list.splits)
    with "2.IH"(1) [of e es s'] "2.prems" True show ?thesis by (auto split: if_splits)
  next
    case False
    with 2 show ?thesis by (auto split: if_splits)
  qed
qed simp

lemma unescape_cstring: "unescape raw = Some s \<Longrightarrow> cstring s"
proof (induction raw arbitrary: s rule: unescape.induct)
  case (2 c cs)
  show ?case
  proof (cases "c = CHR 0x5C")
    case True
    with "2.prems" obtain e es s' where e: "cs = e # es" "getEscape e \<noteq> NUL" "unescape es = Some s'" "s = getEscape e # s'"
      by (auto split: if_splits list.splits)
    with "2.IH"(1) [of e es s'] "2.prems" True show ?thesis by (auto simp: cstring_def split: if_splits)
  next
    case False
    with 2 show ?thesis by (auto simp: cstring_def chr_code_def split: if_splits)
  qed
qed (simp add: cstring_def)

lemma unescape_plain:
  "\<forall>c \<in> set s. \<not> chr_code c < 32 \<and> c \<noteq> CHR 0x22 \<and> c \<noteq> CHR 0x5C \<Longrightarrow> unescape s = Some s"
  by (induction s) simp_all

text \<open>The reading position runs ahead of the writing position by a gap of bytes that are no longer
  needed.\<close>

lemma write_gap:
  assumes "g \<noteq> []"
  shows "wr (pre @ g @ post) (length pre) x = Some ((pre @ [x]) @ tl g @ post)"
  using assms by (cases g) (simp_all add: wr_def list_update_append)

lemma parseString_unescape:
  "unescape raw = Some s \<Longrightarrow> \<exists>junk. parseString (pre @ gap @ raw @ CHR 0x22 # post) (length (pre @ gap)) (length pre)
     = Some (pre @ s @ NUL # junk @ post, Some (length (pre @ gap @ raw) + 1))
     \<and> length s + length junk = length gap + length raw"
proof (induction raw arbitrary: s pre gap rule: unescape.induct)
  case 1
  have "wr (pre @ (gap @ [CHR 0x22]) @ post) (length pre) NUL = Some ((pre @ [NUL]) @ tl (gap @ [CHR 0x22]) @ post)"
    by (rule write_gap) simp
  moreover have "rd (pre @ gap @ CHR 0x22 # post) (length (pre @ gap)) = Some CHR 0x22"
    by (simp add: rd_def nth_append)
  ultimately show ?case using 1
    by (subst parseString.simps) (auto simp: chr_code_def)
next
  case (2 c cs)
  let ?q = "CHR 0x22 # post"
  have c: "\<not> chr_code c < 32" "c \<noteq> CHR 0x22" using "2.prems" by (auto split: if_splits)
  have rc: "rd (pre @ gap @ c # cs @ ?q) (length (pre @ gap)) = Some c" by (simp add: rd_def nth_append)
  show ?case
  proof (cases "c = CHR 0x5C")
    case True
    with "2.prems" c obtain e es s' where e: "cs = e # es" "getEscape e \<noteq> NUL" "unescape es = Some s'" "s = getEscape e # s'"
      by (auto split: list.splits if_splits)
    let ?gap = "tl (gap @ [c, e])"
    have re: "rd (pre @ gap @ c # cs @ ?q) (length (pre @ gap) + 1) = Some e"
      by (simp add: rd_def nth_append e(1))
    have w: "wr (pre @ gap @ c # cs @ ?q) (length pre) (getEscape e) = Some ((pre @ [getEscape e]) @ ?gap @ es @ ?q)"
      using write_gap [of "gap @ [c, e]" pre "es @ ?q" "getEscape e"] by (simp add: e(1))
    have "e \<noteq> CHR ''u''" using e(2) getEscape_u by auto
    then have "parseString (pre @ gap @ c # cs @ ?q) (length (pre @ gap)) (length pre)
        = parseString ((pre @ [getEscape e]) @ ?gap @ es @ ?q) (length (pre @ gap) + 1 + 1) (length pre + 1)"
      using rc re w c e(2) True by (subst parseString.simps) simp
    moreover have "length ((pre @ [getEscape e]) @ ?gap) = length (pre @ gap) + 1 + 1" by (cases gap) simp_all
    ultimately show ?thesis
      using "2.IH"(1) [of e es s' "pre @ [getEscape e]" ?gap] c True e by (cases gap) (auto simp: add.assoc)
  next
    case False
    with "2.prems" c obtain s' where s: "unescape cs = Some s'" "s = c # s'" by auto
    let ?gap = "tl (gap @ [c])"
    have w: "wr (pre @ gap @ c # cs @ ?q) (length pre) c = Some ((pre @ [c]) @ ?gap @ cs @ ?q)"
      using write_gap [of "gap @ [c]" pre "cs @ ?q" c] by simp
    have "parseString (pre @ gap @ c # cs @ ?q) (length (pre @ gap)) (length pre)
        = parseString ((pre @ [c]) @ ?gap @ cs @ ?q) (length (pre @ gap) + 1) (length pre + 1)"
      using rc w c False by (subst parseString.simps) simp
    moreover have "length ((pre @ [c]) @ ?gap) = length (pre @ gap) + 1" by (cases gap) simp_all
    ultimately show ?thesis
      using "2.IH"(2) [of s' "pre @ [c]" ?gap] c False s by (cases gap) (auto simp: add.assoc)
  qed
qed

section \<open>Values\<close>

text \<open>A terminated string at a place of a text; it stays there when the text grows.\<close>

definition str_at :: "string \<Rightarrow> nat \<Rightarrow> string \<Rightarrow> bool" where
  "str_at m i s \<longleftrightarrow> cstring s \<and> (\<exists>a b. m = a @ s @ NUL # b \<and> length a = i)"

lemma str_atI: "cstring s \<Longrightarrow> str_at (a @ s @ NUL # b) (length a) s"
  by (auto simp: str_at_def)

lemma str_at_append: "str_at m i s \<Longrightarrow> str_at (m @ x) i s"
  unfolding str_at_def by (metis append.assoc append_Cons)

lemma str_at_cstr: "str_at m i s \<Longrightarrow> cstr_at m i = Some s"
  using cstr_at_append by (auto simp: str_at_def)

text \<open>How a value is written, and what is then stored: its type and its text.\<close>

datatype jraw = RText string | RInt string string | RBool bool

fun raw_text :: "jraw \<Rightarrow> string" where
  "raw_text (RText r) = CHR 0x22 # r @ [CHR 0x22]"
| "raw_text (RInt sg ds) = sg @ ds"
| "raw_text (RBool b) = (if b then ''true'' else ''false'')"

fun raw_value :: "jraw \<Rightarrow> (jsonType_t \<times> string) option" where
  "raw_value (RText r) = map_option (Pair JSON_TEXT) (unescape r)"
| "raw_value (RInt sg ds) =
     (if int_text ds \<and> (sg = [] \<or> sg = ''-'') \<and> - (2 ^ 63) \<le> signed_val sg ds \<and> signed_val sg ds < 2 ^ 63
      then Some (JSON_INTEGER, sg @ ds) else None)"
| "raw_value (RBool b) = Some (JSON_BOOLEAN, if b then ''true'' else ''false'')"

fun is_text :: "jraw \<Rightarrow> bool" where
  "is_text (RText r) = True"
| "is_text _ = False"

text \<open>What a value parser leaves: the value is terminated, or will be by the end of the object, and
  the text goes on after it, or after the one separator that was overwritten.\<close>

definition separator :: "char \<Rightarrow> bool" where
  "separator c \<longleftrightarrow> c = CHR '','' \<or> c \<in> set blank"

definition value_read :: "string \<Rightarrow> string \<Rightarrow> (jsonType_t \<times> string) \<Rightarrow> value_result \<Rightarrow> bool" where
  "value_read pre rest tv r \<longleftrightarrow> (\<exists>x val rest'. r = Some (pre @ x @ rest', Some (length (pre @ x), val, fst tv))
     \<and> (str_at (pre @ x) val (snd tv) \<and> (rest' = rest \<or> (\<exists>c. separator c \<and> rest = c # rest'))
        \<or> str_at (pre @ x @ [NUL]) val (snd tv) \<and> rest' = rest \<and> rest \<noteq> [] \<and> hd rest \<in> {CHR ''}'', CHR '']''}))"

lemma textValue_read:
  assumes "unescape r = Some s"
  shows "value_read pre rest (JSON_TEXT, s) (textValue (pre @ raw_text (RText r) @ rest) (length pre) (length pre))"
proof -
  from parseString_unescape [OF assms, of "pre @ [CHR 0x22]" "[]" rest] obtain junk where
    p: "parseString (pre @ CHR 0x22 # r @ CHR 0x22 # rest) (length pre + 1) (length pre + 1)
      = Some (pre @ CHR 0x22 # s @ NUL # junk @ rest, Some (length pre + length r + 2))"
    and l: "length s + length junk = length r" by auto
  have "str_at ((pre @ [CHR 0x22]) @ s @ NUL # junk) (length (pre @ [CHR 0x22])) s"
    by (rule str_atI [OF unescape_cstring [OF assms]])
  with p l show ?thesis unfolding value_read_def
    by (intro exI [of _ "CHR 0x22 # s @ NUL # junk"] exI [of _ "length pre + 1"] exI [of _ rest])
      (auto simp: textValue_def)
qed

lemma setToNull_at:
  "setToNull (pre @ c # rest) (length pre)
     = Some (if c \<in> {CHR ''}'', CHR '']''} then (pre @ c # rest, length pre) else (pre @ NUL # rest, length pre + 1))"
  by (auto simp: setToNull_def endofblock_def rd_def wr_def nth_append list_update_append)

lemma isOneOfThem_iff: "isOneOfThem c s \<longleftrightarrow> c \<in> set s"
  by (induction s) auto

lemma endOfPrimitive_iff: "isEndOfPrimitive c \<longleftrightarrow> separator c \<or> c \<in> {CHR ''}'', CHR '']''}"
  by (auto simp: isEndOfPrimitive_def separator_def isOneOfThem_iff endofblock_def)

text \<open>After a primitive of the text \<open>s\<close> that is followed by \<open>c\<close>.\<close>

lemma primitive_read:
  assumes "cstring s" and "isEndOfPrimitive c" and "setToNull (pre @ s @ c # rest) (length (pre @ s)) = Some (m, p)"
  shows "value_read pre (c # rest) (ty, s) (Some (m, Some (p, length pre, ty)))"
proof (cases "c \<in> {CHR ''}'', CHR '']''}")
  case True
  with assms(3) setToNull_at [of "pre @ s" c rest] have "m = pre @ s @ c # rest" "p = length (pre @ s)" by simp_all
  moreover have "str_at (pre @ s @ [NUL]) (length pre) s" using str_atI [OF assms(1), of pre "[]"] by simp
  ultimately show ?thesis using True unfolding value_read_def
    by (intro exI [of _ s] exI [of _ "length pre"] exI [of _ "c # rest"]) simp
next
  case False
  with assms(3) setToNull_at [of "pre @ s" c rest] have "m = pre @ (s @ [NUL]) @ rest" "p = length (pre @ s @ [NUL])"
    by simp_all
  moreover have "str_at (pre @ s @ [NUL]) (length pre) s" using str_atI [OF assms(1), of pre "[]"] by simp
  moreover have "separator c" using False assms(2) by (simp add: endOfPrimitive_iff)
  ultimately show ?thesis unfolding value_read_def
    by (intro exI [of _ "s @ [NUL]"] exI [of _ "length pre"] exI [of _ rest]) simp
qed

lemma checkStr_at: "checkStr (pre @ lit @ rest) (length pre) lit = Some (Some (length (pre @ lit)))"
proof (induction lit arbitrary: pre)
  case (Cons s ss)
  from Cons.IH [of "pre @ [s]"] show ?case by (simp add: rd_def nth_append)
qed simp

lemma primitiveValue_read:
  assumes "cstring lit" and "isEndOfPrimitive c"
  shows "value_read pre (c # rest) (ty, lit) (primitiveValue (pre @ lit @ c # rest) (length pre) (length pre) lit ty)"
proof -
  obtain m p where s: "setToNull (pre @ lit @ c # rest) (length (pre @ lit)) = Some (m, p)"
    using setToNull_at [of "pre @ lit" c rest] by (cases "c \<in> {CHR ''}'', CHR '']''}") auto
  have "rd (pre @ lit @ c # rest) (length (pre @ lit)) = Some c" by (simp add: rd_def nth_append)
  with s checkStr_at [of pre lit "c # rest"] assms(2)
  have "primitiveValue (pre @ lit @ c # rest) (length pre) (length pre) lit ty = Some (m, Some (p, length pre, ty))"
    by (simp add: primitiveValue_def)
  with primitive_read [OF assms s] show ?thesis by simp
qed

lemma numValue_read:
  assumes "raw_value (RInt sg ds) = Some tv" and t: "isEndOfPrimitive c"
  shows "value_read pre (c # rest) tv (numValue (pre @ raw_text (RInt sg ds) @ c # rest) (length pre) (length pre))"
proof -
  from assms(1) have ds: "int_text ds" and sg: "sg = [] \<or> sg = ''-''"
    and v: "- (2 ^ 63) \<le> signed_val sg ds \<and> signed_val sg ds < 2 ^ 63" and tv: "tv = (JSON_INTEGER, sg @ ds)"
    by (auto split: if_splits)
  let ?m = "pre @ sg @ ds @ c # rest" and ?p = "length pre + length sg + length ds"
  have at: "rd ?m ?p = Some c" by (simp add: rd_def nth_append)
  have i: "numInt ?m (length pre) = Some (Some ?p)" using numInt_digits [OF ds t] sg by auto
  have f: "numFrac ?m ?p = Some (Some (?p, JSON_INTEGER))" "numExp ?m ?p JSON_INTEGER = Some (Some (?p, JSON_INTEGER))"
    using numTail_end [OF t, of "pre @ sg @ ds"] by (simp_all add: add.assoc)
  have r: "numRange ?m ?p (length pre) = Some (?m, True)" using numRange_value [OF ds sg t, of pre rest] v by auto
  obtain m p where s: "setToNull (pre @ (sg @ ds) @ c # rest) (length (pre @ sg @ ds)) = Some (m, p)"
    using setToNull_at [of "pre @ sg @ ds" c rest] by (cases "c \<in> {CHR ''}'', CHR '']''}") auto
  have "numValue ?m (length pre) (length pre) = Some (m, Some (p, length pre, JSON_INTEGER))"
    using i f at t r s by (simp add: numValue_def add.assoc)
  moreover have "cstring (sg @ ds)" using ds sg by (auto simp: cstring_def int_text_def digits_def)
  ultimately show ?thesis using primitive_read [OF _ t s, of JSON_INTEGER] tv by simp
qed

text \<open>The switch on the first byte of a value.\<close>

definition parse_value :: "char list \<Rightarrow> nat \<Rightarrow> value_result" where
  "parse_value m ptr = do {
     c \<leftarrow> rd m ptr;
     if c = CHR 0x22 then textValue m ptr ptr
     else if c = CHR ''t'' then trueValue m ptr ptr
     else if c = CHR ''f'' then falseValue m ptr ptr
     else if c = CHR ''n'' then nullValue m ptr ptr
     else numValue m ptr ptr }"

lemma digit_first: "isdigit c \<Longrightarrow> c \<notin> {CHR 0x22, CHR ''t'', CHR ''f'', CHR ''n'', CHR ''{'', CHR ''['', NUL}"
  by (auto simp: isdigit_def chr_code_def)

lemma raw_text_first:
  assumes "raw_value v = Some tv"
  shows "\<exists>c cs. raw_text v = c # cs \<and> c \<notin> {CHR ''{'', CHR ''['', NUL} \<and> c \<notin> set blank"
proof (cases v)
  case (RInt sg ds)
  with assms have "ds \<noteq> []" "digits ds" and sg: "sg = [] \<or> sg = ''-''" by (auto simp: int_text_def split: if_splits)
  then obtain d es where d: "ds = d # es" "isdigit d" by (cases ds) auto
  then have "d \<notin> set blank" by (auto simp: isdigit_def chr_code_def blank_def)
  with RInt d digit_first [OF d(2)] sg show ?thesis by (auto simp: blank_def)
qed (auto simp: blank_def)

lemma parse_value_read:
  assumes v: "raw_value v = Some tv" and r: "is_text v \<or> (\<exists>c r. rest = c # r \<and> isEndOfPrimitive c)"
  shows "value_read pre rest tv (parse_value (pre @ raw_text v @ rest) (length pre))"
proof (cases v)
  case (RText t)
  with v obtain s where s: "unescape t = Some s" "tv = (JSON_TEXT, s)" by auto
  have "rd (pre @ raw_text v @ rest) (length pre) = Some CHR 0x22" using RText by (simp add: rd_def nth_append)
  with textValue_read [OF s(1), of pre rest] s(2) RText show ?thesis by (simp add: parse_value_def)
next
  case (RBool b)
  with r obtain c r' where rest: "rest = c # r'" "isEndOfPrimitive c" by auto
  show ?thesis
  proof (cases b)
    case True
    have "rd (pre @ ''true'' @ rest) (length pre) = Some CHR ''t''" by (simp add: rd_def nth_append)
    with primitiveValue_read [of "''true''" c pre r' JSON_BOOLEAN] rest RBool True v show ?thesis
      by (simp add: parse_value_def trueValue_def cstring_def)
  next
    case False
    have "rd (pre @ ''false'' @ rest) (length pre) = Some CHR ''f''" by (simp add: rd_def nth_append)
    with primitiveValue_read [of "''false''" c pre r' JSON_BOOLEAN] rest RBool False v show ?thesis
      by (simp add: parse_value_def falseValue_def cstring_def)
  qed
next
  case (RInt sg ds)
  with r obtain c r' where rest: "rest = c # r'" "isEndOfPrimitive c" by auto
  from v RInt have d: "ds \<noteq> []" "digits ds" "sg = [] \<or> sg = ''-''" by (auto simp: int_text_def split: if_splits)
  then have "isdigit (hd ds)" by (cases ds) auto
  with d digit_first [of "hd ds"] obtain x xs where x: "sg @ ds = x # xs" "x \<notin> {CHR 0x22, CHR ''t'', CHR ''f'', CHR ''n''}"
    by (cases ds) auto
  then have "rd (pre @ raw_text v @ rest) (length pre) = Some x" using RInt by (simp add: rd_def nth_append)
  with x numValue_read [of sg ds tv c pre r'] v rest RInt show ?thesis by (simp add: parse_value_def)
qed

section \<open>Members\<close>

text \<open>The separators before a member, its name, the blanks around the colon, and its value.\<close>

type_synonym member = "string \<times> string \<times> string \<times> string \<times> jraw"

fun body_text :: "member list \<Rightarrow> string \<Rightarrow> string \<Rightarrow> string" where
  "body_text [] sep after = sep @ CHR ''}'' # after"
| "body_text ((s, k, b1, b2, v) # ms) sep after =
     s @ CHR 0x22 # k @ CHR 0x22 # b1 @ CHR '':'' # b2 @ raw_text v @ body_text ms sep after"

abbreviation separators :: "string \<Rightarrow> bool" where
  "separators s \<equiv> \<forall>c \<in> set s. separator c"

abbreviation blanks :: "string \<Rightarrow> bool" where
  "blanks s \<equiv> set s \<subseteq> set blank"

text \<open>A primitive value ends at a separator or at the end of the object.\<close>

fun members_ok :: "member list \<Rightarrow> bool" where
  "members_ok [] \<longleftrightarrow> True"
| "members_ok ((s, k, b1, b2, v) # ms) \<longleftrightarrow>
     separators s \<and> unescape k \<noteq> None \<and> blanks b1 \<and> blanks b2 \<and> raw_value v \<noteq> None
     \<and> (case ms of [] \<Rightarrow> True | (s', _) # _ \<Rightarrow> is_text v \<or> s' \<noteq> []) \<and> members_ok ms"

text \<open>What the members mean.\<close>

fun member_value :: "member \<Rightarrow> string \<times> jsonType_t \<times> string" where
  "member_value (s, k, b1, b2, v) = (the (unescape k), the (raw_value v))"

lemma goBlank_skip:
  "set b \<subseteq> set blank \<Longrightarrow> c \<notin> set blank \<Longrightarrow> c \<noteq> NUL \<Longrightarrow>
     goBlank (pre @ b @ c # post) (length pre) = Some (Some (length (pre @ b)))"
proof (induction b arbitrary: pre)
  case Nil
  then show ?case
    by (simp add: goBlank_def) (subst goWhile.simps, simp add: rd_def nth_append isOneOfThem_iff)
next
  case (Cons x b)
  then have "x \<noteq> NUL" "isOneOfThem x blank" by (auto simp: blank_def isOneOfThem_iff)
  then have "goBlank (pre @ (x # b) @ c # post) (length pre) = goBlank ((pre @ [x]) @ b @ c # post) (length (pre @ [x]))"
    unfolding goBlank_def by (subst goWhile.simps) (simp add: rd_def nth_append)
  with Cons.IH [of "pre @ [x]"] Cons.prems show ?case by simp
qed

lemma propertyName_read:
  assumes "unescape k = Some key" and "blanks b1" and "blanks b2" and "c \<notin> set blank" and "c \<noteq> NUL"
  shows "\<exists>x. propertyName (pre @ CHR 0x22 # k @ CHR 0x22 # b1 @ CHR '':'' # b2 @ c # post) (length pre)
      = Some (pre @ x @ c # post, length pre + 1, Some (length (pre @ x)))
    \<and> str_at (pre @ x) (length pre + 1) key"
proof -
  let ?post = "b1 @ CHR '':'' # b2 @ c # post"
  from parseString_unescape [OF assms(1), of "pre @ [CHR 0x22]" "[]" ?post] obtain junk where
    p: "parseString (pre @ CHR 0x22 # k @ CHR 0x22 # ?post) (length pre + 1) (length pre + 1)
      = Some (pre @ CHR 0x22 # key @ NUL # junk @ ?post, Some (length pre + length k + 2))"
    and l: "length key + length junk = length k" by auto
  let ?a = "pre @ CHR 0x22 # key @ NUL # junk"
  have la: "length ?a = length pre + length k + 2" using l by simp
  have g1: "goBlank (?a @ b1 @ CHR '':'' # b2 @ c # post) (length ?a) = Some (Some (length (?a @ b1)))"
    by (rule goBlank_skip [OF assms(2)]) (auto simp: blank_def)
  have g2: "goBlank ((?a @ b1 @ [CHR '':'']) @ b2 @ c # post) (length (?a @ b1 @ [CHR '':'']))
      = Some (Some (length (?a @ b1 @ CHR '':'' # b2)))"
    using goBlank_skip [OF assms(3-5), of "?a @ b1 @ [CHR '':'']" post] by simp
  have colon: "rd (?a @ b1 @ CHR '':'' # b2 @ c # post) (length (?a @ b1)) = Some CHR '':''"
    using nth_append_length [of "?a @ b1" "CHR '':''" "b2 @ c # post"] by (simp add: rd_def)
  have "propertyName (pre @ CHR 0x22 # k @ CHR 0x22 # ?post) (length pre)
      = Some (?a @ b1 @ CHR '':'' # b2 @ c # post, length pre + 1, Some (length (?a @ b1 @ CHR '':'' # b2)))"
    using p g1 [unfolded la] g2 colon la by (simp add: propertyName_def)
  moreover have "str_at (pre @ CHR 0x22 # key @ NUL # junk @ b1 @ CHR '':'' # b2) (length pre + 1) key"
    using str_atI [OF unescape_cstring [OF assms(1)], of "pre @ [CHR 0x22]" "junk @ b1 @ CHR '':'' # b2"] by simp
  ultimately show ?thesis by (intro exI [of _ "CHR 0x22 # key @ NUL # junk @ b1 @ CHR '':'' # b2"]) simp
qed

section \<open>Nodes\<close>

text \<open>A node of the pool stands for a member, and the nodes after the first for a list of them, as
  the children of the first.\<close>

definition node_at :: "string \<Rightarrow> json_t \<Rightarrow> string \<times> jsonType_t \<times> string \<Rightarrow> bool" where
  "node_at Q j mv \<longleftrightarrow> (\<exists>n x. jname j = Some n \<and> str_at Q n (fst mv) \<and> ju j = UValue x \<and> str_at Q x (snd (snd mv))
     \<and> jtype j = fst (snd mv))"

definition nodes_at :: "string \<Rightarrow> json_t list \<Rightarrow> (string \<times> jsonType_t \<times> string) list \<Rightarrow> bool" where
  "nodes_at Q mem dn \<longleftrightarrow> length dn < length mem
     \<and> jtype (mem ! 0) = JSON_OBJ \<and> jsibling (mem ! 0) = None
     \<and> ju (mem ! 0) = UChildren (if dn = [] then None else Some (1, length dn))
     \<and> (\<forall>i < length dn. node_at Q (mem ! Suc i) (dn ! i)
          \<and> jsibling (mem ! Suc i) = (if Suc i < length dn then Some (Suc (Suc i)) else None))"

lemma node_at_append: "node_at Q j mv \<Longrightarrow> node_at (Q @ x) j mv"
  unfolding node_at_def using str_at_append by blast

lemma nodes_at_append: "nodes_at Q mem dn \<Longrightarrow> nodes_at (Q @ x) mem dn"
  unfolding nodes_at_def using node_at_append by blast

text \<open>A new node is allocated, named and linked, and gets its value later.\<close>

definition add_node :: "json_t list \<Rightarrow> nat \<Rightarrow> nat option \<Rightarrow> json_t list option" where
  "add_node mem k nm = do {
     mem \<leftarrow> upd mem k (\<lambda>j. j\<lparr>jname := nm\<rparr>);
     json_add mem 0 k }"

lemma add_node_links:
  assumes n: "nodes_at Q mem dn" and k: "k = Suc (length dn)" "k < length mem"
  shows "\<exists>mem'. add_node mem k nm = Some mem' \<and> length mem' = length mem
    \<and> mem' ! 0 = (mem ! 0)\<lparr>ju := UChildren (Some (1, k))\<rparr>
    \<and> mem' ! k = (mem ! k)\<lparr>jname := nm, jsibling := None\<rparr>
    \<and> (\<forall>i < length dn. mem' ! Suc i
        = (if Suc i = length dn then (mem ! Suc i)\<lparr>jsibling := Some k\<rparr> else mem ! Suc i))"
proof (cases "dn = []")
  case True
  with n k show ?thesis
    by (auto simp: add_node_def json_add_def upd_def rd_def nodes_at_def nth_list_update)
next
  case False
  with n k have "ju (mem ! 0) = UChildren (Some (1, length dn))" "length dn < length mem" "0 < length dn"
    by (auto simp: nodes_at_def)
  with k show ?thesis
    by (auto simp: add_node_def json_add_def upd_def rd_def nth_list_update)
qed

lemma nodes_at_snoc:
  assumes n: "nodes_at Q mem dn" and k: "k = Suc (length dn)" "k < length mem"
    and a: "add_node mem k (Some nm) = Some mem'" and s: "str_at Q nm key" "str_at Q val v"
  shows "nodes_at Q (mem'[k := (mem' ! k)\<lparr>ju := UValue val, jtype := ty\<rparr>]) (dn @ [(key, ty, v)])"
proof -
  let ?m = "mem'[k := (mem' ! k)\<lparr>ju := UValue val, jtype := ty\<rparr>]"
  from add_node_links [OF n k, of "Some nm"] a have m: "length mem' = length mem"
    "mem' ! 0 = (mem ! 0)\<lparr>ju := UChildren (Some (1, k))\<rparr>" "mem' ! k = (mem ! k)\<lparr>jname := Some nm, jsibling := None\<rparr>"
    "\<And>i. i < length dn \<Longrightarrow> mem' ! Suc i = (if Suc i = length dn then (mem ! Suc i)\<lparr>jsibling := Some k\<rparr> else mem ! Suc i)"
    by auto
  have "node_at Q (?m ! Suc i) ((dn @ [(key, ty, v)]) ! i)
      \<and> jsibling (?m ! Suc i) = (if Suc i < Suc (length dn) then Some (Suc (Suc i)) else None)" if "i \<le> length dn" for i
  proof (cases "i = length dn")
    case True
    with m k s show ?thesis by (auto simp: node_at_def)
  next
    case False
    with that have i: "i < length dn" by simp
    with n have "node_at Q (mem ! Suc i) (dn ! i)"
      "jsibling (mem ! Suc i) = (if Suc i < length dn then Some (Suc (Suc i)) else None)" by (simp_all add: nodes_at_def)
    with m(4) [OF i] i k show ?thesis by (auto simp: node_at_def nth_append)
  qed
  with n m k show ?thesis by (auto simp: nodes_at_def less_Suc_eq_le)
qed

section \<open>The loop\<close>

text \<open>The text the parsed members are in; the terminator of a primitive at the end of the object is
  only written when the object is closed.\<close>

definition read_text :: "string \<Rightarrow> member list \<Rightarrow> string \<Rightarrow> string" where
  "read_text pre ms sep = (if ms = [] \<and> sep = [] then pre @ [NUL] else pre)"

lemma nodes_at_read: "nodes_at pre mem dn \<Longrightarrow> nodes_at (read_text pre ms sep) mem dn"
  by (simp add: read_text_def nodes_at_append)

lemma separator_not: "\<not> separator CHR ''}''" "\<not> separator CHR 0x22" "\<not> separator NUL" "separator CHR '',''"
  by (auto simp: separator_def blank_def)

lemma body_consume:
  assumes "body_text ms sep after = c # r" and "separator c" and "members_ok ms" and "separators sep"
  shows "\<exists>ms' sep'. r = body_text ms' sep' after \<and> members_ok ms' \<and> separators sep' \<and> length ms' = length ms
    \<and> map member_value ms' = map member_value ms"
proof (cases ms)
  case Nil
  with assms separator_not show ?thesis
    by (cases sep) (auto intro!: exI [of _ "[]"] exI [of _ "tl sep"])
next
  case (Cons x xs)
  obtain s k b1 b2 v where x: "x = (s, k, b1, b2, v)" by (metis prod_cases5)
  with assms Cons separator_not obtain s' where s: "s = c # s'" by (cases s) auto
  with assms Cons x show ?thesis
    by (intro exI [of _ "(s', k, b1, b2, v) # xs"] exI [of _ sep]) simp
qed

lemma body_text_first:
  assumes "separators sep" and "members_ok ms"
  shows "\<exists>c r. body_text ms sep after = c # r \<and> (isEndOfPrimitive c \<longleftrightarrow>
    (case ms of [] \<Rightarrow> True | (s, _) # _ \<Rightarrow> s \<noteq> [])) \<and> (c \<in> {CHR ''}'', CHR '']''} \<longrightarrow> ms = [] \<and> sep = [])"
proof -
  have sep: "separator c \<Longrightarrow> c \<notin> {CHR ''}'', CHR '']'', CHR 0x22}" for c by (auto simp: separator_def blank_def)
  show ?thesis
  proof (cases ms)
    case Nil
    with assms sep show ?thesis by (cases sep) (auto simp: endOfPrimitive_iff)
  next
    case (Cons x xs)
    obtain s k b1 b2 v where x: "x = (s, k, b1, b2, v)" by (metis prod_cases5)
    with Cons assms sep separator_not show ?thesis by (cases s) (auto simp: endOfPrimitive_iff)
  qed
qed

lemma json_value_simple:
  assumes "rd m ptr = Some c" and "c \<noteq> CHR ''{''" and "c \<noteq> CHR ''[''"
  shows "json_value m pool ptr obj property = do {
     (m, r) \<leftarrow> parse_value m ptr;
     case r of None \<Rightarrow> Some (Done m pool None)
     | Some (p, val, ty) \<Rightarrow> do {
         mem \<leftarrow> upd (pmem pool) property (\<lambda>j. j\<lparr>ju := UValue val, jtype := ty\<rparr>);
         Some (Go m (pool\<lparr>pmem := mem\<rparr>) p obj) } }"
  using assms by (simp add: json_value_def parse_value_def)

lemma member_step:
  assumes ok: "members_ok ((s, k, b1, b2, v) # ms)" and sep: "separators sep"
    and n: "nodes_at pre mem dn" and room: "Suc (length dn) < length mem"
  shows "\<exists>pre' ms' sep' mem'. objValue_step (pre @ body_text (([], k, b1, b2, v) # ms) sep after)
        \<lparr>pmem = mem, nextFree = Suc (length dn)\<rparr> (length pre) 0
      = Some (Go (pre' @ body_text ms' sep' after) \<lparr>pmem = mem', nextFree = Suc (Suc (length dn))\<rparr> (length pre') 0)
    \<and> members_ok ms' \<and> separators sep' \<and> length ms' = length ms \<and> map member_value ms' = map member_value ms
    \<and> length mem' = length mem
    \<and> nodes_at (read_text pre' ms' sep') mem' (dn @ [member_value (s, k, b1, b2, v)])"
proof -
  let ?rest = "body_text ms sep after" and ?k = "Suc (length dn)"
  from ok obtain key ty val where key: "unescape k = Some key" and val: "raw_value v = Some (ty, val)"
    and b: "blanks b1" "blanks b2" and ms: "members_ok ms"
    and ends: "is_text v \<or> (case ms of [] \<Rightarrow> True | (s', _) # _ \<Rightarrow> s' \<noteq> [])" by (auto split: list.splits)
  from raw_text_first [OF val] obtain c cs where c: "raw_text v = c # cs" "c \<notin> {CHR ''{'', CHR ''['', NUL}" "c \<notin> set blank"
    by blast
  let ?m = "pre @ CHR 0x22 # k @ CHR 0x22 # b1 @ CHR '':'' # b2 @ c # cs @ ?rest"
  from propertyName_read [OF key b c(3), of pre "cs @ ?rest"] c(2) obtain x where
    nm: "propertyName ?m (length pre) = Some (pre @ x @ c # cs @ ?rest, length pre + 1, Some (length (pre @ x)))"
    and sk: "str_at (pre @ x) (length pre + 1) key" by auto
  from body_text_first [OF sep ms, of after] ends have
    "is_text v \<or> (\<exists>c r. ?rest = c # r \<and> isEndOfPrimitive c)" by (auto split: list.splits)
  from parse_value_read [OF val this, of "pre @ x"] obtain y vx rest' where
    pv: "parse_value (pre @ x @ c # cs @ ?rest) (length (pre @ x)) = Some (pre @ x @ y @ rest', Some (length (pre @ x @ y), vx, ty))"
    and vr: "str_at (pre @ x @ y) vx val \<and> (rest' = ?rest \<or> (\<exists>c. separator c \<and> ?rest = c # rest'))
        \<or> str_at (pre @ x @ y @ [NUL]) vx val \<and> rest' = ?rest \<and> ?rest \<noteq> [] \<and> hd ?rest \<in> {CHR ''}'', CHR '']''}"
    unfolding value_read_def by (auto simp: c(1))
  let ?pre = "pre @ x @ y"
  from n room have "nodes_at ?pre mem dn" by (simp add: nodes_at_append)
  note add = add_node_links [OF n refl room, of "Some (length pre + 1)"]
  then obtain mem1 where a: "add_node mem ?k (Some (length pre + 1)) = Some mem1" "length mem1 = length mem" by blast
  let ?mem = "mem1[?k := (mem1 ! ?k)\<lparr>ju := UValue vx, jtype := ty\<rparr>]"
  have o: "rd mem 0 = Some (mem ! 0)" "jtype (mem ! 0) = JSON_OBJ" using n by (auto simp: nodes_at_def rd_def)
  have q: "goBlank ?m (length pre) = Some (Some (length pre))"
    using goBlank_skip [of "[]" "CHR 0x22" pre] by (auto simp: blank_def)
  have rq: "rd ?m (length pre) = Some CHR 0x22" by (simp add: rd_def nth_append)
  have rc: "rd (pre @ x @ c # cs @ ?rest) (length (pre @ x)) = Some c"
    using nth_append_length [of "pre @ x" c "cs @ ?rest"] by (simp add: rd_def)
  have "obj_property ?m \<lparr>pmem = mem, nextFree = ?k\<rparr> (length pre) 0 JSON_OBJ
      = json_value (pre @ x @ c # cs @ ?rest) \<lparr>pmem = mem1, nextFree = Suc ?k\<rparr> (length (pre @ x)) 0 ?k"
    using a(1) nm rq room by (simp add: obj_property_def poolNew_def obj_key_def add_node_def bind_eq_Some_conv)
      (auto simp: Option.bind_eq_Some_conv)
  also have "\<dots> = Some (Go (?pre @ rest') \<lparr>pmem = ?mem, nextFree = Suc ?k\<rparr> (length ?pre) 0)"
    using pv rc c(2) a(2) room by (simp add: json_value_simple upd_def)
  finally have step: "objValue_step (pre @ body_text (([], k, b1, b2, v) # ms) sep after)
        \<lparr>pmem = mem, nextFree = ?k\<rparr> (length pre) 0
      = Some (Go (?pre @ rest') \<lparr>pmem = ?mem, nextFree = Suc ?k\<rparr> (length ?pre) 0)"
    using q rq o by (simp add: objValue_step_def c(1))
  have nodes: "nodes_at Q ?mem (dn @ [(key, ty, val)])"
    if "str_at Q vx val" "\<exists>z. Q = ?pre @ z" for Q
  proof -
    from that(2) obtain z where Q: "Q = (pre @ x) @ y @ z" by auto
    then have "nodes_at Q mem dn" using nodes_at_append [OF n, of "x @ y @ z"] by simp
    moreover have "str_at Q (length pre + 1) key" unfolding Q by (rule str_at_append [OF sk])
    ultimately show ?thesis using nodes_at_snoc [OF _ refl room a(1) _ that(1)] by blast
  qed
  show ?thesis
  proof (cases "str_at ?pre vx val")
    case strong: True
    from nodes [OF strong] have nd: "nodes_at (read_text ?pre ms' sep') ?mem (dn @ [(key, ty, val)])" for ms' sep'
      by (intro nodes_at_read) simp
    show ?thesis
    proof (cases "rest' = ?rest")
      case True
      with step nd ms sep key val a(2) show ?thesis
        by (intro exI [of _ ?pre] exI [of _ ms] exI [of _ sep] exI [of _ ?mem]) simp
    next
      case False
      with vr obtain d where "separator d" "?rest = d # rest'" by auto
      from body_consume [OF this(2,1) ms sep] obtain ms' sep' where "rest' = body_text ms' sep' after" "members_ok ms'"
        "separators sep'" "length ms' = length ms" "map member_value ms' = map member_value ms" by blast
      with step nd key val a(2) show ?thesis
        by (intro exI [of _ ?pre] exI [of _ ms'] exI [of _ sep'] exI [of _ ?mem]) simp
    qed
  next
    case False
    with vr have w: "str_at (?pre @ [NUL]) vx val" "rest' = ?rest" "hd ?rest \<in> {CHR ''}'', CHR '']''}" by auto
    with body_text_first [OF sep ms, of after] have "ms = []" "sep = []" by auto
    with step nodes [OF w(1)] w(2) key val a(2) show ?thesis
      by (intro exI [of _ ?pre] exI [of _ ms] exI [of _ sep] exI [of _ ?mem]) (simp add: read_text_def)
  qed
qed

lemma separator_skip:
  assumes "separator c"
  shows "objValue_loop (pre @ c # rest) pool (length pre) obj = objValue_loop (pre @ c # rest) pool (Suc (length pre)) obj"
proof -
  have rc: "rd (pre @ c # rest) (length pre) = Some c" by (simp add: rd_def nth_append)
  show ?thesis
  proof (cases "c \<in> set blank")
    case True
    then have "c \<noteq> NUL" "isOneOfThem c blank" by (auto simp: blank_def isOneOfThem_iff)
    with rc have "goBlank (pre @ c # rest) (length pre) = goBlank (pre @ c # rest) (Suc (length pre))"
      unfolding goBlank_def by (subst goWhile.simps) simp
    then have "objValue_step (pre @ c # rest) pool (length pre) obj = objValue_step (pre @ c # rest) pool (Suc (length pre)) obj"
      by (simp only: objValue_step_def)
    then show ?thesis by (subst (1 2) objValue_loop.simps) (simp only:)
  next
    case False
    with assms have c: "c = CHR '',''" by (simp add: separator_def)
    have "goBlank (pre @ c # rest) (length pre) = Some (Some (length pre))"
      using goBlank_skip [of "[]" c pre rest] by (simp add: c blank_def)
    with rc c show ?thesis by (subst objValue_loop.simps) (simp add: objValue_step_def)
  qed
qed

lemma separators_skip:
  "separators s \<Longrightarrow> objValue_loop (pre @ s @ rest) pool (length pre) obj
     = objValue_loop (pre @ s @ rest) pool (length (pre @ s)) obj"
proof (induction s arbitrary: pre)
  case (Cons c s)
  with separator_skip [of c pre "s @ rest" pool obj] Cons.IH [of "pre @ [c]"] show ?case by simp
qed simp

lemma members_loop:
  "members_ok ms \<Longrightarrow> separators sep \<Longrightarrow> nodes_at (read_text pre ms sep) mem dn \<Longrightarrow> length dn + length ms < length mem \<Longrightarrow>
     \<exists>m' pool' r. objValue_loop (pre @ body_text ms sep after) \<lparr>pmem = mem, nextFree = Suc (length dn)\<rparr> (length pre) 0
         = Some (m', pool', Some r)
       \<and> nodes_at m' (pmem pool') (dn @ map member_value ms)"
proof (induction "length ms" arbitrary: ms sep pre mem dn)
  case 0
  then have ms: "ms = []" by simp
  let ?pool = "\<lparr>pmem = mem, nextFree = Suc (length dn)\<rparr>" and ?m = "pre @ sep @ CHR ''}'' # after"
  from 0 ms have "nodes_at (pre @ sep @ NUL # after) mem dn"
    by (cases "sep = []") (auto simp: read_text_def dest: nodes_at_append [where x = after] nodes_at_append [where x = "sep @ NUL # after"])
  moreover from 0 have o: "rd mem 0 = Some (mem ! 0)" "jtype (mem ! 0) = JSON_OBJ" "jsibling (mem ! 0) = None"
    by (auto simp: nodes_at_def rd_def)
  have g: "goBlank ?m (length (pre @ sep)) = Some (Some (length (pre @ sep)))"
    using goBlank_skip [of "[]" "CHR ''}''" "pre @ sep" after] by (simp add: blank_def)
  have rw: "rd ?m (length (pre @ sep)) = Some CHR ''}''" "wr ?m (length (pre @ sep)) NUL = Some (pre @ sep @ NUL # after)"
    by (simp_all add: rd_def wr_def nth_append list_update_append)
  have "objValue_loop ?m ?pool (length (pre @ sep)) 0 = Some (pre @ sep @ NUL # after, ?pool, Some (length (pre @ sep) + 1))"
    using g rw o by (subst objValue_loop.simps) (simp add: objValue_step_def obj_close_def)
  ultimately show ?case using separators_skip [of sep pre "CHR ''}'' # after"] 0 ms by simp
next
  case (Suc n)
  then obtain s k b1 b2 v ms' where ms: "ms = (s, k, b1, b2, v) # ms'" by (metis length_Suc_conv prod_cases5)
  let ?pool = "\<lparr>pmem = mem, nextFree = Suc (length dn)\<rparr>" and ?bt = "body_text (([], k, b1, b2, v) # ms') sep after"
  have "nodes_at (pre @ s) mem dn" using Suc.prems(3) ms by (simp add: read_text_def nodes_at_append)
  from member_step [OF Suc.prems(1) [unfolded ms] Suc.prems(2) this, of after] Suc.prems(4) ms
  obtain pre' ms'' sep' mem' where st: "objValue_step ((pre @ s) @ ?bt) ?pool (length (pre @ s)) 0
      = Some (Go (pre' @ body_text ms'' sep' after) \<lparr>pmem = mem', nextFree = Suc (Suc (length dn))\<rparr> (length pre') 0)"
    and ok: "members_ok ms''" "separators sep'" "length ms'' = length ms'" "map member_value ms'' = map member_value ms'"
      "length mem' = length mem"
      "nodes_at (read_text pre' ms'' sep') mem' (dn @ [member_value (s, k, b1, b2, v)])" by auto
  have "objValue_loop (pre @ body_text ms sep after) ?pool (length pre) 0
      = objValue_loop ((pre @ s) @ ?bt) ?pool (length (pre @ s)) 0"
    using separators_skip [of s pre ?bt] Suc.prems(1) ms by simp
  also have "\<dots> = objValue_loop (pre' @ body_text ms'' sep' after) \<lparr>pmem = mem', nextFree = Suc (Suc (length dn))\<rparr> (length pre') 0"
    by (subst objValue_loop.simps) (simp only: st, simp)
  finally show ?case
    using Suc.hyps(1) [OF _ ok(1,2,6)] Suc.hyps(2) Suc.prems(4) ok(3-5) ms by simp
qed

section \<open>Looking up\<close>

text \<open>The result of a look-up agrees with the one in the list of members: a node of that type and
  text, or none.\<close>

fun agrees :: "string \<Rightarrow> json_t list \<Rightarrow> nat option \<Rightarrow> (jsonType_t \<times> string) option \<Rightarrow> bool" where
  "agrees m mem r None \<longleftrightarrow> r = None"
| "agrees m mem r (Some (ty, v)) \<longleftrightarrow>
     (case r of None \<Rightarrow> False | Some i \<Rightarrow> json_getType mem i = Some ty \<and> json_getValue m mem i = Some v)"

lemma getProperty_members:
  assumes "nodes_at m mem dn"
  shows "i \<le> length dn \<Longrightarrow> \<exists>r. getProperty_loop m mem key (if i < length dn then Some (Suc i) else None) = Some r
     \<and> agrees m mem r (map_of (drop i dn) key)"
proof (induction i rule: inc_induct)
  case base
  show ?case by (subst getProperty_loop.simps) simp
next
  case (step i)
  obtain k ty v where d: "dn ! i = (k, ty, v)" by (metis prod_cases3)
  from assms step.hyps d obtain n x where j: "jname (mem ! Suc i) = Some n" "str_at m n k" "ju (mem ! Suc i) = UValue x"
    "str_at m x v" "jtype (mem ! Suc i) = ty" "Suc i < length mem"
    "jsibling (mem ! Suc i) = (if Suc i < length dn then Some (Suc (Suc i)) else None)"
    by (fastforce simp: nodes_at_def node_at_def)
  have dr: "map_of (drop i dn) key = (if k = key then Some (ty, v) else map_of (drop (Suc i) dn) key)"
    using d step.hyps(2) by (simp add: Cons_nth_drop_Suc [symmetric])
  have nm: "name_matches m (mem ! Suc i) key = Some (k = key)" using j(1,2) by (simp add: name_matches_def str_at_cstr)
  show ?case
  proof (cases "k = key")
    case True
    with nm j step.hyps(2) dr show ?thesis
      by (subst getProperty_loop.simps) (simp add: rd_def json_getType_def json_getValue_def str_at_cstr)
  next
    case False
    with nm j step.hyps(2) dr step.IH show ?thesis
      by (subst getProperty_loop.simps) (simp add: rd_def)
  qed
qed

lemma json_getProperty_members:
  assumes "nodes_at m mem dn"
  shows "\<exists>r. json_getProperty m mem 0 key = Some r \<and> agrees m mem r (map_of dn key)"
proof -
  from assms have "json_getChild mem 0 = Some (if 0 < length dn then Some 1 else None)"
    by (auto simp: nodes_at_def json_getChild_def rd_def)
  with getProperty_members [OF assms, of 0 key] show ?thesis by (cases "dn = []") (simp_all add: json_getProperty_def)
qed

section \<open>A whole object\<close>

lemma json_create_members:
  assumes "blanks b" and "members_ok ms" and "separators sep" and "length ms < length pool"
  shows "\<exists>m mem. json_create (b @ CHR ''{'' # body_text ms sep (after @ [NUL])) pool = Some (m, mem, Some 0)
     \<and> nodes_at m mem (map member_value ms)"
proof -
  let ?m = "b @ CHR ''{'' # body_text ms sep (after @ [NUL])"
  let ?mem = "pool[0 := (pool ! 0)\<lparr>jname := None, jsibling := None, ju := UChildren None, jtype := JSON_OBJ\<rparr>]"
  have "nodes_at (read_text (b @ [CHR ''{'']) ms sep) ?mem []"
    using assms(4) by (cases pool) (simp_all add: nodes_at_def)
  from members_loop [OF assms(2,3) this, of "after @ [NUL]"] assms(4) obtain m pool' r where
    l: "objValue_loop ?m \<lparr>pmem = ?mem, nextFree = 1\<rparr> (length b + 1) 0 = Some (m, pool', Some r)"
    and n: "nodes_at m (pmem pool') (map member_value ms)" by auto
  have "goBlank ?m 0 = Some (Some (length b))"
    using goBlank_skip [OF assms(1), of "CHR ''{''" "[]"] by (simp add: blank_def)
  moreover have "rd ?m (length b) = Some CHR ''{''" by (simp add: rd_def nth_append)
  ultimately have "json_create ?m pool = Some (m, pmem pool', Some 0)"
    using l assms(4) by (cases pool; cases "hd pool") (simp_all add: json_create_def objValue_def poolInit_def upd_def Let_def)
  with n show ?thesis by blast
qed

text \<open>C5: The parser implements look-up in a flat JSON object: for any object written with string, integer and
  boolean members, escapes in the strings, and any blanks and commas between its members, parsing in place
  succeeds when the pool has one node more than there are members, and looking a name up afterwards
  gives a node with the type and the unescaped text of the first member of that name, and nothing
  when there is none.\<close>

theorem flat_object_parsed:
  assumes "blanks b" and "members_ok ms" and "separators sep" and "length ms < length pool"
  shows "\<exists>m mem. json_create (b @ CHR ''{'' # body_text ms sep (after @ [NUL])) pool = Some (m, mem, Some 0)
     \<and> (\<forall>key. \<exists>r. json_getProperty m mem 0 key = Some r \<and> agrees m mem r (map_of (map member_value ms) key))"
proof -
  from json_create_members [OF assms, of after] obtain m mem where
    "json_create (b @ CHR ''{'' # body_text ms sep (after @ [NUL])) pool = Some (m, mem, Some 0)"
    and n: "nodes_at m mem (map member_value ms)" by blast
  with json_getProperty_members [OF n] show ?thesis by blast
qed

theorem flat_object_parsed_witness:
  "\<exists>m mem. json_create ('' '' @ CHR ''{'' # body_text
       [('' '', ''a'', '' '', '' '', RText [CHR ''x'', CHR 0x5C, CHR ''n'']), ('','', ''n'', [], [], RInt ''-'' ''12''),
        ('', '', ''b'', [], [], RBool True)] '' '' ([] @ [NUL]))
       (replicate 4 \<lparr>jsibling = None, jname = None, ju = UValue 0, jtype = JSON_NULL\<rparr>) = Some (m, mem, Some 0)
     \<and> (\<exists>r. json_getProperty m mem 0 ''a'' = Some r \<and> agrees m mem r (Some (JSON_TEXT, [CHR ''x'', CHR 0x0A])))
     \<and> (\<exists>r. json_getProperty m mem 0 ''n'' = Some r \<and> agrees m mem r (Some (JSON_INTEGER, ''-12'')))
     \<and> (\<exists>r. json_getProperty m mem 0 ''c'' = Some r \<and> agrees m mem r None)"
proof -
  let ?ms = "[('' '', ''a'', '' '', '' '', RText [CHR ''x'', CHR 0x5C, CHR ''n'']), ('','', ''n'', [], [], RInt ''-'' ''12''),
        ('', '', ''b'', [], [], RBool True)]"
  have s: "unescape ''a'' = Some ''a''" "unescape ''n'' = Some ''n''" "unescape ''b'' = Some ''b''"
    "unescape [CHR ''x'', CHR 0x5C, CHR ''n''] = Some [CHR ''x'', CHR 0x0A]"
    by (simp_all add: chr_code_def getEscape_def escape_pairs_def)
  have n: "raw_value (RInt ''-'' ''12'') = Some (JSON_INTEGER, ''-12'')"
    by (simp add: int_text_def digits_def isdigit_def chr_code_def signed_val_def)
  have ok: "members_ok ?ms"
    using s n by (simp add: separator_def blank_def del: unescape.simps raw_value.simps) simp
  have vals: "map member_value ?ms = [(''a'', JSON_TEXT, [CHR ''x'', CHR 0x0A]), (''n'', JSON_INTEGER, ''-12''), (''b'', JSON_BOOLEAN, ''true'')]"
    using s n by (simp del: unescape.simps raw_value.simps) simp
  from flat_object_parsed [where b = "'' ''" and ms = ?ms and sep = "'' ''" and after = "[]" and
      pool = "replicate 4 \<lparr>jsibling = None, jname = None, ju = UValue 0, jtype = JSON_NULL\<rparr>", OF _ ok]
  obtain m mem where c: "json_create ('' '' @ CHR ''{'' # body_text ?ms '' '' ([] @ [NUL]))
       (replicate 4 \<lparr>jsibling = None, jname = None, ju = UValue 0, jtype = JSON_NULL\<rparr>) = Some (m, mem, Some 0)"
    and l: "\<And>key. \<exists>r. json_getProperty m mem 0 key = Some r \<and> agrees m mem r (map_of (map member_value ?ms) key)"
    by (auto simp: blank_def separator_def)
  note l = l [unfolded vals]
  from l [of "''a''"] l [of "''n''"] l [of "''c''"] show ?thesis
    by (intro exI [of _ m] exI [of _ mem] conjI c) simp_all
qed

end
