(* ===== verification/Bodies.thy ===== *)
theory Bodies
  imports Server JsonText
begin

text \<open>
  The parameters of a request.  When the body is a flat JSON object, the readers of server.c give
  what the list of its members says, with their own messages for a missing, mistyped or empty
  value, and a task request performs the named action on the given task.
\<close>

section \<open>What a parameter should be\<close>

type_synonym parameters = "string \<Rightarrow> (jsonType_t \<times> string) option"

definition field_value :: "parameters \<Rightarrow> jsonType_t \<Rightarrow> string \<Rightarrow> string + string" where
  "field_value lk ty name =
     (case lk name of
        None \<Rightarrow> Inl (''No '' @ quoted name @ '' parameter specified.'')
      | Some (ty', t) \<Rightarrow>
          if ty' = ty then Inr t else Inl (''Invalid type for parameter '' @ quoted name @ ''.''))"

definition id_value :: "parameters \<Rightarrow> string \<Rightarrow> nat \<Rightarrow> string + string" where
  "id_value lk name n =
     (case field_value lk JSON_TEXT name of
        Inl msg \<Rightarrow> Inl msg
      | Inr s \<Rightarrow> if s = [] then Inl (''Empty value for parameter '' @ quoted name @ ''.'') else Inr (trunc_cpy n s))"

text \<open>An integer is cut to 32 bits.\<close>

definition int_value :: "parameters \<Rightarrow> string \<Rightarrow> string + cint" where
  "int_value lk name = map_sum (\<lambda>m. m) (\<lambda>t. word_of_int (atoll t)) (field_value lk JSON_INTEGER name)"

definition task_id_value :: "parameters \<Rightarrow> string + cint" where
  "task_id_value lk =
     (case int_value lk ''task_id'' of
        Inl msg \<Rightarrow> Inl msg
      | Inr i \<Rightarrow> if sint i < 0 then Inl (''Invalid value for '' @ quoted ''task_id'' @ '' parameter specified.'') else Inr i)"

text \<open>A reader answers a wrong value, and passes a right one on.\<close>

definition reads_value ::
    "'w rpi_env \<Rightarrow> (string + 'a) \<Rightarrow> ('w, 'a option) reply_op \<Rightarrow> bool" where
  "reads_value R x f \<longleftrightarrow> (\<forall>st v. f st v =
     (case x of Inl msg \<Rightarrow> bad_request R msg None st v | Inr a \<Rightarrow> Some (Some a, st, v)))"

lemma reads_valueD: "reads_value R x f \<Longrightarrow> f st v =
    (case x of Inl msg \<Rightarrow> bad_request R msg None st v | Inr a \<Rightarrow> Some (Some a, st, v))"
  unfolding reads_value_def by blast

section \<open>The readers\<close>

text \<open>A parsed request stands for the parameters when every look-up in it agrees with them.\<close>

definition stands_for :: "request \<Rightarrow> parameters \<Rightarrow> bool" where
  "stands_for req lk \<longleftrightarrow> (\<forall>name. \<exists>r. json_getProperty (rq_text req) (rq_pool req) 0 name = Some r
     \<and> agrees (rq_text req) (rq_pool req) r (lk name))"

definition flat_body :: "string \<Rightarrow> member list \<Rightarrow> string \<Rightarrow> string \<Rightarrow> string" where
  "flat_body b ms sep after = b @ CHR ''{'' # body_text ms sep (after @ [NUL])"

definition flat_ok :: "string \<Rightarrow> member list \<Rightarrow> string \<Rightarrow> bool" where
  "flat_ok b ms sep \<longleftrightarrow> blanks b \<and> members_ok ms \<and> separators sep \<and> length ms < JSON_POOL_SIZE"

lemma request_parse_flat:
  assumes "flat_ok b ms sep"
  shows "\<exists>req. stands_for req (map_of (map member_value ms))
     \<and> request_parse R (Some (flat_body b ms sep after)) st v = Some (Some req, st, v)"
proof -
  from assms have ok: "blanks b" "members_ok ms" "separators sep" "length ms < length (replicate JSON_POOL_SIZE zero_node)"
    by (simp_all add: flat_ok_def)
  from json_create_members [OF ok, of after] obtain m mem where
    c: "json_create (flat_body b ms sep after) (replicate JSON_POOL_SIZE zero_node) = Some (m, mem, Some 0)"
    and n: "nodes_at m mem (map member_value ms)" unfolding flat_body_def by blast
  have "stands_for \<lparr>rq_text = m, rq_pool = mem\<rparr> (map_of (map member_value ms))"
    using json_getProperty_members [OF n] by (simp add: stands_for_def)
  moreover have "\<exists>x. rd (flat_body b ms sep after) 0 = Some x \<and> x \<noteq> NUL"
    using ok(1) by (cases b) (auto simp: flat_body_def rd_def blank_def)
  ultimately show ?thesis using c by (intro exI [of _ "\<lparr>rq_text = m, rq_pool = mem\<rparr>"]) (auto simp: request_parse_def)
qed

lemma stands_forE:
  assumes "stands_for req lk"
  obtains "lk name = None" "json_getProperty (rq_text req) (rq_pool req) 0 name = Some None"
  | ty t i where "lk name = Some (ty, t)" "json_getProperty (rq_text req) (rq_pool req) 0 name = Some (Some i)"
      "json_getType (rq_pool req) i = Some ty" "json_getValue (rq_text req) (rq_pool req) i = Some t"
proof -
  from assms obtain r where r: "json_getProperty (rq_text req) (rq_pool req) 0 name = Some r"
    "agrees (rq_text req) (rq_pool req) r (lk name)" unfolding stands_for_def by blast
  show ?thesis
  proof (cases "lk name")
    case None
    with r that(1) show ?thesis by simp
  next
    case (Some a)
    with r that(2) show ?thesis by (cases a) (auto split: option.splits)
  qed
qed

text \<open>A field of the right type, and what follows it.\<close>

lemma request_field_value:
  assumes "stands_for req lk"
  shows "(\<exists>i. request_field R req name ty st v = Some (Some i, st, v)
         \<and> (\<exists>t. field_value lk ty name = Inr t \<and> json_getValue (rq_text req) (rq_pool req) i = Some t))
     \<or> (\<exists>msg. field_value lk ty name = Inl msg \<and> request_field R req name ty st v = bad_request R msg None st v)"
  using assms by (rule stands_forE [where name = name]) (auto simp: request_field_def field_value_def)

lemma bad_request_None:
  "(bad_request R msg None st v \<bind> (\<lambda>(x, st, v). case x of None \<Rightarrow> Some (a, st, v) | Some y \<Rightarrow> g y st v)) = bad_request R msg a st v"
  by (auto simp: bad_request_def case_prod_unfold Option.bind_eq_Some_conv split: option.splits intro!: option.expand)

lemma request_str_value:
  assumes "stands_for req lk"
  shows "reads_value R (field_value lk JSON_TEXT name) (request_str R req name)"
  unfolding reads_value_def
proof (intro allI)
  fix st v
  from request_field_value [OF assms, of R name JSON_TEXT st v]
  show "request_str R req name st v = (case field_value lk JSON_TEXT name of
      Inl msg \<Rightarrow> bad_request R msg None st v | Inr a \<Rightarrow> Some (Some a, st, v))"
    by (auto simp: request_str_def bad_request_None)
qed

lemma request_int_value:
  assumes "stands_for req lk"
  shows "reads_value R (int_value lk name) (request_int R req name)"
  unfolding reads_value_def
proof (intro allI)
  fix st v
  from request_field_value [OF assms, of R name JSON_INTEGER st v]
  show "request_int R req name st v = (case int_value lk name of
      Inl msg \<Rightarrow> bad_request R msg None st v | Inr a \<Rightarrow> Some (Some a, st, v))"
    by (auto simp: request_int_def int_value_def bad_request_None)
qed

lemma request_id_value:
  assumes "stands_for req lk"
  shows "reads_value R (id_value lk name n) (request_id R req name n)"
  unfolding reads_value_def
proof (intro allI)
  fix st v
  show "request_id R req name n st v = (case id_value lk name n of
      Inl msg \<Rightarrow> bad_request R msg None st v | Inr a \<Rightarrow> Some (Some a, st, v))"
    using reads_valueD [OF request_str_value [OF assms], of R name st v]
    by (cases "field_value lk JSON_TEXT name") (simp_all add: request_id_def id_value_def bad_request_None)
qed

lemma request_task_id_value:
  assumes "stands_for req lk"
  shows "reads_value R (task_id_value lk) (request_task_id R req)"
  unfolding reads_value_def
proof (intro allI)
  fix st v
  show "request_task_id R req st v = (case task_id_value lk of
      Inl msg \<Rightarrow> bad_request R msg None st v | Inr a \<Rightarrow> Some (Some a, st, v))"
    using reads_valueD [OF request_int_value [OF assms], of R "''task_id''" st v]
    by (cases "int_value lk ''task_id''") (simp_all add: request_task_id_def task_id_value_def bad_request_None)
qed

section \<open>Task requests\<close>

text \<open>What a task request should do with its parameters.\<close>

definition task_reply :: "'w rpi_env \<Rightarrow> task_action \<Rightarrow> parameters \<Rightarrow> ('w, bool) reply_op" where
  "task_reply R action lk st v =
     (case task_id_value lk of
        Inl msg \<Rightarrow> bad_request R msg False st v
      | Inr i \<Rightarrow> (case world_call (task_call (rv_installer R) action i) v of (r, v) \<Rightarrow> answer_outcome R r st v))"

definition uninstall_reply :: "'w rpi_env \<Rightarrow> uninstall_action \<Rightarrow> string \<Rightarrow> nat \<Rightarrow> parameters \<Rightarrow> ('w, bool) reply_op" where
  "uninstall_reply R action field n lk st v =
     (case id_value lk field n of
        Inl msg \<Rightarrow> bad_request R msg False st v
      | Inr s \<Rightarrow> (case world_call (uninstall_call (rv_installer R) action (Some s)) v of (r, v) \<Rightarrow> answer_outcome R r st v))"

text \<open>The text a request comes with: the body of a POST, the variable \<open>data\<close> of a GET.\<close>

definition asks :: "string \<Rightarrow> sb_Stream \<Rightarrow> string \<Rightarrow> bool" where
  "asks meth st body \<longleftrightarrow>
     strcasecmp_eq meth ''POST'' \<and> post_data st = Some body
     \<or> strcasecmp_eq meth ''GET'' \<and> query_data st = Some (Inr (Some body))"

definition dispatched :: "'w rpi_env \<Rightarrow> string \<Rightarrow> 'w api \<Rightarrow> bool" where
  "dispatched R path h \<longleftrightarrow> (\<forall>m \<in> {METHOD_GET, METHOD_POST}. \<exists>d. find_handler (s_handlers R) m path = Some d \<and> hd_handler d = h)"

definition then_ok :: "('w, bool) reply_op \<Rightarrow> ('w, cint) reply_op" where
  "then_ok f st v = do { (_, st, v) \<leftarrow> f st v; Some (SB_RES_OK, st, v) }"

lemma dispatch_asks:
  assumes "asks meth st body" and "dispatched R path h"
  shows "event_handler R (EV_REQUEST meth path) st v = then_ok (h meth path (Some body)) st v"
proof -
  obtain k where k: "k = map tolower meth" by blast
  have "map tolower ''POST'' = ''post''" "map tolower ''GET'' = ''get''" "map tolower ''OPTIONS'' = ''options''"
    by code_simp+
  then have low: "strcasecmp_eq meth ''POST'' \<longleftrightarrow> k = ''post''" "strcasecmp_eq meth ''GET'' \<longleftrightarrow> k = ''get''"
    "strcasecmp_eq meth ''OPTIONS'' \<longleftrightarrow> k = ''options''" unfolding strcasecmp_eq_def k by simp_all
  have no: "METHOD_GET \<noteq> METHOD_POST" by (simp add: METHOD_GET_def METHOD_POST_def)
  have d: "\<exists>d. find_handler (s_handlers R) METHOD_GET path = Some d \<and> hd_handler d = h"
    "\<exists>d. find_handler (s_handlers R) METHOD_POST path = Some d \<and> hd_handler d = h"
    using assms(2) by (simp_all add: dispatched_def)
  from assms(1) show ?thesis
  proof (cases "k = ''post''")
    case True
    with assms(1) have "wanted_method meth = Some METHOD_POST" "post_data st = Some body" "\<not> strcasecmp_eq meth ''OPTIONS''"
      by (auto simp: asks_def wanted_method_def low)
    with d(2) show ?thesis by (auto simp: handle_event_request_def then_ok_def)
  next
    case False
    with assms(1) have "wanted_method meth = Some METHOD_GET" "query_data st = Some (Inr (Some body))"
      "\<not> strcasecmp_eq meth ''OPTIONS''" by (auto simp: asks_def wanted_method_def low)
    with d(1) no show ?thesis by (auto simp: handle_event_request_def then_ok_def)
  qed
qed

lemma not_static: "strstr ''/api/start_task'' ''/static/'' \<noteq> Some 0" "strstr ''/api/stop_task'' ''/static/'' \<noteq> Some 0"
  "strstr ''/api/pause_task'' ''/static/'' \<noteq> Some 0" "strstr ''/api/resume_task'' ''/static/'' \<noteq> Some 0"
  "strstr ''/api/unregister_task'' ''/static/'' \<noteq> Some 0" "strstr ''/api/uninstall_game'' ''/static/'' \<noteq> Some 0"
  "strstr ''/api/uninstall_ac'' ''/static/'' \<noteq> Some 0" "strstr ''/api/uninstall_patch'' ''/static/'' \<noteq> Some 0"
  "strstr ''/api/uninstall_theme'' ''/static/'' \<noteq> Some 0"
  by code_simp+

lemma task_dispatched: "map_of task_actions path = Some action \<Longrightarrow> dispatched R path (handle_api_task_action R)"
  by (auto simp: task_actions_def dispatched_def s_handlers_def endpoint_def METHOD_GET_def METHOD_POST_def not_static
      split: if_splits)

lemma uninstall_dispatched: "map_of uninstall_actions path = Some a \<Longrightarrow> dispatched R path (handle_api_uninstall R)"
  by (auto simp: uninstall_actions_def dispatched_def s_handlers_def endpoint_def METHOD_GET_def METHOD_POST_def not_static
      split: if_splits)

lemma uninstall_id_bind:
  "(bad_request R msg None st v \<bind> (\<lambda>(ident, st, v). if ident = None then Some (a, st, v) else g ident st v))
     = bad_request R msg a st v"
  by (auto simp: bad_request_def case_prod_unfold intro!: option.expand)

section \<open>Two requests\<close>

definition posting :: "string \<Rightarrow> sb_Stream" where
  "posting body =
     (let hd = ''POST / HTTP/1.1'' @ CRLF @ ''Content-Length: 9'' @ CRLF @ CRLF
      in ready_stream\<lparr>st_recv_buf := \<lparr>sb_s = hd @ body, sb_len = length hd + length body - 1\<rparr>,
           st_data_idx := length hd, st_expected_recv_len := length hd + length body\<rparr>)"

lemma posting_asks: "body \<noteq> [] \<Longrightarrow> asks ''POST'' (posting body) body"
proof -
  assume "body \<noteq> []"
  then have "post_data (posting body) = Some body" by (simp add: post_data_def posting_def Let_def CRLF_def)
  moreover have "strcasecmp_eq ''POST'' ''POST''" by (simp add: strcasecmp_eq_def)
  ultimately show ?thesis by (simp add: asks_def)
qed

lemma member_names: "unescape ''task_id'' = Some ''task_id''" "unescape ''title_id'' = Some ''title_id''"
  "unescape ''CUSA00001'' = Some ''CUSA00001''"
  by (rule unescape_plain, simp add: chr_code_def)+

lemma task_seven: "raw_value (RInt [] ''7'') = Some (JSON_INTEGER, ''7'')" "atoll ''7'' = 7"
  by (simp_all add: int_text_def digits_def isdigit_def chr_code_def signed_val_def atoll_def)

section \<open>Properties\<close>

text \<open>C6: A task request performs its action: whatever flat JSON object a POST or GET request to
  \<open>/api/start_task\<close> or one of its siblings carries, the server asks the service for exactly the named
  action on the task whose number the first \<open>task_id\<close> member gives and answers its outcome; when that
  member is missing, not an integer, or negative as a 32-bit number it answers 400 with the matching
  message and asks for nothing.\<close>

theorem task_request_performed:
  assumes "flat_ok b ms sep" and "map_of task_actions path = Some action" and "asks meth st (flat_body b ms sep after)"
  shows "event_handler R (EV_REQUEST meth path) st v = then_ok (task_reply R action (map_of (map member_value ms))) st v"
proof -
  let ?lk = "map_of (map member_value ms)"
  from request_parse_flat [OF assms(1)] obtain req where req: "stands_for req ?lk"
    "request_parse R (Some (flat_body b ms sep after)) st v = Some (Some req, st, v)" by blast
  from reads_valueD [OF request_task_id_value [OF req(1)], of R st v] req(2) assms(2)
  have "handle_api_task_action R meth path (Some (flat_body b ms sep after)) st v = task_reply R action ?lk st v"
    by (cases "task_id_value ?lk") (simp_all add: handle_api_task_action_def task_reply_def bad_request_None Let_def)
  with dispatch_asks [OF assms(3) task_dispatched [OF assms(2)], of R v] show ?thesis by (simp add: then_ok_def)
qed

theorem task_request_performed_witness:
  "event_handler desk (EV_REQUEST ''POST'' ''/api/start_task'')
      (posting (flat_body [] [([], ''task_id'', [], [], RInt [] ''7'')] [] [])) (desk_state, [])
   = then_ok (\<lambda>st v. case world_call (task_call (console 0) TaskStart 7) v of (r, v) \<Rightarrow> answer_outcome desk r st v)
      (posting (flat_body [] [([], ''task_id'', [], [], RInt [] ''7'')] [] [])) (desk_state, [])"
proof -
  let ?ms = "[([], ''task_id'', [], [], RInt [] ''7'')]"
  have ok: "flat_ok [] ?ms []"
    using member_names(1) task_seven(1) by (simp add: flat_ok_def JSON_POOL_SIZE_def del: unescape.simps raw_value.simps)
  have "map member_value ?ms = [(''task_id'', JSON_INTEGER, ''7'')]"
    using member_names(1) task_seven(1) by (simp del: unescape.simps raw_value.simps)
  moreover have "task_id_value (map_of [(''task_id'', JSON_INTEGER, ''7'')]) = Inr 7"
    by (simp add: task_id_value_def int_value_def field_value_def task_seven(2))
  moreover have "flat_body [] ?ms [] [] \<noteq> []" by (simp add: flat_body_def)
  moreover have "map_of task_actions ''/api/start_task'' = Some TaskStart" by (simp add: task_actions_def)
  ultimately show ?thesis
    using task_request_performed [OF ok _ posting_asks, of "''/api/start_task''" TaskStart "[]" desk "(desk_state, [])"]
    by (simp add: then_ok_def task_reply_def desk_def)
qed

text \<open>C15: An uninstall request removes what it names: whatever flat JSON object it carries, each of
  the four uninstall endpoints asks the service to remove exactly the title or content whose identifier
  its member gives, cut to the length of an identifier, and answers the outcome; a missing, mistyped or
  empty identifier is answered with 400 and nothing is removed.\<close>

theorem uninstall_request_performed:
  assumes "flat_ok b ms sep" and "map_of uninstall_actions path = Some (action, field, n)"
    and "asks meth st (flat_body b ms sep after)"
  shows "event_handler R (EV_REQUEST meth path) st v
     = then_ok (uninstall_reply R action field n (map_of (map member_value ms))) st v"
proof -
  let ?lk = "map_of (map member_value ms)"
  from request_parse_flat [OF assms(1)] obtain req where req: "stands_for req ?lk"
    "request_parse R (Some (flat_body b ms sep after)) st v = Some (Some req, st, v)" by blast
  from reads_valueD [OF request_id_value [OF req(1)], of R field n st v] req(2) assms(2)
  have "handle_api_uninstall R meth path (Some (flat_body b ms sep after)) st v = uninstall_reply R action field n ?lk st v"
    by (cases "id_value ?lk field n") (simp_all add: handle_api_uninstall_def uninstall_reply_def uninstall_id_bind Let_def)
  with dispatch_asks [OF assms(3) uninstall_dispatched [OF assms(2)], of R v] show ?thesis by (simp add: then_ok_def)
qed

theorem uninstall_request_performed_witness:
  "event_handler desk (EV_REQUEST ''POST'' ''/api/uninstall_game'')
      (posting (flat_body [] [([], ''title_id'', [], [], RText ''CUSA00001'')] [] [])) (desk_state, [])
   = then_ok (\<lambda>st v. case world_call (app_inst_util_uninstall_game (console 0) (Some ''CUSA00001'')) v of
        (r, v) \<Rightarrow> answer_outcome desk r st v)
      (posting (flat_body [] [([], ''title_id'', [], [], RText ''CUSA00001'')] [] [])) (desk_state, [])"
proof -
  let ?ms = "[([], ''title_id'', [], [], RText ''CUSA00001'')]"
  have ok: "flat_ok [] ?ms []"
    using member_names(2,3) by (simp add: flat_ok_def JSON_POOL_SIZE_def del: unescape.simps)
  have "map member_value ?ms = [(''title_id'', JSON_TEXT, ''CUSA00001'')]"
    using member_names(2,3) by (simp del: unescape.simps)
  moreover have "id_value (map_of [(''title_id'', JSON_TEXT, ''CUSA00001'')]) ''title_id'' (PKG_TITLE_ID_SIZE + 1) = Inr ''CUSA00001''"
    by (simp add: id_value_def field_value_def PKG_TITLE_ID_SIZE_def trunc_cpy_def)
  moreover have "flat_body [] ?ms [] [] \<noteq> []" by (simp add: flat_body_def)
  moreover have "map_of uninstall_actions ''/api/uninstall_game'' = Some (UninstallGame, ''title_id'', PKG_TITLE_ID_SIZE + 1)"
    by (simp add: uninstall_actions_def)
  ultimately show ?thesis
    using uninstall_request_performed [OF ok _ posting_asks, of "''/api/uninstall_game''" UninstallGame "''title_id''"
        "PKG_TITLE_ID_SIZE + 1" "[]" desk "(desk_state, [])"]
    by (simp add: then_ok_def uninstall_reply_def desk_def)
qed

end
