(* ===== verification/Settings.thy ===== *)
theory Settings
  imports Http JsonText
begin

text \<open>
  The settings of http.c on disk.  What \<open>http_save_config\<close> writes, \<open>http_load_config\<close> reads back:
  the file layer is described by what its calls do to the stored bytes, and the text between the
  two is the JSON object of JsonText.
\<close>

section \<open>The file layer\<close>

text \<open>\<open>stored\<close> observes the bytes of a file, \<open>pos\<close> the file and the offset of an open descriptor.
  Opening for writing truncates, a write appends the bytes it reports, a read before the end
  returns some of the next bytes, and the size is the number of bytes.\<close>

type_synonym 'w stored = "string \<Rightarrow> 'w \<Rightarrow> string option"
type_synonym 'w pos = "cint \<Rightarrow> 'w \<Rightarrow> (string \<times> nat) option"

definition opens_at :: "'w posix \<Rightarrow> u32 \<Rightarrow> 'w stored \<Rightarrow> 'w pos \<Rightarrow> bool" where
  "opens_at P trunc stored pos \<longleftrightarrow>
     (\<forall>p m w. let r = px_open P p m (if m = None then 0 else trunc) w in 0 \<le> sint (fst r) \<longrightarrow>
        pos (fst r) (snd r) = Some (p, 0) \<and> stored p (snd r) = (if m = None then stored p w else Some []))"

definition writes_append :: "'w posix \<Rightarrow> 'w stored \<Rightarrow> 'w pos \<Rightarrow> bool" where
  "writes_append P stored pos \<longleftrightarrow>
     (\<forall>fd d w p s. pos fd w = Some (p, length s) \<longrightarrow> stored p w = Some s \<longrightarrow>
        (let r = px_write P fd d w in stored p (snd r) = Some (s @ take (nat (fst r)) d)
           \<and> pos fd (snd r) = Some (p, length s + nat (fst r))))"

definition reads_next :: "'w posix \<Rightarrow> 'w stored \<Rightarrow> 'w pos \<Rightarrow> bool" where
  "reads_next P stored pos \<longleftrightarrow>
     (\<forall>fd k w p i s. pos fd w = Some (p, i) \<longrightarrow> stored p w = Some s \<longrightarrow> i < length s \<longrightarrow> 0 < k \<longrightarrow>
        (let r = px_read P fd k w; n = nat (fst (fst r)) in 0 < n \<and> n \<le> k \<and> n \<le> length s - i
           \<and> snd (fst r) = take n (drop i s) \<and> pos fd (snd r) = Some (p, i + n) \<and> stored p (snd r) = Some s))"

definition keeps_files :: "'w posix \<Rightarrow> 'w stored \<Rightarrow> 'w pos \<Rightarrow> bool" where
  "keeps_files P stored pos \<longleftrightarrow>
     (\<forall>fd w p i s. pos fd w = Some (p, i) \<longrightarrow> stored p w = Some s \<longrightarrow>
        fst (px_fstat P fd w) \<in> {None, Some (length s)} \<and> pos fd (snd (px_fstat P fd w)) = Some (p, i)
        \<and> stored p (snd (px_fstat P fd w)) = Some s) \<and>
     (\<forall>k w fd p. pos fd (snd (px_malloc P k w)) = pos fd w \<and> stored p (snd (px_malloc P k w)) = stored p w) \<and>
     (\<forall>fd w p. stored p (px_close P fd w) = stored p w)"

definition stores_files :: "'w posix \<Rightarrow> u32 \<Rightarrow> 'w stored \<Rightarrow> 'w pos \<Rightarrow> bool" where
  "stores_files P trunc stored pos \<longleftrightarrow>
     opens_at P trunc stored pos \<and> writes_append P stored pos \<and> reads_next P stored pos \<and> keeps_files P stored pos"

lemma opens_atD:
  assumes "opens_at P trunc stored pos" and "px_open P p m fl w = (fd, w')" and "0 \<le> sint fd"
    and "fl = (if m = None then 0 else trunc)"
  shows "pos fd w' = Some (p, 0) \<and> stored p w' = (if m = None then stored p w else Some [])"
proof -
  from assms(1) have "0 \<le> sint (fst (px_open P p m fl w)) \<longrightarrow>
      pos (fst (px_open P p m fl w)) (snd (px_open P p m fl w)) = Some (p, 0)
      \<and> stored p (snd (px_open P p m fl w)) = (if m = None then stored p w else Some [])"
    unfolding opens_at_def Let_def assms(4) by blast
  with assms(2,3) show ?thesis by simp
qed

lemma writes_appendD:
  assumes "writes_append P stored pos" and "pos fd w = Some (p, length s)" and "stored p w = Some s"
    and "px_write P fd d w = (n, w')"
  shows "stored p w' = Some (s @ take (nat n) d) \<and> pos fd w' = Some (p, length s + nat n)"
proof -
  from assms(1-3) have "stored p (snd (px_write P fd d w)) = Some (s @ take (nat (fst (px_write P fd d w))) d)
      \<and> pos fd (snd (px_write P fd d w)) = Some (p, length s + nat (fst (px_write P fd d w)))"
    unfolding writes_append_def Let_def by blast
  with assms(4) show ?thesis by simp
qed

lemma reads_nextD:
  assumes "reads_next P stored pos" and "pos fd w = Some (p, i)" and "stored p w = Some s" and "i < length s" and "0 < k"
    and "px_read P fd k w = ((n, bs), w')"
  shows "0 < n" and "nat n \<le> k" and "nat n \<le> length s - i" and "bs = take (nat n) (drop i s)"
    and "pos fd w' = Some (p, i + nat n)" and "stored p w' = Some s"
proof -
  let ?r = "px_read P fd k w"
  have "0 < nat (fst (fst ?r)) \<and> nat (fst (fst ?r)) \<le> k \<and> nat (fst (fst ?r)) \<le> length s - i
      \<and> snd (fst ?r) = take (nat (fst (fst ?r))) (drop i s) \<and> pos fd (snd ?r) = Some (p, i + nat (fst (fst ?r)))
      \<and> stored p (snd ?r) = Some s"
    using assms(1-5) unfolding reads_next_def Let_def by blast
  with assms(6) show "0 < n" "nat n \<le> k" "nat n \<le> length s - i" "bs = take (nat n) (drop i s)"
    "pos fd w' = Some (p, i + nat n)" "stored p w' = Some s" by simp_all
qed

lemma write_loop_stored:
  assumes f: "writes_append P stored pos" and ok: "posix_ok P"
  shows "pos fd w = Some (p, length s) \<Longrightarrow> stored p w = Some s \<Longrightarrow> write_loop P fd buf t w = Some (tot, w') \<Longrightarrow>
    \<exists>k. tot = t + k \<and> k \<le> length buf \<and> stored p w' = Some (s @ take k buf)"
proof (induction "length buf" arbitrary: buf t w s rule: less_induct)
  case less
  obtain n w1 where r: "px_write P fd buf w = (n, w1)" by (metis prod.collapse)
  note st = writes_appendD [OF f less.prems(1,2) r]
  note n = posix_ok_write [OF ok r]
  show ?case
  proof (cases "buf = [] \<or> n \<le> 0")
    case True
    then have "write_loop P fd buf t w = Some (t, if buf = [] then w else w1)" using r by (subst write_loop.simps) auto
    with less.prems st True show ?thesis by (intro exI [of _ 0]) auto
  next
    case False
    let ?s = "s @ take (nat n) buf"
    from False less.prems(3) r n have l: "write_loop P fd (drop (nat n) buf) (t + nat n) w1 = Some (tot, w')"
      by (subst (asm) write_loop.simps) (auto split: if_splits)
    from False n st have "pos fd w1 = Some (p, length ?s)" "stored p w1 = Some ?s" by (auto simp: min_def)
    from less.hyps [OF _ this l] False n obtain k where
      "tot = t + nat n + k" "k \<le> length (drop (nat n) buf)" "stored p w' = Some (?s @ take k (drop (nat n) buf))" by auto
    with n show ?thesis by (intro exI [of _ "nat n + k"]) (auto simp: take_add)
  qed
qed

lemma read_loop_stored:
  assumes f: "reads_next P stored pos"
  shows "pos fd w = Some (p, i) \<Longrightarrow> stored p w = Some s \<Longrightarrow> left = length s - i \<Longrightarrow>
    \<exists>w'. read_loop P fd left acc w = Some (acc @ drop i s, w')"
proof (induction left arbitrary: i acc w rule: less_induct)
  case (less left)
  obtain n bs w1 where r: "px_read P fd left w = ((n, bs), w1)" by (metis prod.collapse)
  show ?case
  proof (cases "left = 0")
    case True
    with less.prems show ?thesis by (subst read_loop.simps) simp
  next
    case False
    with less.prems(3) have "i < length s" "0 < left" by auto
    note n = reads_nextD [OF f less.prems(1,2) this r]
    from n less.prems(3) False have "left - nat n < left" "left - nat n = length s - (i + nat n)" by auto
    from less.IH [OF this(1) n(5,6) this(2), of "acc @ bs"] obtain w' where
      "read_loop P fd (left - nat n) (acc @ bs) w1 = Some ((acc @ bs) @ drop (i + nat n) s, w')" by blast
    moreover have "bs @ drop (i + nat n) s = drop i s" unfolding n(4) by (metis append_take_drop_id drop_drop add.commute)
    ultimately show ?thesis using False n less.prems r by (subst read_loop.simps) (auto simp: min_def)
  qed
qed

text \<open>A write that reports success has stored the text, and reading it gives it back if the file can
  be opened and a buffer is there.\<close>

lemma write_file_stored:
  assumes f: "stores_files P trunc stored pos" and ok: "posix_ok P"
    and w: "write_file_trunc P trunc p data mode w = Some ((True, n), w')"
  shows "stored p w' = Some data"
proof -
  from f have l: "opens_at P trunc stored pos" "writes_append P stored pos" "\<And>fd w. stored p (px_close P fd w) = stored p w"
    by (simp_all add: stores_files_def keeps_files_def)
  obtain fd w1 where o: "px_open P p (Some mode) trunc w = (fd, w1)" by (metis prod.collapse)
  from w o obtain tot w2 where fd: "0 \<le> sint fd" and wl: "write_loop P fd data 0 w1 = Some (tot, w2)"
    and r: "tot = length data" "w' = px_close P fd w2"
    by (auto simp: write_file_trunc_def write_file_def split: if_splits option.splits)
  from opens_atD [OF l(1) o fd] have "pos fd w1 = Some (p, length [])" "stored p w1 = Some []" by simp_all
  from write_loop_stored [OF l(2) ok this wl] r l(3) show ?thesis by auto
qed

definition text_opens :: "'w posix \<Rightarrow> string \<Rightarrow> 'w \<Rightarrow> bool" where
  "text_opens P path w =
     (case px_open P path None 0 w of (fd, w) \<Rightarrow>
        0 \<le> sint fd \<and> (case px_fstat P fd w of (None, w) \<Rightarrow> False
          | (Some n, w) \<Rightarrow> fst (px_malloc P (n + 1) w)))"

lemma read_text_file_stored:
  assumes f: "stores_files P trunc stored pos" and s: "stored p w = Some s" "length s \<le> mx"
  shows "\<exists>w'. read_text_file P p mx w = Some (if text_opens P p w then Some s else None, w')"
proof -
  from f have l: "opens_at P trunc stored pos" "reads_next P stored pos" "keeps_files P stored pos"
    by (simp_all add: stores_files_def)
  obtain fd w1 where o: "px_open P p None 0 w = (fd, w1)" by (metis prod.collapse)
  obtain sz w2 where st: "px_fstat P fd w1 = (sz, w2)" by (metis prod.collapse)
  show ?thesis
  proof (cases "0 \<le> sint fd")
    case True
    from opens_atD [OF l(1) o True] s have p1: "pos fd w1 = Some (p, 0)" "stored p w1 = Some s" by simp_all
    with l(3) have "fst (px_fstat P fd w1) \<in> {None, Some (length s)} \<and> pos fd (snd (px_fstat P fd w1)) = Some (p, 0)
        \<and> stored p (snd (px_fstat P fd w1)) = Some s" unfolding keeps_files_def by blast
    with st have p2: "sz = None \<or> sz = Some (length s)" "pos fd w2 = Some (p, 0)" "stored p w2 = Some s" by auto
    obtain b w3 where m: "px_malloc P (length s + 1) w2 = (b, w3)" by (metis prod.collapse)
    from l(3) have "\<And>k w. pos fd (snd (px_malloc P k w)) = pos fd w \<and> stored p (snd (px_malloc P k w)) = stored p w"
      unfolding keeps_files_def by blast
    from this [of "length s + 1" w2] m p2 have "pos fd w3 = Some (p, 0)" "stored p w3 = Some s" by simp_all
    from read_loop_stored [OF l(2) this, of "length s" "[]"] obtain w4 where
      "read_loop P fd (length s) [] w3 = Some (s, w4)" by auto
    with o st True p2(1) s(2) m show ?thesis
      by (cases b) (auto simp: read_text_file_def text_opens_def)
  next
    case False
    with o show ?thesis by (simp add: read_text_file_def text_opens_def)
  qed
qed

section \<open>The settings\<close>

text \<open>\<open>sceNpUtilJsonEscape\<close> gives a text whose JSON reading is its argument.\<close>

definition json_escapes :: "'w http_lib \<Rightarrow> bool" where
  "json_escapes L \<longleftrightarrow> (\<forall>n s w out w'. sceNpUtilJsonEscape L n s w = ((0, out), w') \<longrightarrow> unescape out = Some s)"

definition config_members :: "cint \<Rightarrow> string \<Rightarrow> member list" where
  "config_members mode esc =
     [('' '', ''ssl_verify'', [], '' '', RBool (mode = HTTP_SSL_VERIFY_ON)), ('', '', ''ca_bundle'', [], '' '', RText esc)]"

lemma config_text_members:
  "config_text mode esc @ [NUL] = [] @ CHR ''{'' # body_text (config_members mode esc) '' '' ([CHR 0x0A] @ [NUL])"
  by (simp add: config_text_def config_members_def)

lemma config_names: "unescape ''ssl_verify'' = Some ''ssl_verify''" "unescape ''ca_bundle'' = Some ''ca_bundle''"
  by (rule unescape_plain, simp add: chr_code_def)+

lemma config_apply_members:
  assumes "nodes_at m mem [(''ssl_verify'', JSON_BOOLEAN, if v then ''true'' else ''false''), (''ca_bundle'', JSON_TEXT, path)]"
  shows "config_apply m mem H = Some (H\<lparr>s_ssl_verify_mode := (if v then HTTP_SSL_VERIFY_ON else HTTP_SSL_VERIFY_OFF),
     s_ca_bundle_path := trunc_cpy 256 path\<rparr>)"
proof -
  note g = json_getProperty_members [OF assms]
  from g [of "''ssl_verify''"] obtain i where "json_getProperty m mem 0 ''ssl_verify'' = Some (Some i)"
    "json_getType mem i = Some JSON_BOOLEAN" "json_getValue m mem i = Some (if v then ''true'' else ''false'')"
    by (auto split: option.splits)
  moreover from g [of "''ca_bundle''"] obtain j where "json_getProperty m mem 0 ''ca_bundle'' = Some (Some j)"
    "json_getType mem j = Some JSON_TEXT" "json_getValue m mem j = Some path"
    by (auto split: option.splits)
  ultimately show ?thesis by (simp add: config_apply_def)
qed

lemma config_text_read:
  assumes "unescape esc = Some path" and "2 < length pool" and mode: "mode \<in> {HTTP_SSL_VERIFY_ON, HTTP_SSL_VERIFY_OFF}"
    and "length path < 256"
  shows "\<exists>m mem. json_create (config_text mode esc @ [NUL]) pool = Some (m, mem, Some 0)
     \<and> config_apply m mem H = Some (H\<lparr>s_ssl_verify_mode := mode, s_ca_bundle_path := path\<rparr>)"
proof -
  have ok: "members_ok (config_members mode esc)"
    using assms(1) config_names by (simp add: config_members_def separator_def blank_def del: unescape.simps)
  have v: "map member_value (config_members mode esc)
      = [(''ssl_verify'', JSON_BOOLEAN, if mode = HTTP_SSL_VERIFY_ON then ''true'' else ''false''), (''ca_bundle'', JSON_TEXT, path)]"
    using assms(1) config_names by (simp add: config_members_def del: unescape.simps)
  from json_create_members [OF _ ok, of "[]" "'' ''" pool "[CHR 0x0A]"] assms(2) obtain m mem where
    "json_create (config_text mode esc @ [NUL]) pool = Some (m, mem, Some 0)"
    and n: "nodes_at m mem (map member_value (config_members mode esc))"
    unfolding config_text_members by (auto simp: config_members_def separator_def blank_def)
  with config_apply_members [OF n [unfolded v], of H] mode assms(4) show ?thesis
    by (auto simp: ssl_mode_defs trunc_cpy_id)
qed

text \<open>C14: The settings survive a restart: when \<open>http_save_config\<close> reports success, \<open>http_load_config\<close>
  of the same file, in any later state of the client, sets the verification mode and the bundle
  path to the saved ones and changes nothing else; it fails, and changes nothing, only when the file
  cannot be opened, its size asked, or a buffer allocated.\<close>

theorem saved_settings_restored:
  assumes f: "stores_files (hl_posix L) (O_TRUNC L) stored pos" and ok: "posix_ok (hl_posix L)" and esc: "json_escapes L"
    and mode: "s_ssl_verify_mode H \<in> {HTTP_SSL_VERIFY_ON, HTTP_SSL_VERIFY_OFF}" and len: "length (s_ca_bundle_path H) < 256"
    and pool: "2 < length pool" and save: "http_save_config L (Some p) H w = Some (True, w1)"
  shows "\<exists>w2. http_load_config L pool (Some p) H' w1 = Some (if text_opens (hl_posix L) p w1
      then (True, H'\<lparr>s_ssl_verify_mode := s_ssl_verify_mode H, s_ca_bundle_path := s_ca_bundle_path H\<rparr>, w2)
      else (False, H', w2))"
proof -
  from save obtain es n w0 where e: "http_escape_json_string L 513 (Some (s_ca_bundle_path H)) H w = (Some es, w0)"
    and l: "length (config_text (s_ssl_verify_mode H) es) < 512"
    and wr: "write_file_trunc (hl_posix L) (O_TRUNC L) p (config_text (s_ssl_verify_mode H) es) 384 w0 = Some ((True, n), w1)"
    by (auto simp: http_save_config_def Let_def split: prod.splits option.splits if_splits)
  from e esc have es: "unescape es = Some (s_ca_bundle_path H)"
    unfolding json_escapes_def by (auto simp: http_escape_json_string_def split: if_splits prod.splits) blast
  from config_text_read [OF es pool mode len] obtain m mem where
    c: "json_create (config_text (s_ssl_verify_mode H) es @ [NUL]) pool = Some (m, mem, Some 0)"
    "config_apply m mem H' = Some (H'\<lparr>s_ssl_verify_mode := s_ssl_verify_mode H, s_ca_bundle_path := s_ca_bundle_path H\<rparr>)"
    by blast
  from read_text_file_stored [OF f write_file_stored [OF f ok wr], of CONFIG_MAX_SIZE] l obtain w2 where
    "read_text_file (hl_posix L) p CONFIG_MAX_SIZE w1
      = Some (if text_opens (hl_posix L) p w1 then Some (config_text (s_ssl_verify_mode H) es) else None, w2)"
    by (auto simp: CONFIG_MAX_SIZE_def)
  with c show ?thesis by (auto simp: http_load_config_def)
qed

text \<open>A file system in memory with one descriptor.\<close>

type_synonym disk = "(string \<Rightarrow> string option) \<times> (string \<times> nat) option"

definition disk_stored :: "disk stored" where
  "disk_stored p w = fst w p"

definition disk_pos :: "disk pos" where
  "disk_pos fd w = (if fd = 3 then snd w else None)"

definition disk_open :: "string \<Rightarrow> nat option \<Rightarrow> u32 \<Rightarrow> disk \<Rightarrow> cint \<times> disk" where
  "disk_open p m fl w =
     (case m of Some _ \<Rightarrow> (3, ((fst w)(p := Some []), Some (p, 0)))
      | None \<Rightarrow> (if fst w p = None then (-1, w) else (3, (fst w, Some (p, 0)))))"

definition disk_write :: "cint \<Rightarrow> string \<Rightarrow> disk \<Rightarrow> int \<times> disk" where
  "disk_write fd d w =
     (case disk_pos fd w of None \<Rightarrow> (-1, w)
      | Some (p, i) \<Rightarrow> (int (length d), ((fst w)(p := map_option (\<lambda>s. s @ d) (fst w p)), Some (p, i + length d))))"

definition disk_read :: "cint \<Rightarrow> nat \<Rightarrow> disk \<Rightarrow> (int \<times> string) \<times> disk" where
  "disk_read fd k w =
     (case disk_pos fd w of None \<Rightarrow> ((-1, []), w)
      | Some (p, i) \<Rightarrow> let bs = take k (drop i (case fst w p of None \<Rightarrow> [] | Some s \<Rightarrow> s))
          in ((int (length bs), bs), (fst w, Some (p, i + length bs))))"

definition disk_posix :: "disk posix" where
  "disk_posix =
     \<lparr>px_malloc = (\<lambda>n w. (True, w)), px_open = disk_open,
      px_fstat = (\<lambda>fd w. (case disk_pos fd w of None \<Rightarrow> None | Some (p, i) \<Rightarrow> map_option length (fst w p), w)),
      px_read = disk_read, px_write = disk_write, px_close = (\<lambda>fd w. (fst w, None)),
      px_unlink = (\<lambda>p w. ((fst w)(p := None), snd w)), px_stat = (\<lambda>p w. ((if fst w p = None then -1 else 0, True), w))\<rparr>"

lemma disk_stores: "stores_files disk_posix trunc disk_stored disk_pos"
proof -
  have "opens_at disk_posix trunc disk_stored disk_pos"
    by (auto simp: opens_at_def disk_posix_def disk_open_def disk_stored_def disk_pos_def split: option.splits)
  moreover have "writes_append disk_posix disk_stored disk_pos"
    by (auto simp: writes_append_def disk_posix_def disk_write_def disk_stored_def disk_pos_def split: if_splits)
  moreover have "reads_next disk_posix disk_stored disk_pos"
    by (auto simp: reads_next_def disk_posix_def disk_read_def disk_stored_def disk_pos_def Let_def min_def split: if_splits)
  moreover have "keeps_files disk_posix disk_stored disk_pos"
    by (auto simp: keeps_files_def disk_posix_def disk_stored_def disk_pos_def split: if_splits)
  ultimately show ?thesis by (simp add: stores_files_def)
qed

lemma disk_ok: "posix_ok disk_posix"
  by (auto simp: posix_ok_def disk_posix_def disk_read_def disk_write_def Let_def split: option.splits)

definition disk_http :: "disk http_lib" where
  "disk_http =
     \<lparr>hl_posix = disk_posix,
      sceSslInit = (\<lambda>n w. (1, w)), sceSslTerm = (\<lambda>i w. (0, w)),
      sceHttpInit = (\<lambda>m s n w. (1, w)), sceHttpTerm = (\<lambda>i w. (0, w)),
      sceHttpCreateTemplate = (\<lambda>c w. (1, w)), sceHttpDeleteTemplate = (\<lambda>i w. (0, w)),
      sceHttpsEnableOption = (\<lambda>i f w. (0, w)), sceHttpsDisableOption = (\<lambda>i f w. (0, w)),
      sceHttpsLoadCert = (\<lambda>i d w. (0, w)), sceHttpsUnloadCert = (\<lambda>i w. (0, w)),
      sceHttpCreateConnectionWithURL = (\<lambda>i u w. (1, w)), sceHttpDeleteConnection = (\<lambda>i w. (0, w)),
      sceHttpCreateRequestWithURL = (\<lambda>i m u n w. (1, w)), sceHttpDeleteRequest = (\<lambda>i w. (0, w)),
      sceHttpAddRequestHeader = (\<lambda>i n v w. (0, w)), sceHttpSendRequest = (\<lambda>i d w. (0, w)),
      sceHttpGetLastErrno = (\<lambda>i w. ((0, 0), w)), sceHttpGetStatusCode = (\<lambda>i w. ((0, 404), w)),
      sceHttpGetResponseContentLength = (\<lambda>i w. ((0, 0, 0), w)),
      sceHttpReadData = (\<lambda>i n w. ((0, []), w)),
      sceHttpUriUnescape = (\<lambda>n s w. ((0, length s + 1, s), w)),
      sceNpUtilJsonEscape = (\<lambda>n s w. ((if unescape s = Some s then 0 else -1, s), w)),
      ORBIS_HTTP_CONTENTLEN_EXIST = 0, ORBIS_METHOD_GET = 0, O_TRUNC = 0x400\<rparr>"

lemma disk_escapes: "json_escapes disk_http"
  by (auto simp: json_escapes_def disk_http_def split: if_splits)

definition disk_saved :: disk where
  "disk_saved = (Map.empty(''/c'' \<mapsto> config_text 0 ''/data/b.pem''), None)"

lemma disk_save:
  "http_save_config disk_http (Some ''/c'')
     (http_static\<lparr>s_http_initialized := True, s_ssl_verify_mode := 0, s_ca_bundle_path := ''/data/b.pem''\<rparr>) (Map.empty, None)
   = Some (True, disk_saved)"
proof -
  have u: "unescape ''/data/b.pem'' = Some ''/data/b.pem''" by (rule unescape_plain) (simp add: chr_code_def)
  have l: "length (config_text 0 ''/data/b.pem'') < 512" by (simp add: config_text_def)
  have ne: "config_text 0 ''/data/b.pem'' \<noteq> []" by (simp add: config_text_def)
  let ?t = "config_text 0 ''/data/b.pem''"
  have "write_loop disk_posix 3 ?t 0 (Map.empty(''/c'' \<mapsto> []), Some (''/c'', 0))
      = Some (length ?t, Map.empty(''/c'' \<mapsto> ?t), Some (''/c'', length ?t))"
    using ne by (subst write_loop.simps) (subst write_loop.simps, simp add: disk_posix_def disk_write_def disk_pos_def)
  then have "write_file_trunc disk_posix 0x400 ''/c'' ?t 384 (Map.empty, None) = Some ((True, length ?t), disk_saved)"
    by (simp add: write_file_trunc_def write_file_def disk_posix_def disk_open_def disk_saved_def)
  with u l show ?thesis
    by (simp add: http_save_config_def http_escape_json_string_def disk_http_def del: unescape.simps)
qed

theorem saved_settings_restored_witness:
  "\<exists>w2. http_load_config disk_http (replicate 16 \<lparr>jsibling = None, jname = None, ju = UValue 0, jtype = JSON_NULL\<rparr>)
      (Some ''/c'') http_static disk_saved
    = Some (True, http_static\<lparr>s_ssl_verify_mode := 0, s_ca_bundle_path := ''/data/b.pem''\<rparr>, w2)"
proof -
  have o: "text_opens (hl_posix disk_http) ''/c'' disk_saved"
    by (simp add: text_opens_def disk_http_def disk_posix_def disk_open_def disk_saved_def disk_pos_def)
  have P: "hl_posix disk_http = disk_posix" "O_TRUNC disk_http = 0x400" by (simp_all add: disk_http_def)
  show ?thesis
    using saved_settings_restored [where L = disk_http and stored = disk_stored and pos = disk_pos
        and pool = "replicate 16 \<lparr>jsibling = None, jname = None, ju = UValue 0, jtype = JSON_NULL\<rparr>" and H' = http_static,
        OF _ _ disk_escapes _ _ _ disk_save] o
    by (simp add: P disk_stores disk_ok ssl_mode_defs)
qed

end
