(* ===== verification/InstallFiles.thy ===== *)
theory InstallFiles
  imports Server
begin

text \<open>
  The files of an installation request.  Writing a response, escaping text and registering the
  task leave the file system alone; so what an installation does to it is what preparing the package
  does, and what the handler removes at the end.
\<close>

section \<open>Operations that leave something alone\<close>

definition calm :: "('v \<Rightarrow> 'b) \<Rightarrow> 'v \<Rightarrow> ('a \<times> 's \<times> 'v) option \<Rightarrow> bool" where
  "calm obs v x \<longleftrightarrow> (\<forall>a st v'. x = Some (a, st, v') \<longrightarrow> obs v' = obs v)"

named_theorems calm

lemma calm_None [calm]: "calm obs v None"
  by (simp add: calm_def)

lemma calm_Some [calm]: "obs w = obs v \<Longrightarrow> calm obs v (Some (a, st, w))"
  unfolding calm_def by (intro allI impI) (simp only: option.inject prod.inject)

lemma calmD: "calm obs v x \<Longrightarrow> x = Some (a, st, v') \<Longrightarrow> obs v' = obs v"
  unfolding calm_def by blast

lemma calm_bind [calm]:
  assumes "calm obs v x" and "\<And>a st w. obs w = obs v \<Longrightarrow> calm obs v (k a st w)"
  shows "calm obs v (x \<bind> (\<lambda>(a, st, w). k a st w))"
proof (cases x)
  case (Some y)
  obtain a st w where y: "y = (a, st, w)" by (metis prod_cases3)
  have "obs w = obs v" by (rule calmD [OF assms(1)]) (simp only: Some y)
  with assms(2) Some y show ?thesis by simp
qed (simp add: calm_None)

lemma calm_at: "calm obs w x \<Longrightarrow> obs w = obs v \<Longrightarrow> calm obs v x"
  by (simp add: calm_def)

lemma calm_if [calm]: "(b \<Longrightarrow> calm obs v x) \<Longrightarrow> (\<not> b \<Longrightarrow> calm obs v y) \<Longrightarrow> calm obs v (if b then x else y)"
  by simp

lemma calm_wr [calm]: "(\<And>y. calm obs v (k y)) \<Longrightarrow> calm obs v (wr m i c \<bind> k)"
  by (auto simp: calm_def bind_eq_Some_conv)

section \<open>Responses\<close>

definition realloc_calm :: "'v sb_env \<Rightarrow> ('v \<Rightarrow> 'b) \<Rightarrow> bool" where
  "realloc_calm E obs \<longleftrightarrow> (\<forall>n w. obs (snd (se_realloc E n w)) = obs w)"

lemma reserve_calm:
  assumes "realloc_calm E obs" and "sb_buffer_reserve E n b w = (err, b', w')"
  shows "obs w' = obs w"
proof -
  from assms(1) have "obs (snd (se_realloc E n w)) = obs w" by (simp add: realloc_calm_def)
  with assms(2) show ?thesis by (auto simp: sb_buffer_reserve_def split: if_splits prod.splits bool.splits)
qed

lemma push_char_calm:
  assumes "realloc_calm E obs"
  shows "calm obs w (sb_buffer_push_char E c b w)"
proof -
  obtain e b1 w1 where r: "(if sb_len b = length (sb_s b) then sb_buffer_reserve E (if sb_s b = [] then 1 else 2 * length (sb_s b)) b w
      else (SB_ESUCCESS, b, w)) = (e, b1, w1)" by (metis prod_cases3)
  then have "obs w1 = obs w" using reserve_calm [OF assms] by (auto split: if_splits)
  then show ?thesis unfolding sb_buffer_push_char_def r prod.case by (intro calm)
qed

lemma push_str_loop_calm:
  assumes "realloc_calm E obs"
  shows "calm obs w (push_str_loop E p n b w)"
proof (induction p arbitrary: b w)
  case Nil
  show ?case by (simp add: calm)
next
  case (Cons c cs)
  show ?case unfolding push_str_loop.simps
    by (intro calm push_char_calm [OF assms]) (assumption | rule calm_at [OF Cons.IH])+
qed

lemma push_str_calm: "realloc_calm E obs \<Longrightarrow> calm obs w (sb_buffer_push_str E p b w)"
  unfolding sb_buffer_push_str_def by (rule push_str_loop_calm)

lemma vwritef_loop_calm:
  assumes "realloc_calm E obs"
  shows "calm obs w (vwritef_loop E n fmt args b w)"
proof (induction "length fmt" arbitrary: fmt args b w rule: less_induct)
  case less
  show ?case
  proof (cases fmt)
    case Nil
    then show ?thesis by (subst vwritef_loop.simps) (simp add: calm)
  next
    case (Cons c cs)
    have rec: "calm obs w (vwritef_loop E n f as b' w')" if "length f < length fmt" "obs w' = obs w" for f as b' w'
      by (rule calm_at [OF less that(2)]) (rule that(1))
    have tl: "length (tl cs) < length fmt" "length cs < length fmt" using Cons by auto
    have "calm obs w (case args of VaStr s # as \<Rightarrow> sb_buffer_push_str E (case s of None \<Rightarrow> ''(null)'' | Some s \<Rightarrow> s) b w
          \<bind> (\<lambda>(err, b, w). if err \<noteq> 0 then Some (err, b\<lparr>sb_len := n\<rparr>, w) else vwritef_loop E n (tl cs) as b w)
        | _ \<Rightarrow> None)"
      by (auto split: list.split va_arg.split intro!: calm push_str_calm [OF assms] rec tl)
    moreover have "calm obs w (case format_spec cs args of None \<Rightarrow> None
        | Some (txt, rest, as) \<Rightarrow> sb_buffer_push_str E txt b w
          \<bind> (\<lambda>(err, b, w). if err \<noteq> 0 then Some (err, b\<lparr>sb_len := n\<rparr>, w) else vwritef_loop E n rest as b w))"
    proof (cases "format_spec cs args")
      case (Some y)
      then obtain txt' rest as where y: "format_spec cs args = Some (txt', rest, as)" by (metis prod_cases3)
      have "length rest < length fmt" using format_spec_shorter [OF y] Cons by simp
      then show ?thesis unfolding y by (auto intro!: calm push_str_calm [OF assms] rec)
    qed (simp add: calm)
    ultimately show ?thesis
      by (subst vwritef_loop.simps, unfold Cons list.case)
        (intro calm push_char_calm [OF assms] rec [OF tl(2)], simp_all only:)
  qed
qed

text \<open>The response calls.\<close>

lemma send_writef_calm: "realloc_calm E obs \<Longrightarrow> calm obs w (send_writef E fmt args st w)"
  unfolding send_writef_def sb_buffer_vwritef_def by (intro calm vwritef_loop_calm)

lemma send_push_calm: "realloc_calm E obs \<Longrightarrow> calm obs w (send_push E p st w)"
  unfolding send_push_def by (intro calm push_str_calm)

lemmas [calm] = send_writef_calm [THEN calm_at] send_push_calm [THEN calm_at]

lemma send_status_calm: "realloc_calm E obs \<Longrightarrow> calm obs w (sb_send_status E code msg st w)"
  unfolding sb_send_status_def by (intro calm refl | assumption)+

lemmas [calm] = send_status_calm [THEN calm_at]

lemma finalize_header_calm: "realloc_calm E obs \<Longrightarrow> calm obs w (sb_stream_finalize_header E st w)"
  unfolding sb_stream_finalize_header_def by (intro calm refl | assumption)+

lemma send_header_calm: "realloc_calm E obs \<Longrightarrow> calm obs w (sb_send_header E field val st w)"
  unfolding sb_send_header_def by (intro calm refl | assumption)+

lemmas [calm] = finalize_header_calm [THEN calm_at] send_header_calm [THEN calm_at]

lemma writef_calm: "realloc_calm E obs \<Longrightarrow> calm obs w (sb_writef E fmt args st w)"
  unfolding sb_writef_def by (intro calm refl | assumption)+

lemmas [calm] = writef_calm [THEN calm_at]

section \<open>Answers\<close>

text \<open>\<open>files\<close> observes the paths that exist, as for the package reader; the rest of what an
  installation calls leaves them alone.\<close>

definition install_ok :: "'w rpi_env \<Rightarrow> ('w \<Rightarrow> string set) \<Rightarrow> bool" where
  "install_ok R files \<longleftrightarrow> files_ok (rv_pkg R) files
     \<and> realloc_calm (rv_stream R) (\<lambda>v. files (snd v))
     \<and> (\<forall>n s w. files (snd (sceNpUtilJsonEscape (rv_http R) n s w)) = files w)
     \<and> (\<forall>fd w. files (snd (px_fstat (rv_posix R) fd w)) = files w)
     \<and> (\<forall>fd n w. files (snd (px_read (rv_posix R) fd n w)) = files w)
     \<and> (\<forall>w. files (snd (rv_language R w)) = files w)
     \<and> (\<forall>w. files (snd (sceUserServiceGetForegroundUser (rv_installer R) w)) = files w)
     \<and> (\<forall>p w. files (snd (sceBgftServiceIntDownloadRegisterTask (rv_installer R) p w)) = files w)
     \<and> (\<forall>p w. files (snd (sceBgftServiceIntDebugDownloadRegisterPkg (rv_installer R) p w)) = files w)"

lemma install_okD:
  assumes "install_ok R files"
  shows "files_ok (rv_pkg R) files" and "realloc_calm (rv_stream R) (\<lambda>v. files (snd v))"
    and "files (snd (sceNpUtilJsonEscape (rv_http R) n s w)) = files w"
    and "files (snd (px_fstat (rv_posix R) fd w)) = files w"
    and "files (snd (px_read (rv_posix R) fd n w)) = files w"
    and "files (snd (rv_language R w)) = files w"
    and "files (snd (sceUserServiceGetForegroundUser (rv_installer R) w)) = files w"
    and "files (snd (sceBgftServiceIntDownloadRegisterTask (rv_installer R) p w)) = files w"
    and "files (snd (sceBgftServiceIntDebugDownloadRegisterPkg (rv_installer R) p w)) = files w"
  using assms by (simp_all add: install_ok_def)

abbreviation paths :: "('w \<Rightarrow> string set) \<Rightarrow> 'w world \<Rightarrow> string set" where
  "paths files v \<equiv> files (snd v)"

lemma escape_json_files:
  assumes ok: "install_ok R files" and e: "escape_json R n s v = (r, v')"
  shows "files (snd v') = files (snd v)"
proof -
  obtain ret out w where c: "sceNpUtilJsonEscape (rv_http R) n s (snd v) = ((ret, out), w)" by (metis prod.collapse)
  have "files w = files (snd v)" using install_okD(3) [OF ok, of n s "snd v"] unfolding c snd_conv .
  moreover have "snd v' = snd v \<or> snd v' = w" using e
    by (auto simp: escape_json_def http_escape_json_string_def c split: if_splits)
  ultimately show ?thesis by metis
qed

lemma cors_calm: "install_ok R files \<Longrightarrow> calm (paths files) v (set_cors_header R st v)"
  unfolding set_cors_header_def by (intro calm refl install_okD(2) | assumption)+

lemmas [calm] = cors_calm [THEN calm_at]

lemma kick_error_calm:
  assumes ok: "install_ok R files"
  shows "calm (paths files) v (kick_error R code title err st v)"
proof -
  have "calm (paths files) v (case escape_json R n s w of (escaped, w) \<Rightarrow> sb_writef (rv_stream R) fmt (args escaped) st w
      \<bind> (\<lambda>(_, st, v). Some ((), st, v)))" if "files (snd w) = files (snd v)" for n s w fmt args st
  proof -
    obtain x w1 where e: "escape_json R n s w = (x, w1)" by (metis prod.collapse)
    have "paths files w1 = paths files v" using escape_json_files [OF ok e] that by simp
    then show ?thesis unfolding e prod.case by (intro calm refl install_okD(2) [OF ok] | assumption)+
  qed
  then show ?thesis unfolding kick_error_def Let_def
    by (intro calm refl install_okD(2) [OF ok] ok | assumption)+
qed

lemmas [calm] = kick_error_calm [THEN calm_at]

lemma throw_error_calm: "install_ok R files \<Longrightarrow> calm (paths files) v (throw_error R msg st v)"
  unfolding throw_error_def kick_errorf_def by (intro calm refl | assumption)+

lemma result_header_calm: "install_ok R files \<Longrightarrow> calm (paths files) v (kick_result_header_json R st v)"
  unfolding kick_result_header_json_def by (intro calm refl install_okD(2) | assumption)+

lemmas [calm] = throw_error_calm [THEN calm_at] result_header_calm [THEN calm_at]

lemma result_json_calm: "install_ok R files \<Longrightarrow> calm (paths files) v (result_json R fmt args st v)"
  unfolding result_json_def by (intro calm refl install_okD(2) | assumption)+

lemmas [calm] = result_json_calm [THEN calm_at]

lemma answer_failure_calm: "install_ok R files \<Longrightarrow> calm (paths files) v (answer_failure R err st v)"
  unfolding answer_failure_def kick_error_json_def by (cases err) (simp_all add: calm)

section \<open>The system file\<close>

text \<open>The same for results without a stream.\<close>

definition alike :: "('w \<Rightarrow> 'b) \<Rightarrow> 'w \<Rightarrow> 'w \<Rightarrow> bool" where
  "alike obs w w' \<longleftrightarrow> obs w' = obs w"

lemma alike_refl: "alike obs w w"
  by (simp add: alike_def)

lemma alike_trans: "alike obs u v \<Longrightarrow> alike obs v w \<Longrightarrow> alike obs u w"
  by (simp add: alike_def)

lemma malloc_same:
  assumes "install_ok R files" and "px_malloc (rv_posix R) n w = (b, w')"
  shows "alike files w w'"
proof -
  have "files (snd (px_malloc (rv_posix R) n w)) = files w"
    using files_okD(1) [OF install_okD(1) [OF assms(1)]] by (simp add: http_frame_def)
  then show ?thesis unfolding assms(2) snd_conv alike_def .
qed

lemma sfo_load_entry_same:
  assumes ok: "install_ok R files" and r: "sfo_load_entry (rv_posix R) data kt vt i w = Some (e, w')"
  shows "alike files w w'"
proof -
  obtain b1 w1 where 1: "px_malloc (rv_posix R) 56 w = (b1, w1)" by (metis prod.collapse)
  note m = malloc_same [OF ok]
  show ?thesis
  proof (cases "w' = w1")
    case False
    with r 1 have "\<exists>k n. w' = snd (px_malloc (rv_posix R) n w1) \<or> w' = snd (px_malloc (rv_posix R) k (snd (px_malloc (rv_posix R) n w1)))"
      unfolding sfo_load_entry_def
      by (auto simp: bind_eq_Some_conv Let_def case_prod_unfold split: bool.splits if_splits)
    then obtain k n where "w' = snd (px_malloc (rv_posix R) n w1) \<or> w' = snd (px_malloc (rv_posix R) k (snd (px_malloc (rv_posix R) n w1)))"
      by blast
    then show ?thesis by (metis m 1 alike_trans prod.collapse)
  qed (simp add: m [OF 1])
qed

lemma sfo_load_loop_same:
  assumes ok: "install_ok R files"
  shows "sfo_load_loop (rv_posix R) data kt vt es i n w = Some (r, w') \<Longrightarrow> alike files w w'"
proof (induction n arbitrary: es i w)
  case (Suc n)
  from Suc.prems obtain e w1 where 1: "sfo_load_entry (rv_posix R) data kt vt i w = Some (e, w1)"
    and 2: "case e of None \<Rightarrow> w' = w1 | Some x \<Rightarrow> sfo_load_loop (rv_posix R) data kt vt (es @ [x]) (Suc i) n w1 = Some (r, w')"
    by (auto split: option.splits)
  from sfo_load_entry_same [OF ok 1] 2 Suc.IH show ?case by (cases e) (auto intro: alike_trans)
qed (simp add: alike_refl)

lemma sfo_load_memory_same:
  assumes "install_ok R files" and "sfo_load_from_memory (rv_posix R) data w = Some (r, w')"
  shows "alike files w w'"
  using assms(2) unfolding sfo_load_from_memory_def
  by (auto simp: bind_eq_Some_conv alike_refl split: if_splits dest: sfo_load_loop_same [OF assms(1)])

text \<open>Reading the system file may only create it.\<close>

definition beside :: "('w \<Rightarrow> string set) \<Rightarrow> string set \<Rightarrow> 'w \<Rightarrow> 'w \<Rightarrow> bool" where
  "beside files X = alike (\<lambda>w. files w - X)"

lemma beside_same: "alike files w w' \<Longrightarrow> beside files X w w'"
  by (simp add: beside_def alike_def)

lemma beside_trans: "beside files X u v \<Longrightarrow> beside files X v w \<Longrightarrow> beside files X u w"
  by (simp add: beside_def alike_def)

lemma sfo_load_file_beside:
  assumes ok: "install_ok R files" and X: "p \<in> X" and r: "sfo_load_from_file (rv_posix R) p w = Some (e, w')"
  shows "beside files X w w'"
proof -
  let ?P = "rv_posix R"
  note F = install_okD(1) [OF ok]
  obtain fd w1 where 1: "px_open ?P p None 0 w = (fd, w1)" by (metis prod.collapse)
  obtain sz w2 where 2: "px_fstat ?P fd w1 = (sz, w2)" by (metis prod.collapse)
  have "files w1 \<in> {files w, insert p (files w)}" using files_okD(3) [OF F, of p None 0 w] unfolding 1 snd_conv .
  with X have b1: "beside files X w w1" by (auto simp: beside_def alike_def)
  have s2: "alike files w1 w2" using install_okD(4) [OF ok, of fd w1] unfolding 2 snd_conv alike_def .
  have c: "alike files v (px_close ?P fd v)" for v using files_okD(5) [OF F, of fd v] unfolding alike_def .
  have rest: "alike files w2 w'" if "sz = Some n" "\<not> sint fd < 0" for n
  proof -
    obtain b w3 where 3: "px_malloc ?P n w2 = (b, w3)" by (metis prod.collapse)
    obtain k d w4 where 4: "px_read ?P fd n w3 = ((k, d), w4)" by (metis prod.collapse)
    have s3: "alike files w2 w3" by (rule malloc_same [OF ok 3])
    have "alike files w3 w4" using install_okD(5) [OF ok, of fd n w3] unfolding 4 snd_conv alike_def .
    with s3 have s4: "alike files w2 w4" by (rule alike_trans)
    from r 1 2 3 4 that consider "w' = px_close ?P fd w3" | "w' = px_close ?P fd w4"
      | x w5 where "sfo_load_from_memory ?P d w4 = Some (x, w5)" "w' = px_close ?P fd w5"
      by (auto simp: sfo_load_from_file_def split: bool.splits if_splits option.splits)
    then show ?thesis
      by cases (metis alike_trans s3 s4 c sfo_load_memory_same [OF ok])+
  qed
  consider "w' = w1" | "w' = px_close ?P fd w2" | n where "sz = Some n" "\<not> sint fd < 0"
    using r 1 2 by (cases sz) (auto simp: sfo_load_from_file_def split: if_splits)
  then have "alike files w1 w'" by cases (metis alike_refl alike_trans s2 c rest)+
  with b1 show ?thesis by (metis beside_trans beside_same)
qed

text \<open>Where a computation ends, if it does.\<close>

definition ends_in :: "('v \<Rightarrow> bool) \<Rightarrow> ('a \<times> 'v) option \<Rightarrow> bool" where
  "ends_in P x \<longleftrightarrow> (\<forall>a v. x = Some (a, v) \<longrightarrow> P v)"

section \<open>The whole request\<close>

lemma register_task_same:
  assumes ok: "install_ok R files"
    and r: "bgft_download_register_package_task (rv_installer R) c url name icon ty sub sz patch I w = (x, w')"
  shows "alike files w w'"
proof -
  let ?L = "rv_installer R"
  obtain ret u w1 where 1: "sceUserServiceGetForegroundUser ?L w = ((ret, u), w1)" by (metis prod.collapse)
  have s1: "alike files w w1" using install_okD(7) [OF ok, of w] unfolding 1 snd_conv alike_def .
  have t: "alike files w1 (snd (sceBgftServiceIntDownloadRegisterTask ?L p w1))"
    "alike files w1 (snd (sceBgftServiceIntDebugDownloadRegisterPkg ?L p w1))" for p
    unfolding alike_def using install_okD(8,9) [OF ok] by blast+
  from r 1 have "w' = w \<or> w' = w1 \<or> (\<exists>p. w' = snd (sceBgftServiceIntDownloadRegisterTask ?L p w1))
      \<or> (\<exists>p. w' = snd (sceBgftServiceIntDebugDownloadRegisterPkg ?L p w1))"
    unfolding bgft_download_register_package_task_def Let_def
    by (auto simp: case_prod_unfold split: if_splits)
  with s1 t show ?thesis by (metis alike_refl alike_trans)
qed

lemma install_register_calm:
  assumes ok: "install_ok R files"
  shows "calm (paths files) v (install_register R F dir t st v)"
proof -
  obtain r w where r: "bgft_download_register_package_task (rv_installer R) (Some (it_content_id t))
      (content_url_of (fst v) (if_name F)) (it_title t)
      (if it_icon t then Some (trunc_cpy 1024 (''/user'' @ dir @ ''/'' @ if_name F @ ''.png'')) else None)
      (it_type t) None (it_size t) (it_patch t) (rp_installer (fst v)) (snd v) = (r, w)" by (metis prod.collapse)
  have s: "paths files (fst v, w) = paths files v" using register_task_same [OF ok r] by (simp add: alike_def)
  show ?thesis unfolding install_register_def world_call_def r prod.case Let_def
    by (cases "fst r") (simp_all only: option.case, auto intro!: s calm_at [OF answer_failure_calm] calm_at [OF result_json_calm] ok)
qed

lemma install_inspect_beside:
  assumes ok: "install_ok R files" and X: "p \<in> X" and r: "install_inspect R url p lang v = Some (x, v')"
  shows "beside files X (snd v) (snd v')"
proof -
  obtain s w1 where 1: "sfo_alloc (rv_posix R) (snd v) = (s, w1)" by (metis prod.collapse)
  have s1: "beside files X (snd v) w1"
    using 1 malloc_same [OF ok] by (auto simp: sfo_alloc_def intro!: beside_same split: prod.splits)
  have e: "beside files X (snd u) (snd u')" if "escape_json R n t u = (y, u')" for n t u y u'
    by (rule beside_same) (simp add: alike_def escape_json_files [OF ok that])
  show ?thesis
  proof (cases s)
    case None
    with r 1 s1 show ?thesis by (auto simp: install_inspect_def)
  next
    case (Some s0)
    with r 1 obtain l w2 where 2: "sfo_load_from_file (rv_posix R) p w1 = Some (l, w2)"
      and k: "(case l of Failed _ \<Rightarrow> Some (Inl (''Unable to load system file object for package '' @ quoted url @ ''.''), (fst v, w2))
        | Loaded es \<Rightarrow> package_title (s0\<lparr>sfo_entries := es\<rparr>) lang url \<bind> (\<lambda>t. case t of Inl msg \<Rightarrow> Some (Inl msg, (fst v, w2))
          | Inr title \<Rightarrow> (case escape_json R 513 title (fst v, w2) of
              (None, v) \<Rightarrow> Some (Inl ''Unable to escape title name.'', v)
            | (Some escaped, v) \<Rightarrow> package_content_id (s0\<lparr>sfo_entries := es\<rparr>) url \<bind> (\<lambda>c. case c of
                Inl msg \<Rightarrow> Some (Inl msg, v) | Inr content_id \<Rightarrow> Some (Inr (title, escaped, content_id), v))))) = Some (x, v')"
      by (auto simp: install_inspect_def bind_eq_Some_conv Let_def cong: load_result.case_cong)
    have rest: "snd v' = w2 \<or> (\<exists>n t y. escape_json R n t (fst v, w2) = (y, v'))"
    proof (cases l)
      case (Loaded es)
      with k obtain t where "(case t of Inl msg \<Rightarrow> Some (Inl msg, (fst v, w2))
          | Inr title \<Rightarrow> (case escape_json R 513 title (fst v, w2) of
              (None, v) \<Rightarrow> Some (Inl ''Unable to escape title name.'', v)
            | (Some escaped, v) \<Rightarrow> package_content_id (s0\<lparr>sfo_entries := es\<rparr>) url \<bind> (\<lambda>c. case c of
                Inl msg \<Rightarrow> Some (Inl msg, v) | Inr content_id \<Rightarrow> Some (Inr (title, escaped, content_id), v)))) = Some (x, v')"
        by (auto simp: bind_eq_Some_conv)
      then show ?thesis
        by (cases t) (auto simp: bind_eq_Some_conv split: sum.splits prod.splits option.splits, metis sum.exhaust)
    qed (use k in auto)
    have "beside files X (snd v) w2" by (rule beside_trans [OF s1 sfo_load_file_beside [OF ok X 2]])
    with rest e show ?thesis by (metis beside_trans snd_conv)
  qed
qed

lemma ends_in_bind: "(\<And>z. x = Some z \<Longrightarrow> ends_in P (f z)) \<Longrightarrow> ends_in P (x \<bind> f)"
  by (cases x) (simp_all add: ends_in_def)

lemma ends_in_Some: "P v \<Longrightarrow> ends_in P (Some (a, v))"
  by (simp add: ends_in_def)

lemma install_prepare_beside:
  assumes ok: "install_ok R files" and X: "X = {if_ref F, if_sfo F, if_icon F}"
  shows "ends_in (\<lambda>v'. beside files X (snd v) (snd v')) (install_prepare R urls F lang ssl v)"
  unfolding install_prepare_def
proof (subst Let_def, intro ends_in_bind, clarify)
  fix ps H w
  assume 1: "pkg_setup_prerequisites (rv_pkg R) (Some urls) (if_ref F) (if_sfo F) (if_icon F) 256 ssl
      (rp_http (fst v)) (snd v) = Some (ps, H, w)"
  have b: "beside files X (snd v) w"
  proof (cases "pkg_check_args (Some urls) (if_ref F) (if_sfo F) (if_icon F)")
    case None
    from pkg_setup_files(1) [OF install_okD(1) [OF ok] None 1] show ?thesis by (simp add: X beside_def alike_def)
  next
    case (Some e)
    with 1 have "w = snd v" by (auto simp: pkg_setup_prerequisites_def)
    then show ?thesis by (simp add: beside_def alike_def)
  qed
  have i: "beside files X (snd v) (snd u)"
    if "install_inspect R url (if_sfo F) lang ((fst v)\<lparr>rp_http := H\<rparr>, w) = Some (y, u)" for url y u
    using beside_trans [OF b install_inspect_beside [OF ok _ that, of X, unfolded snd_conv]] X by simp
  show "ends_in (\<lambda>v'. beside files X (snd v) (snd v'))
     (let v = ((fst v)\<lparr>rp_http := H\<rparr>, w) in case ps_ok ps of
       None \<Rightarrow>
         let error = fst (rtrim (ps_error ps));
             msg = ''Unable to set up prerequisites for package '' @ quoted (hd urls)
         in Some (Inl (msg @ (if error \<noteq> [] then '': '' @ error else ''.'')), v)
     | Some (content_type, package_size, icon) \<Rightarrow>
         (case package_type_of content_type of
            None \<Rightarrow> Some (Inl (''Unsupported content type for package '' @ quoted (hd urls) @ ''.''), v)
          | Some package_type \<Rightarrow> do {
              (r, v) \<leftarrow> install_inspect R (hd urls) (if_sfo F) lang v;
              case r of Inl msg \<Rightarrow> Some (Inl msg, v)
              | Inr (title, escaped, content_id) \<Rightarrow> do {
                  is_patch \<leftarrow> ps_is_patch ps;
                  Some (Inr \<lparr>it_content_id = content_id, it_title = title, it_escaped = escaped,
                             it_type = package_type, it_size = package_size, it_patch = is_patch,
                             it_icon = icon\<rparr>, v) } }))"
    by (auto simp: Let_def b split: option.split sum.split intro!: ends_in_Some ends_in_bind dest: i)
qed

lemma unlink_paths_files:
  assumes "install_ok R files"
  shows "files (snd (unlink_paths R ps v)) = files (snd v) - {p \<in> set ps. p \<noteq> []}"
  using unlink_all_files [OF install_okD(1) [OF assms]] by (auto simp: unlink_paths_def)

lemma install_files_named:
  "if_ref (install_files_of R dir st w) \<noteq> []" "if_sfo (install_files_of R dir st w) \<noteq> []"
  "if_icon (install_files_of R dir st w) \<noteq> []"
  by (simp_all add: install_files_of_def Let_def trunc_cpy_def)

section \<open>Property\<close>

text \<open>C7: An installation leaves no rubbish: it creates and removes no file but the three it names
  after its stream, and its copy of the system file is gone at the end; when it ends with an
  error message the reference document and the icon are gone too.\<close>

theorem install_cleans_up:
  assumes ok: "install_ok R files" and dir: "rp_work_dir (fst v) = Some dir"
    and lang: "rv_language R (snd v) = (lang, w)" "get_language_id lang \<noteq> None"
    and F: "F = install_files_of R dir st w"
    and r: "install_pieces R urls ssl st v = Some (fin, st', v')"
  shows "files (snd v') - {if_ref F, if_sfo F, if_icon F} = files (snd v) - {if_ref F, if_sfo F, if_icon F}
    \<and> if_sfo F \<notin> files (snd v')
    \<and> (\<not> fin \<longrightarrow> if_ref F \<notin> files (snd v') \<and> if_icon F \<notin> files (snd v'))"
proof -
  let ?X = "{if_ref F, if_sfo F, if_icon F}"
  obtain lid where lid: "get_language_id lang = Some lid" using lang(2) by blast
  have s0: "beside files ?X (snd v) w"
    using install_okD(6) [OF ok, of "snd v"] unfolding lang(1) snd_conv by (intro beside_same) (simp add: alike_def)
  from r dir lid lang(1) F obtain x u where 1: "install_prepare R urls F lid ssl (fst v, w) = Some (x, u)"
    by (auto simp: install_pieces_def bind_eq_Some_conv Let_def)
  note run = r [unfolded install_pieces_def Let_def lang(1) prod.case fst_conv lid option.case dir Option.bind.bind_lunit, folded F,
    unfolded 1 Option.bind.bind_lunit prod.case]
  have "beside files ?X w (snd u)"
    using install_prepare_beside [OF ok refl, where F = F and urls = urls and lang = lid and ssl = ssl and v = "(fst v, w)"] 1
    by (cases u) (simp add: ends_in_def)
  with s0 have s1: "beside files ?X (snd v) (snd u)" by (rule beside_trans)
  then have s: "files (snd u) - ?X = files (snd v) - ?X" by (simp only: beside_def alike_def)
  have named: "if_ref F \<noteq> []" "if_sfo F \<noteq> []" "if_icon F \<noteq> []" by (simp_all add: F install_files_named)
  have removed: "(files (snd u) - {p \<in> set ps. p \<noteq> []}) - ?X = files (snd v) - ?X" if "set ps \<subseteq> ?X" for ps
    using s that by blast
  show ?thesis
  proof (cases x)
    case (Inl msg)
    with run obtain y st1 u1 where 2: "throw_error R msg st u = Some (y, st1, u1)"
      and v': "v' = unlink_paths R [if_ref F, if_sfo F, if_icon F] u1" by (auto simp: bind_eq_Some_conv)
    have e: "files (snd u1) = files (snd u)" by (rule calmD [OF throw_error_calm [OF ok] 2])
    show ?thesis unfolding v' unlink_paths_files [OF ok] e by (intro conjI impI removed) (simp_all add: named)
  next
    case (Inr t)
    with run obtain y st1 u1 where 2: "install_register R F dir t st u = Some (y, st1, u1)"
      and v': "v' = unlink_paths R [if_sfo F] u1" "fin" by (auto simp: bind_eq_Some_conv)
    have e: "files (snd u1) = files (snd u)" by (rule calmD [OF install_register_calm [OF ok] 2])
    show ?thesis unfolding v'(1) unlink_paths_files [OF ok] e
      by (intro conjI impI removed) (simp_all add: named v'(2))
  qed
qed

definition quiet_installer :: "'w installer_lib" where
  "quiet_installer =
     \<lparr>il_posix = \<lparr>px_malloc = (\<lambda>n w. (True, w)), px_open = (\<lambda>p m fl w. (-1, w)), px_fstat = (\<lambda>fd w. (None, w)),
        px_read = (\<lambda>fd n w. ((0, []), w)), px_write = (\<lambda>fd d w. (0, w)), px_close = (\<lambda>fd w. w),
        px_unlink = (\<lambda>p w. w), px_stat = (\<lambda>p w. ((-1, False), w))\<rparr>,
      il_errors = \<lparr>ORBIS_EINVAL = 22, ORBIS_ENOSPC = 28, ORBIS_ENXIO = 6\<rparr>,
      sceAppInstUtilInitialize = (\<lambda>w. (0, w)), sceAppInstUtilTerminate = (\<lambda>w. (0, w)),
      sceAppInstUtilAppUnInstall = (\<lambda>t w. (0, w)), sceAppInstUtilAppUnInstallAddcont = (\<lambda>t l w. (0, w)),
      sceAppInstUtilAppUnInstallPat = (\<lambda>t w. (0, w)), sceAppInstUtilAppUnInstallTheme = (\<lambda>t w. (0, w)),
      sceAppInstUtilAppExists = (\<lambda>t w. ((0, 1), w)), sceAppInstUtilAppGetSize = (\<lambda>t w. ((0, 5), w)),
      sceUserServiceGetForegroundUser = (\<lambda>w. ((0, 7), w)),
      sceBgftServiceIntInit = (\<lambda>n w. (0, w)), sceBgftServiceIntTerm = (\<lambda>w. (0, w)),
      sceBgftServiceIntDownloadRegisterTask = (\<lambda>p w. ((0, 1), w)),
      sceBgftServiceIntDebugDownloadRegisterPkg = (\<lambda>p w. ((0, 2), w)),
      sceBgftServiceDownloadStartTask = (\<lambda>i w. (0, w)), sceBgftServiceDownloadStopTask = (\<lambda>i w. (0, w)),
      sceBgftServiceDownloadPauseTask = (\<lambda>i w. (0, w)), sceBgftServiceDownloadResumeTask = (\<lambda>i w. (0, w)),
      sceBgftServiceIntDownloadUnregisterTask = (\<lambda>i w. (0, w)),
      sceBgftServiceIntDownloadReregisterTaskPatch = (\<lambda>i w. ((0, i + 1), w)),
      sceBgftServiceDownloadGetProgress = (\<lambda>i w. ((-1, \<lparr>pr_bits = 0, pr_error_result = 0, pr_length = 0,
         pr_transferred = 0, pr_length_total = 0, pr_transferred_total = 0, pr_num_index = 0, pr_num_total = 0,
         pr_rest_sec = 0, pr_rest_sec_total = 0, pr_preparing_percent = 0, pr_local_copy_percent = 0\<rparr>), w)),
      sceBgftServiceDownloadFindTaskByContentId = (\<lambda>c t w. ((0, 4), w)),
      BGFT_TASK_OPT_DISABLE_CDN_QUERY_PARAM = 0x10000, BGFT_TASK_SUB_TYPE_UNKNOWN = 0,
      BGFT_TASK_SUB_TYPE_MAX = 10\<rparr>"

definition shelf_rpi :: "shelf rpi_env" where
  "shelf_rpi = \<lparr>rv_stream = roomy_env, rv_pkg = shelf_env, rv_installer = quiet_installer,
     rv_language = (\<lambda>w. ((0, 1), w)), rv_stream_address = (\<lambda>w. 0x200000), rv_stat = (\<lambda>p w. ((-1, False), w))\<rparr>"

lemma shelf_install_ok: "install_ok shelf_rpi (\<lambda>w. set (fst w))"
proof -
  have "realloc_calm (rv_stream shelf_rpi) (\<lambda>v. set (fst (snd v)))"
    by (simp add: realloc_calm_def shelf_rpi_def roomy_env_def)
  then show ?thesis using shelf_files_ok
    by (simp add: install_ok_def shelf_rpi_def quiet_installer_def shelf_posix_def)
      (simp add: shelf_http_def)
qed

definition shelf_files :: install_files where
  "shelf_files = install_files_of shelf_rpi ''/data'' asked_stream ([], [])"

definition shelf_world :: "shelf world" where
  "shelf_world = (desk_state\<lparr>rp_http := ready\<rparr>, ([''a'', if_ref shelf_files], []))"

text \<open>The connection to the source is refused, since the TLS checks cannot be armed.\<close>

lemma shelf_setup_fails:
  assumes "pkg_check_args (Some [u]) ref sfo icon = None"
  shows "\<exists>ps H w'. pkg_setup_prerequisites shelf_env (Some [u]) ref sfo icon n HTTP_SSL_VERIFY_ON ready w = Some (ps, H, w')
    \<and> ps_ok ps = None"
proof -
  let ?v = HTTP_SSL_VERIFY_ON
  have d: "\<exists>H'. http_download_file shelf_http (Some u) k off ?v ready w = Some (None, H', w)"
    for k off and w :: shelf
    by (simp add: http_download_file_def do_request_def template_body_def apply_ssl_options_def
        shelf_http_def ready_def http_clear_last_error_def args_zero_def set_last_error_def
        resolve_ssl_verify_def ssl_mode_defs Let_def SCE_HTTP_ERROR_INVALID_VALUE_def)
  have h: "\<exists>e H'. pkg_fetch_header shelf_env u ?v ready w = Some (Inl e, H', w)" for w :: shelf
    using d [of "Some (word_of_nat SIZEOF_PKG_HEADER)" 0 w]
    by (auto simp: pkg_fetch_header_def fetch_exact_def)
  let ?w = "unlink_all shelf_posix [ref, sfo, icon] w"
  obtain e H' where f: "pkg_fetch_all shelf_env [u] ?v ready ?w = Some (None, Inl e, H', ?w)"
    using h [of ?w] by (auto simp: pkg_fetch_all_def)
  show ?thesis
    unfolding pkg_setup_prerequisites_def assms Let_def option.sel option.case shelf_http_simps f prod.case sum.case
    by (simp add: setup_error_def)
qed

theorem install_cleans_up_witness:
  "\<exists>st' v'. install_pieces shelf_rpi [''http://h/p''] HTTP_SSL_VERIFY_ON asked_stream shelf_world = Some (False, st', v')
    \<and> set (fst (snd v')) = {''a''}"
proof -
  let ?F = shelf_files and ?w = "([''a'', if_ref shelf_files], [])" and ?v = shelf_world
  have F: "?F = install_files_of shelf_rpi ''/data'' asked_stream ?w"
    by (simp add: shelf_files_def install_files_of_def shelf_rpi_def)
  have lang: "rv_language shelf_rpi (snd ?v) = ((0, 1), ?w)" by (simp add: shelf_rpi_def shelf_world_def)
  have dir: "rp_work_dir (fst ?v) = Some ''/data''" by (simp add: shelf_world_def desk_state_def)
  have env: "rv_pkg shelf_rpi = shelf_env" "rv_stream shelf_rpi = roomy_env" by (simp_all add: shelf_rpi_def)
  have "pkg_check_args (Some [''http://h/p'']) (if_ref ?F) (if_sfo ?F) (if_icon ?F) = None"
    by (simp add: pkg_check_args_def shelf_files_def install_files_named)
  from shelf_setup_fails [OF this, of 256 ?w] obtain ps H w1 where
    "pkg_setup_prerequisites shelf_env (Some [''http://h/p'']) (if_ref ?F) (if_sfo ?F) (if_icon ?F) 256 HTTP_SSL_VERIFY_ON
      ready ?w = Some (ps, H, w1)" "ps_ok ps = None" by blast
  then obtain msg u where p: "install_prepare shelf_rpi [''http://h/p''] ?F 1 HTTP_SSL_VERIFY_ON (fst ?v, ?w) = Some (Inl msg, u)"
    by (auto simp: install_prepare_def env shelf_world_def Let_def cong: if_cong)
  have rep: "represents asked_stream Unsent" using asked_stream_ready by (simp add: request_ready_def)
  from throw_error_says [OF rep, of shelf_rpi True msg u] obtain fin st1 u1 where
    t: "throw_error shelf_rpi msg asked_stream u = Some (fin, st1, u1)" and nf: "\<not> fin"
    by (auto simp: says_def)
  have r: "install_pieces shelf_rpi [''http://h/p''] HTTP_SSL_VERIFY_ON asked_stream ?v
      = Some (False, st1, unlink_paths shelf_rpi [if_ref ?F, if_sfo ?F, if_icon ?F] u1)"
    using p t nf by (simp add: install_pieces_def lang get_language_id_def dir F [symmetric])
  have g: "get_language_id (0, 1) \<noteq> None" by (simp add: get_language_id_def)
  have slash: "hd p = CHR ''/''" if "p \<in> {if_ref ?F, if_sfo ?F, if_icon ?F}" for p
    using that by (auto simp: shelf_files_def install_files_of_def Let_def trunc_cpy_def)
  have a: "''a'' \<notin> {if_ref ?F, if_sfo ?F, if_icon ?F}"
  proof
    assume "''a'' \<in> {if_ref ?F, if_sfo ?F, if_icon ?F}"
    from slash [OF this] show False by simp
  qed
  have w: "set (fst (snd ?v)) = {''a'', if_ref ?F}" by (simp add: shelf_world_def)
  have only: "A = {''a''}" if "A - {if_ref ?F, if_sfo ?F, if_icon ?F} = {''a'', if_ref ?F} - {if_ref ?F, if_sfo ?F, if_icon ?F}
      \<and> if_sfo ?F \<notin> A \<and> (\<not> False \<longrightarrow> if_ref ?F \<notin> A \<and> if_icon ?F \<notin> A)" for A
    using that a by blast
  show ?thesis using r only [OF install_cleans_up [OF shelf_install_ok dir lang g F r, unfolded w]] by blast
qed

end
