(* ===== verification/SfoList.thy ===== *)
theory SfoList
  imports Sfo
begin

text \<open>
  The list of entries of sfo.c in memory.  The macros of utlist.h that sfo.c uses (\<open>DL_APPEND\<close>,
  \<open>DL_DELETE\<close> and the loops \<open>DL_FOREACH\<close>, \<open>DL_FOREACH_SAFE\<close>) are modelled on a heap of blocks, with
  \<open>sfo_free\<close> and the search on top of them: the list is what the reader in Sfo takes it for, and freeing it
  releases every block once and touches nothing else.
\<close>

section \<open>Blocks\<close>

text \<open>A node of the list, a key, a value, and the object that holds the head.  An address without a
  block is \<open>None\<close>: using it, or freeing it, is a fault.\<close>

record sfo_node =
  sn_prev :: "nat option"
  sn_next :: "nat option"
  sn_key :: "nat option"
  sn_value :: "nat option"

datatype block = BNode sfo_node | BKey string | BValue | BSfo "nat option"

type_synonym heap = "nat \<Rightarrow> block option"

definition get_node :: "heap \<Rightarrow> nat \<Rightarrow> sfo_node option" where
  "get_node h p = (case h p of Some (BNode n) \<Rightarrow> Some n | _ \<Rightarrow> None)"

definition on_node :: "heap \<Rightarrow> nat \<Rightarrow> (sfo_node \<Rightarrow> sfo_node) \<Rightarrow> heap option" where
  "on_node h p f = do { n \<leftarrow> get_node h p; Some (h(p \<mapsto> BNode (f n))) }"

definition key_text :: "heap \<Rightarrow> nat \<Rightarrow> string option" where
  "key_text h p = (case h p of Some (BKey t) \<Rightarrow> Some t | _ \<Rightarrow> None)"

definition sfo_head :: "heap \<Rightarrow> nat \<Rightarrow> nat option option" where
  "sfo_head h p = (case h p of Some (BSfo hed) \<Rightarrow> Some hed | _ \<Rightarrow> None)"

definition free :: "heap \<Rightarrow> nat \<Rightarrow> heap option" where
  "free h p = (if h p = None then None else Some (h(p := None)))"

definition free_if :: "heap \<Rightarrow> nat option \<Rightarrow> heap option" where
  "free_if h p = (case p of None \<Rightarrow> Some h | Some q \<Rightarrow> free h q)"

section \<open>The macros\<close>

definition DL_APPEND :: "heap \<Rightarrow> nat option \<Rightarrow> nat \<Rightarrow> (nat option \<times> heap) option" where
  "DL_APPEND h head add =
     (case head of
        Some hed \<Rightarrow> do {
          n \<leftarrow> get_node h hed;
          h \<leftarrow> on_node h add (\<lambda>a. a\<lparr>sn_prev := sn_prev n\<rparr>);
          n \<leftarrow> get_node h hed;
          lst \<leftarrow> sn_prev n;
          h \<leftarrow> on_node h lst (\<lambda>a. a\<lparr>sn_next := Some add\<rparr>);
          h \<leftarrow> on_node h hed (\<lambda>a. a\<lparr>sn_prev := Some add\<rparr>);
          h \<leftarrow> on_node h add (\<lambda>a. a\<lparr>sn_next := None\<rparr>);
          Some (head, h) }
      | None \<Rightarrow> do {
          h \<leftarrow> on_node h add (\<lambda>a. a\<lparr>sn_prev := Some add\<rparr>);
          h \<leftarrow> on_node h add (\<lambda>a. a\<lparr>sn_next := None\<rparr>);
          Some (Some add, h) })"

text \<open>A failed assertion is \<open>None\<close> too.\<close>

definition DL_DELETE :: "heap \<Rightarrow> nat option \<Rightarrow> nat \<Rightarrow> (nat option \<times> heap) option" where
  "DL_DELETE h head del = do {
     hed \<leftarrow> head;
     d \<leftarrow> get_node h del;
     pv \<leftarrow> sn_prev d;
     if pv = del then Some (None, h)
     else if del = hed then do {
       nx \<leftarrow> sn_next d;
       h \<leftarrow> on_node h nx (\<lambda>a. a\<lparr>sn_prev := Some pv\<rparr>);
       Some (Some nx, h) }
     else do {
       h \<leftarrow> on_node h pv (\<lambda>a. a\<lparr>sn_next := sn_next d\<rparr>);
       h \<leftarrow> on_node h (case sn_next d of Some nx \<Rightarrow> nx | None \<Rightarrow> hed) (\<lambda>a. a\<lparr>sn_prev := Some pv\<rparr>);
       Some (head, h) } }"

section \<open>The list of entries\<close>

text \<open>The body of \<open>DL_FOREACH_SAFE\<close> in \<open>sfo_free\<close>; the head is in the object.\<close>

definition free_entry :: "heap \<Rightarrow> nat \<Rightarrow> nat \<Rightarrow> heap option" where
  "free_entry h sfo entry = do {
     hed \<leftarrow> sfo_head h sfo;
     (hed, h) \<leftarrow> DL_DELETE h hed entry;
     let h = h(sfo \<mapsto> BSfo hed);
     n \<leftarrow> get_node h entry;
     h \<leftarrow> free_if h (sn_key n);
     h \<leftarrow> free_if h (sn_value n);
     free h entry }"

partial_function (option) free_loop :: "heap \<Rightarrow> nat \<Rightarrow> nat option \<Rightarrow> heap option" where
  "free_loop h sfo el =
     (if el = None then Some h
      else do {
        n \<leftarrow> get_node h (the el);
        h \<leftarrow> free_entry h sfo (the el);
        free_loop h sfo (sn_next n) })"

definition sfo_free :: "heap \<Rightarrow> nat option \<Rightarrow> heap option" where
  "sfo_free h sfo =
     (case sfo of None \<Rightarrow> Some h
      | Some s \<Rightarrow> do {
          hed \<leftarrow> sfo_head h s;
          h \<leftarrow> free_loop h s hed;
          free h s })"

text \<open>\<open>sfo_find_entry\<close> on the nodes.\<close>

partial_function (option) find_loop :: "heap \<Rightarrow> nat option \<Rightarrow> string \<Rightarrow> nat option option" where
  "find_loop h el key =
     (if el = None then Some None
      else do {
        n \<leftarrow> get_node h (the el);
        k \<leftarrow> sn_key n;
        t \<leftarrow> key_text h k;
        if t = key then Some el else find_loop h (sn_next n) key })"

declare free_loop.simps [code] find_loop.simps [code]

text \<open>The nodes that a load links, one after the other.\<close>

fun append_all :: "heap \<Rightarrow> nat option \<Rightarrow> nat list \<Rightarrow> (nat option \<times> heap) option" where
  "append_all h head [] = Some (head, h)"
| "append_all h head (p # ps) = do { (head, h) \<leftarrow> DL_APPEND h head p; append_all h head ps }"

section \<open>Lists in the heap\<close>

text \<open>The nodes after \<open>l\<close>: each points back to the one before it and on to the next.  The first points
  back to the last.\<close>

fun links :: "heap \<Rightarrow> nat \<Rightarrow> nat list \<Rightarrow> bool" where
  "links h l [] = True"
| "links h l (p # ps) =
     ((case get_node h p of None \<Rightarrow> False
       | Some n \<Rightarrow> sn_prev n = Some l \<and> sn_next n = (case ps of [] \<Rightarrow> None | q # _ \<Rightarrow> Some q))
      \<and> links h p ps)"

definition linked :: "heap \<Rightarrow> nat option \<Rightarrow> nat list \<Rightarrow> bool" where
  "linked h head ps \<longleftrightarrow> (case ps of [] \<Rightarrow> head = None | p # _ \<Rightarrow> head = Some p \<and> links h (last ps) ps)"

lemma get_node_upd: "get_node (h(p \<mapsto> BNode n)) q = (if q = p then Some n else get_node h q)"
  by (simp add: get_node_def)

lemma links_cong: "(\<And>p. p \<in> set ps \<Longrightarrow> get_node h' p = get_node h p) \<Longrightarrow> links h' l ps = links h l ps"
  by (induction ps arbitrary: l) auto

lemma links_nodes: "links h l ps \<Longrightarrow> p \<in> set ps \<Longrightarrow> \<exists>n. get_node h p = Some n"
  by (induction ps arbitrary: l) (auto split: option.splits)

text \<open>The last node gets a successor.\<close>

lemma links_snoc:
  assumes "links h l ps" and "distinct ps" and "ps \<noteq> []" and "a \<notin> set ps"
    and "get_node h (last ps) = Some m" and "get_node h a = Some na" and "sn_prev na = Some (last ps)" and "sn_next na = None"
  shows "links (h(last ps \<mapsto> BNode (m\<lparr>sn_next := Some a\<rparr>))) l (ps @ [a])"
  using assms
proof (induction ps arbitrary: l)
  case (Cons p ps)
  let ?h = "h(last (p # ps) \<mapsto> BNode (m\<lparr>sn_next := Some a\<rparr>))"
  show ?case
  proof (cases "ps = []")
    case True
    with Cons.prems have "a \<noteq> p" "sn_prev m = Some l" by auto
    with Cons.prems True show ?thesis by (simp add: get_node_def)
  next
    case False
    then obtain q qs where q: "ps = q # qs" by (cases ps) auto
    have "last ps \<in> set ps" using False by simp
    with Cons.prems(2) have "p \<noteq> last ps" by auto
    have hp: "links h p ps" using Cons.prems(1) by (auto split: option.splits)
    have "links (h(last ps \<mapsto> BNode (m\<lparr>sn_next := Some a\<rparr>))) p (ps @ [a])"
      by (rule Cons.IH [OF hp]) (use Cons.prems False in auto)
    then have "links ?h p (ps @ [a])" unfolding last_ConsR [OF False] .
    moreover have "get_node ?h p = get_node h p" using \<open>p \<noteq> last ps\<close> False by (simp add: get_node_upd)
    moreover have "(case ps @ [a] of [] \<Rightarrow> None | q # _ \<Rightarrow> Some q) = (case ps of [] \<Rightarrow> None | q # _ \<Rightarrow> Some q)"
      by (simp add: q)
    moreover have "case get_node h p of None \<Rightarrow> False
        | Some n \<Rightarrow> sn_prev n = Some l \<and> sn_next n = (case ps of [] \<Rightarrow> None | q # _ \<Rightarrow> Some q)"
      using Cons.prems(1) by simp
    ultimately show ?thesis unfolding append_Cons links.simps(2) by (simp only: simp_thms)
  qed
qed simp

text \<open>\<open>DL_APPEND\<close> adds a node at the end and changes nothing but links.\<close>

definition same_content :: "block option \<Rightarrow> block option \<Rightarrow> bool" where
  "same_content x y \<longleftrightarrow> x = y \<or> (\<exists>a b. x = Some (BNode a) \<and> y = Some (BNode b)
     \<and> sn_key a = sn_key b \<and> sn_value a = sn_value b)"

lemma same_content_refl: "same_content x x"
  by (simp add: same_content_def)

lemma same_content_trans: "same_content x y \<Longrightarrow> same_content y z \<Longrightarrow> same_content x z"
  by (auto simp: same_content_def)

lemma on_node_Some: "get_node h p = Some n \<Longrightarrow> on_node h p f = Some (h(p \<mapsto> BNode (f n)))"
  by (simp add: on_node_def)

lemma get_node_block: "get_node h p = Some n \<longleftrightarrow> h p = Some (BNode n)"
  by (simp add: get_node_def split: option.split block.split)

lemma same_content_upd:
  "get_node h p = Some n \<Longrightarrow> sn_key n' = sn_key n \<Longrightarrow> sn_value n' = sn_value n \<Longrightarrow> same_content (h q) ((h(p \<mapsto> BNode n')) q)"
  by (auto simp: get_node_block same_content_def)

lemma links_first:
  assumes "links h l (p # qs)" and "p \<notin> set qs" and "get_node h p = Some n"
  shows "links (h(p \<mapsto> BNode (n\<lparr>sn_prev := Some x\<rparr>))) x (p # qs)"
proof -
  have "links (h(p \<mapsto> BNode (n\<lparr>sn_prev := Some x\<rparr>))) p qs = links h p qs"
    by (rule links_cong) (use assms(2) in \<open>auto simp: get_node_upd\<close>)
  with assms show ?thesis by (simp add: get_node_upd)
qed

lemma DL_APPEND_linked:
  assumes l: "linked h head ps" and ps: "distinct ps" "a \<notin> set ps" and a: "get_node h a = Some na"
  shows "\<exists>head' h'. DL_APPEND h head a = Some (head', h') \<and> linked h' head' (ps @ [a])
    \<and> (\<forall>q. same_content (h q) (h' q)) \<and> (\<forall>q. q \<notin> set (ps @ [a]) \<longrightarrow> h' q = h q)"
proof (cases ps)
  case Nil
  with l have "head = None" by (simp add: linked_def)
  moreover from a have "h a = Some (BNode na)" by (simp add: get_node_block)
  ultimately show ?thesis using Nil
    by (auto simp: DL_APPEND_def on_node_def get_node_def linked_def same_content_def)
next
  case (Cons p qs)
  obtain z where z: "last ps = z" by blast
  from l Cons have hd: "head = Some p" and "links h (last ps) ps" by (simp_all add: linked_def)
  then have k: "links h z ps" unfolding z by blast
  then obtain n where n: "get_node h p = Some n" "sn_prev n = Some z"
    using Cons by (auto split: option.splits)
  let ?l = z
  have lp: "?l \<in> set ps" "p \<in> set ps" using last_in_set [of ps] Cons z by auto
  then have ne: "a \<noteq> p" "a \<noteq> ?l" using ps(2) by auto
  obtain m where m: "get_node h ?l = Some m" using links_nodes [OF k lp(1)] by blast
  let ?a = "na\<lparr>sn_prev := Some ?l\<rparr>"
  let ?h1 = "h(a \<mapsto> BNode ?a)"
  let ?h2 = "?h1(?l \<mapsto> BNode (m\<lparr>sn_next := Some a\<rparr>))"
  obtain n2 where n2: "get_node ?h2 p = Some n2" using n(1) ne by (cases "p = ?l") (simp_all add: get_node_upd)
  let ?h3 = "?h2(p \<mapsto> BNode (n2\<lparr>sn_prev := Some a\<rparr>))"
  let ?h4 = "?h3(a \<mapsto> BNode (?a\<lparr>sn_next := None\<rparr>))"
  have "DL_APPEND h head a = Some (head, ?h4)"
    using hd n n2 m a ne by (cases "p = ?l") (auto simp: DL_APPEND_def on_node_def get_node_upd)
  moreover have "linked ?h4 head (ps @ [a])"
  proof -
    let ?g1 = "h(a \<mapsto> BNode (?a\<lparr>sn_next := None\<rparr>))"
    let ?g2 = "?g1(?l \<mapsto> BNode (m\<lparr>sn_next := Some a\<rparr>))"
    have "links ?g1 ?l ps" using k ps(2) by (subst links_cong [of ps ?g1 h]) (auto simp: get_node_upd)
    then have "links ?g2 ?l (ps @ [a])"
      by (rule links_snoc [where ps = ps and m = m and na = "?a\<lparr>sn_next := None\<rparr>", unfolded z]) (use ps Cons m ne in \<open>simp_all add: get_node_upd\<close>)
    moreover have "get_node ?g2 p = Some n2" using n2 ne by (cases "p = z") (simp_all add: get_node_upd)
    moreover have "p \<notin> set (qs @ [a])" using ps ne Cons by auto
    ultimately have "links (?g2(p \<mapsto> BNode (n2\<lparr>sn_prev := Some a\<rparr>))) a (p # qs @ [a])"
      using links_first [of ?g2 ?l p "qs @ [a]" n2 a] Cons by simp
    moreover have "?g2(p \<mapsto> BNode (n2\<lparr>sn_prev := Some a\<rparr>)) = ?h4" using ne by (intro ext) simp
    ultimately show ?thesis using Cons hd by (simp add: linked_def)
  qed
  moreover have "\<forall>q. same_content (h q) (?h4 q)"
  proof
    fix q
    have "same_content (h q) (?h1 q)" by (rule same_content_upd [OF a]) simp_all
    moreover have "same_content (?h1 q) (?h2 q)"
      by (rule same_content_upd [where h = ?h1 and n = m]) (use m ne in \<open>simp_all add: get_node_upd\<close>)
    moreover have "same_content (?h2 q) (?h3 q)" by (rule same_content_upd [OF n2]) simp_all
    moreover have "same_content (?h3 q) (?h4 q)"
      by (rule same_content_upd [where h = ?h3 and n = ?a]) (use ne in \<open>simp_all add: get_node_upd\<close>)
    ultimately show "same_content (h q) (?h4 q)" by (meson same_content_trans)
  qed
  moreover have "\<forall>q. q \<notin> set (ps @ [a]) \<longrightarrow> ?h4 q = h q" using lp by auto
  ultimately show ?thesis by blast
qed

section \<open>Entries\<close>

text \<open>An entry: the addresses of its node, key and value, and the text of the key.\<close>

type_synonym entry_at = "nat \<times> nat \<times> nat \<times> string"

fun holds :: "heap \<Rightarrow> entry_at \<Rightarrow> bool" where
  "holds h (p, k, v, t) \<longleftrightarrow> (\<exists>n. get_node h p = Some n \<and> sn_key n = Some k \<and> sn_value n = Some v)
     \<and> h k = Some (BKey t) \<and> h v = Some BValue"

fun entry_blocks :: "entry_at \<Rightarrow> nat list" where
  "entry_blocks (p, k, v, t) = [p, k, v]"

abbreviation all_blocks :: "entry_at list \<Rightarrow> nat list" where
  "all_blocks es \<equiv> concat (map entry_blocks es)"

lemma holds_same:
  assumes "\<forall>q. same_content (h q) (h' q)" and "holds h e"
  shows "holds h' e"
proof -
  obtain p k v t where e: "e = (p, k, v, t)" by (metis prod_cases4)
  from assms(1) have "same_content (h p) (h' p)" "same_content (h k) (h' k)" "same_content (h v) (h' v)" by blast+
  with assms(2) e show ?thesis
    by (fastforce simp: get_node_block same_content_def)
qed

lemma append_all_linked:
  "linked h head ps \<Longrightarrow> distinct (ps @ as) \<Longrightarrow> \<forall>a \<in> set as. get_node h a \<noteq> None \<Longrightarrow>
    \<exists>head' h'. append_all h head as = Some (head', h') \<and> linked h' head' (ps @ as)
      \<and> (\<forall>q. same_content (h q) (h' q)) \<and> (\<forall>q. q \<notin> set (ps @ as) \<longrightarrow> h' q = h q)"
proof (induction as arbitrary: h head ps)
  case Nil
  then show ?case by (simp add: same_content_refl)
next
  case (Cons a as)
  then obtain na where a: "get_node h a = Some na" by auto
  from DL_APPEND_linked [OF Cons.prems(1) _ _ a] Cons.prems(2) obtain head1 h1 where 1: "DL_APPEND h head a = Some (head1, h1)"
    "linked h1 head1 (ps @ [a])" "\<forall>q. same_content (h q) (h1 q)" "\<forall>q. q \<notin> set (ps @ [a]) \<longrightarrow> h1 q = h q" by auto
  have "\<forall>b \<in> set as. get_node h1 b \<noteq> None"
    using Cons.prems(2,3) 1(4) by (auto simp: get_node_def)
  from Cons.IH [OF 1(2) _ this] Cons.prems(2) obtain head2 h2 where 2: "append_all h1 head1 as = Some (head2, h2)"
    "linked h2 head2 (ps @ a # as)" "\<forall>q. same_content (h1 q) (h2 q)" "\<forall>q. q \<notin> set (ps @ a # as) \<longrightarrow> h2 q = h1 q" by auto
  have "\<forall>q. same_content (h q) (h2 q)" using 1(3) 2(3) same_content_trans by blast
  moreover have "\<forall>q. q \<notin> set (ps @ a # as) \<longrightarrow> h2 q = h q" using 1(4) 2(4) by simp
  ultimately show ?case using 1(1) 2(1,2) by simp
qed

text \<open>The search is the search in the list.\<close>

fun first_entry :: "entry_at list \<Rightarrow> nat option" where
  "first_entry [] = None"
| "first_entry (e # es) = Some (fst e)"

lemma links_entry:
  assumes "links h l (map fst ((p, k, v, t) # es))" and "holds h (p, k, v, t)"
  obtains n where "get_node h p = Some n" "sn_key n = Some k" "sn_value n = Some v" "sn_prev n = Some l"
    "sn_next n = first_entry es" "h k = Some (BKey t)" "h v = Some BValue" "links h p (map fst es)"
proof -
  from assms(2) obtain n where n: "get_node h p = Some n" "sn_key n = Some k" "sn_value n = Some v"
    "h k = Some (BKey t)" "h v = Some BValue" by auto
  have "sn_next n = first_entry es" using assms(1) n(1) by (cases es) auto
  with assms(1) n that show ?thesis by auto
qed

lemma find_loop_entries:
  "links h l (map fst es) \<Longrightarrow> \<forall>e \<in> set es. holds h e \<Longrightarrow>
     find_loop h (first_entry es) key = Some (map_option fst (List.find (\<lambda>(p, k, v, t). t = key) es))"
proof (induction es arbitrary: l)
  case Nil
  show ?case by (subst find_loop.simps) simp
next
  case (Cons e es)
  obtain p k v t where e: "e = (p, k, v, t)" by (metis prod_cases4)
  from Cons.prems e have "links h l (map fst ((p, k, v, t) # es))" "holds h (p, k, v, t)" by auto
  then obtain n where n: "get_node h p = Some n" "sn_key n = Some k" "h k = Some (BKey t)"
    "sn_next n = first_entry es" "links h p (map fst es)" by (rule links_entry)
  have r: "find_loop h (first_entry es) key = Some (map_option fst (List.find (\<lambda>(p, k, v, t). t = key) es))"
    by (rule Cons.IH [OF n(5)]) (use Cons.prems(2) in simp)
  show ?case using n(1-4) r unfolding e
    by (subst find_loop.simps) (simp add: key_text_def)
qed

section \<open>Freeing\<close>

lemma entry_nodes: "set (map fst es) \<subseteq> set (all_blocks es)"
proof (induction es)
  case (Cons e es)
  then show ?case by (cases e) auto
qed simp

lemma holds_cong: "(\<And>b. b \<in> set (entry_blocks x) \<Longrightarrow> h' b = h b) \<Longrightarrow> holds h' x = holds h x"
  by (cases x) (simp add: get_node_def)

text \<open>One round: the first entry is unlinked and its blocks are gone; only the link back of the next
  one and the head change besides.\<close>

lemma free_entry_first:
  assumes l: "links h lst (map fst (e # es))" and lst: "lst = last (map fst (e # es))"
    and hold: "\<forall>x \<in> set (e # es). holds h x" and d: "distinct (all_blocks (e # es))" "s \<notin> set (all_blocks (e # es))"
    and s: "h s = Some (BSfo (Some (fst e)))"
  shows "\<exists>h'. free_entry h s (fst e) = Some h'
    \<and> (es \<noteq> [] \<longrightarrow> links h' (last (map fst es)) (map fst es)) \<and> (\<forall>x \<in> set es. holds h' x) \<and> h' s = Some (BSfo (first_entry es))
    \<and> (\<forall>q. q \<notin> set (map fst es) \<longrightarrow> h' q = (if q \<in> set (entry_blocks e) then None else if q = s then Some (BSfo (first_entry es)) else h q))"
proof -
  obtain p k v t where e: "e = (p, k, v, t)" by (metis prod_cases4)
  from l hold e have "links h lst (map fst ((p, k, v, t) # es))" "holds h (p, k, v, t)" by auto
  then obtain n where n: "get_node h p = Some n" "sn_key n = Some k" "sn_value n = Some v" "sn_prev n = Some lst"
    "sn_next n = first_entry es" "h k = Some (BKey t)" "h v = Some BValue" "links h p (map fst es)" by (rule links_entry)
  have ne: "p \<noteq> k" "p \<noteq> v" "k \<noteq> v" "s \<noteq> p" "s \<noteq> k" "s \<noteq> v" using d e by auto
  have sub: "fst x \<in> set (entry_blocks x)" for x by (cases x) simp
  have out: "\<And>x b. x \<in> set es \<Longrightarrow> b \<in> set (entry_blocks x) \<Longrightarrow> b \<noteq> p \<and> b \<noteq> k \<and> b \<noteq> v \<and> b \<noteq> s"
    using d e by auto
  have hs: "sfo_head h s = Some (Some p)" using s e by (simp add: sfo_head_def)
  show ?thesis
  proof (cases es)
    case Nil
    let ?h = "h(s \<mapsto> BSfo None, k := None, v := None, p := None)"
    have "lst = p" using lst Nil e by simp
    then have del: "DL_DELETE h (Some p) p = Some (None, h)" using n(1,4) by (simp add: DL_DELETE_def)
    have g: "get_node (h(s \<mapsto> BSfo None)) p = Some n" using n(1) ne by (simp add: get_node_def)
    have blk: "h k = Some (BKey t)" "h v = Some BValue" "h p = Some (BNode n)" using n by (simp_all add: get_node_block)
    have "free_entry h s p = Some ?h"
      using hs del g n(2,3) ne blk by (simp add: free_entry_def free_if_def free_def Let_def)
    moreover have "?h s = Some (BSfo (first_entry es))" using ne Nil by simp
    moreover have "?h b = (if b \<in> set (entry_blocks e) then None else if b = s then Some (BSfo (first_entry es)) else h b)" for b
      unfolding e Nil by simp
    ultimately show ?thesis unfolding e fst_conv using Nil by (intro exI [of _ ?h]) simp
  next
    case (Cons x xs)
    obtain q k' v' t' where x: "x = (q, k', v', t')" by (metis prod_cases4)
    have q: "q \<noteq> p" "q \<noteq> k" "q \<noteq> v" "q \<noteq> s" using out [of x q] Cons x by auto
    have "map fst es \<noteq> []" "lst = last (map fst es)" using lst Cons by simp_all
    then have "lst \<in> set (map fst es)" by (metis last_in_set)
    then obtain y where "y \<in> set es" "lst = fst y" by auto
    then have lp: "lst \<noteq> p" using out [of y lst] sub by auto
    from hold Cons x obtain nq where nq: "get_node h q = Some nq" by auto
    let ?nq = "nq\<lparr>sn_prev := Some lst\<rparr>"
    let ?h1 = "h(q \<mapsto> BNode ?nq)"
    let ?h = "?h1(s \<mapsto> BSfo (Some q), k := None, v := None, p := None)"
    have del: "DL_DELETE h (Some p) p = Some (Some q, ?h1)"
      using n(1,4,5) lp nq Cons x by (simp add: DL_DELETE_def on_node_def)
    have g: "get_node (?h1(s \<mapsto> BSfo (Some q))) p = Some n"
      using n(1) q ne by (simp add: get_node_def)
    have blk: "?h1 k = Some (BKey t)" "?h1 v = Some BValue" "?h1 p = h p" "h p = Some (BNode n)"
      using n q by (auto simp: get_node_block)
    have "free_entry h s p = Some ?h"
      using hs del g n(2,3) ne blk by (simp add: free_entry_def free_if_def free_def Let_def)
    moreover have "links ?h (last (map fst es)) (map fst es)"
    proof -
      have "set (entry_blocks x) \<inter> set (all_blocks xs) = {}" using d(1) Cons by simp
      moreover have "q \<in> set (entry_blocks x)" by (simp add: x)
      moreover have "set (map fst xs) \<subseteq> set (all_blocks xs)" by (rule entry_nodes)
      ultimately have "q \<notin> set (map fst xs)" by blast
      with n(8) nq Cons x have "links ?h1 lst (map fst es)" using links_first [of h p q "map fst xs" nq lst] by simp
      moreover have "links ?h lst (map fst es) = links ?h1 lst (map fst es)"
      proof (rule links_cong)
        fix b assume "b \<in> set (map fst es)"
        then obtain y where "y \<in> set es" "b = fst y" by auto
        then have "b \<noteq> p \<and> b \<noteq> k \<and> b \<noteq> v \<and> b \<noteq> s" using out [of y b] sub by auto
        then show "get_node ?h b = get_node ?h1 b" by (simp add: get_node_def)
      qed
      moreover have "lst = last (map fst es)" using lst Cons by simp
      ultimately show ?thesis by simp
    qed
    moreover have "\<forall>y \<in> set es. holds ?h y"
    proof
      fix y assume y: "y \<in> set es"
      have "holds ?h1 y"
        by (rule holds_same [of h]) (use same_content_upd [OF nq, of ?nq] hold y in simp_all)
      moreover have "holds ?h y = holds ?h1 y"
        by (rule holds_cong) (use out [OF y] in simp)
      ultimately show "holds ?h y" by simp
    qed
    moreover have "?h s = Some (BSfo (first_entry es))" using ne Cons x by simp
    moreover have "?h b = (if b \<in> set (entry_blocks e) then None else if b = s then Some (BSfo (first_entry es)) else h b)"
      if "b \<notin> set (map fst es)" for b
    proof -
      from that Cons x have "b \<noteq> q" by simp
      then show ?thesis unfolding e Cons x by simp
    qed
    ultimately show ?thesis unfolding e fst_conv by blast
  qed
qed

lemma free_loop_all:
  "links h (last (map fst es)) (map fst es) \<Longrightarrow> \<forall>x \<in> set es. holds h x \<Longrightarrow> distinct (all_blocks es) \<Longrightarrow> s \<notin> set (all_blocks es) \<Longrightarrow>
    h s = Some (BSfo (first_entry es)) \<Longrightarrow>
    \<exists>h'. free_loop h s (first_entry es) = Some h'
      \<and> (\<forall>b. h' b = (if b \<in> set (all_blocks es) then None else if b = s then Some (BSfo None) else h b))"
proof (induction es arbitrary: h)
  case Nil
  then show ?case by (subst free_loop.simps) auto
next
  case (Cons e es)
  obtain p k v t where e: "e = (p, k, v, t)" by (metis prod_cases4)
  from Cons.prems(5) have s: "h s = Some (BSfo (Some (fst e)))" by simp
  from free_entry_first [OF Cons.prems(1) refl Cons.prems(2,3,4) s] obtain h1 where
    1: "free_entry h s (fst e) = Some h1" "es \<noteq> [] \<longrightarrow> links h1 (last (map fst es)) (map fst es)"
      "\<forall>x \<in> set es. holds h1 x" "h1 s = Some (BSfo (first_entry es))"
    and out: "\<forall>b. b \<notin> set (map fst es) \<longrightarrow>
      h1 b = (if b \<in> set (entry_blocks e) then None else if b = s then Some (BSfo (first_entry es)) else h b)"
    by (elim exE conjE) (rule that)
  have l1: "links h1 (last (map fst es)) (map fst es)" using 1(2) by (cases es) simp_all
  have d: "distinct (all_blocks es)" "s \<notin> set (all_blocks es)" using Cons.prems(3,4) by simp_all
  from Cons.IH [OF l1 1(3) d 1(4)] obtain h2 where
    2: "free_loop h1 s (first_entry es) = Some h2"
    and h2: "\<forall>b. h2 b = (if b \<in> set (all_blocks es) then None else if b = s then Some (BSfo None) else h1 b)" by blast
  have "links h (last (map fst (e # es))) (map fst ((p, k, v, t) # es))" "holds h (p, k, v, t)"
    using Cons.prems(1,2) e by simp_all
  then obtain n where n: "get_node h p = Some n" "sn_next n = first_entry es" by (rule links_entry)
  have "free_loop h s (first_entry (e # es)) = Some h2"
    using n 1(1) 2 e by (subst free_loop.simps) simp
  moreover have "h2 b = (if b \<in> set (all_blocks (e # es)) then None else if b = s then Some (BSfo None) else h b)" for b
  proof (cases "b \<in> set (all_blocks es) \<or> b = s")
    case True
    with h2 Cons.prems(4) show ?thesis by auto
  next
    case False
    with entry_nodes [of es] have "b \<notin> set (map fst es)" by blast
    with False h2 out show ?thesis by simp
  qed
  ultimately show ?case by blast
qed

lemma sfo_free_all:
  assumes "linked h head (map fst es)" and "\<forall>x \<in> set es. holds h x" and "distinct (all_blocks es)"
    and "s \<notin> set (all_blocks es)" and "h s = Some (BSfo head)"
  shows "sfo_free h (Some s) = Some (\<lambda>b. if b \<in> insert s (set (all_blocks es)) then None else h b)"
proof -
  have f: "head = first_entry es" and l: "links h (last (map fst es)) (map fst es)"
    using assms(1) by (cases es; simp add: linked_def)+
  from free_loop_all [OF l assms(2-4)] assms(5) f obtain h1 where
    1: "free_loop h s (first_entry es) = Some h1"
    and h1: "\<forall>b. h1 b = (if b \<in> set (all_blocks es) then None else if b = s then Some (BSfo None) else h b)" by auto
  have "sfo_head h s = Some (first_entry es)" using assms(5) f by (simp add: sfo_head_def)
  moreover have "h1 s \<noteq> None" using h1 assms(4) by simp
  moreover have "h1(s := None) = (\<lambda>b. if b \<in> insert s (set (all_blocks es)) then None else h b)"
    using h1 by (intro ext) simp
  ultimately show ?thesis using 1 by (simp add: sfo_free_def free_def)
qed

section \<open>Property\<close>

text \<open>C20: The list of entries is what the reader takes it for and is released as a whole: appending
  nodes one after the other with \<open>DL_APPEND\<close> never faults and keeps their order, the search gives the first
  node with the key, and \<open>sfo_free\<close> releases the node, key and value of every entry and the object, each
  exactly once, and leaves every other block as it was before the entries were linked.\<close>

theorem entry_list_owned:
  assumes "\<forall>e \<in> set es. holds h e" and "distinct (all_blocks es)" and "s \<notin> set (all_blocks es)"
  shows "\<exists>head h1. append_all h None (map fst es) = Some (head, h1)
    \<and> (\<forall>key. find_loop h1 head key = Some (map_option fst (List.find (\<lambda>(p, k, v, t). t = key) es)))
    \<and> sfo_free (h1(s \<mapsto> BSfo head)) (Some s) = Some (\<lambda>b. if b \<in> insert s (set (all_blocks es)) then None else h b)"
proof -
  have d: "distinct (map fst es)" using assms(2)
  proof (induction es)
    case (Cons e es)
    have "fst e \<in> set (entry_blocks e)" by (cases e) simp
    with Cons entry_nodes [of es] show ?case by auto
  qed simp
  have "\<forall>a \<in> set (map fst es). get_node h a \<noteq> None" using assms(1) by fastforce
  moreover have "linked h None []" by (simp add: linked_def)
  ultimately obtain head h1 where a: "append_all h None (map fst es) = Some (head, h1)" "linked h1 head (map fst es)"
    and c: "\<forall>q. same_content (h q) (h1 q)" and out: "\<forall>q. q \<notin> set (map fst es) \<longrightarrow> h1 q = h q"
    using append_all_linked [of h None "[]" "map fst es"] d by auto
  have hold: "\<forall>e \<in> set es. holds h1 e" using assms(1) holds_same [OF c] by blast
  have f: "head = first_entry es" and l: "links h1 (last (map fst es)) (map fst es)"
    using a(2) by (cases es; simp add: linked_def)+
  let ?h = "h1(s \<mapsto> BSfo head)"
  have nb: "?h b = h1 b" if "b \<in> set (all_blocks es)" for b using that assms(3) by auto
  have "\<forall>e \<in> set es. holds ?h e"
  proof
    fix e assume e: "e \<in> set es"
    have "holds ?h e = holds h1 e" by (rule holds_cong, rule nb) (use e in auto)
    with hold e show "holds ?h e" by blast
  qed
  moreover have "links ?h (last (map fst es)) (map fst es) = links h1 (last (map fst es)) (map fst es)"
  proof (rule links_cong)
    fix b assume "b \<in> set (map fst es)"
    with entry_nodes [of es] have "b \<in> set (all_blocks es)" by blast
    then show "get_node ?h b = get_node h1 b" unfolding get_node_def by (simp only: nb)
  qed
  with l f have "linked ?h head (map fst es)" by (cases es) (simp_all add: linked_def)
  ultimately have "sfo_free ?h (Some s) = Some (\<lambda>b. if b \<in> insert s (set (all_blocks es)) then None else ?h b)"
    using sfo_free_all [of ?h head es s] assms(2,3) by simp
  moreover have "(\<lambda>b. if b \<in> insert s (set (all_blocks es)) then None else ?h b)
      = (\<lambda>b. if b \<in> insert s (set (all_blocks es)) then None else h b)"
    using out entry_nodes [of es] by (intro ext) auto
  ultimately show ?thesis using a(1) find_loop_entries [OF l hold] f by (intro exI conjI allI) simp_all
qed

theorem entry_list_owned_witness:
  "\<exists>head h1. append_all (\<lambda>b. map_of
        [(1, BNode \<lparr>sn_prev = None, sn_next = None, sn_key = Some 2, sn_value = Some 3\<rparr>), (2, BKey ''TITLE''), (3, BValue),
         (4, BNode \<lparr>sn_prev = None, sn_next = None, sn_key = Some 5, sn_value = Some 6\<rparr>), (5, BKey ''VERSION''), (6, BValue),
         (8, BValue)] b) None [1, 4] = Some (head, h1)
    \<and> find_loop h1 head ''VERSION'' = Some (Some 4) \<and> find_loop h1 head ''SYSTEM'' = Some None
    \<and> sfo_free (h1(7 \<mapsto> BSfo head)) (Some 7) = Some (\<lambda>b. if b = 8 then Some BValue else None)"
proof -
  let ?h = "\<lambda>b. map_of
        [(1, BNode \<lparr>sn_prev = None, sn_next = None, sn_key = Some 2, sn_value = Some 3\<rparr>), (2, BKey ''TITLE''), (3, BValue),
         (4, BNode \<lparr>sn_prev = None, sn_next = None, sn_key = Some 5, sn_value = Some 6\<rparr>), (5, BKey ''VERSION''), (6, BValue),
         (8 :: nat, BValue)] b"
  let ?es = "[(1, 2, 3, ''TITLE''), (4, 5, 6, ''VERSION'')]"
  have hold: "\<forall>e \<in> set ?es. holds ?h e" by (simp add: get_node_def)
  have d: "distinct (all_blocks ?es)" "(7 :: nat) \<notin> set (all_blocks ?es)" by simp_all
  from entry_list_owned [OF hold d] obtain head h1 where
    1: "append_all ?h None [1, 4] = Some (head, h1)"
    and 2: "\<And>key. find_loop h1 head key = Some (map_option fst (List.find (\<lambda>(p, k, v, t). t = key) ?es))"
    and 3: "sfo_free (h1(7 \<mapsto> BSfo head)) (Some 7) = Some (\<lambda>b. if b \<in> insert 7 (set (all_blocks ?es)) then None else ?h b)"
    by auto
  have "(\<lambda>b. if b \<in> insert 7 (set (all_blocks ?es)) then None else ?h b) = (\<lambda>b. if b = 8 then Some BValue else None)"
    by (intro ext) auto
  with 1 2 [of "''VERSION''"] 2 [of "''SYSTEM''"] 3 show ?thesis by (intro exI conjI) simp_all
qed

end
